(* ===== verification/Prelude.thy ===== *)
theory Prelude
  imports Main "HOL-Library.Word" "HOL-Library.Product_Lexorder"
begin

text \<open>
  Shared vocabulary of the development: bytes, Python integers, the exceptions the
  modelled code can raise, the result type of stateful operations, Python slicing, and the
  generic lemmas on lists and big-endian numbers that every component uses.

  Conventions. A Python \<open>int\<close> is an \<^typ>\<open>int\<close>; \<open>bytes\<close> and \<open>bytearray\<close>
  are lists of 8-bit words; a Python \<open>str\<close> is a \<^typ>\<open>string\<close>, that is, code points
  below 256. A pure function that can raise returns \<open>exn + 'a\<close>. An operation on an object
  returns an \<open>outcome\<close>: the object after the call and, when the call raised, the
  exception; the state survives a raise because the callers of this program
  (the logging proxy, for one) catch exceptions and keep using the object.
\<close>

section \<open>Types\<close>

type_synonym byte = "8 word"
type_synonym bytes = "8 word list"
type_synonym rect = "int \<times> int \<times> int \<times> int"
type_synonym ver = "int \<times> int"

datatype exn =
    ValueError | StructError | StopIteration | RuntimeError | TypeError | IndexError
  | AssertionError | DecodeError | UnsupportedPixelFormat | ZlibError | UnicodeError
  | ProtocolError int | AttributeError | KeyError | OverflowError
  | AlreadyCalledError | ZeroDivisionError | OSError

datatype 's outcome = Ret (final: 's) | Raise exn (final: 's)

named_theorems wire \<open>evaluated unpackings of the struct formats the program uses\<close>
named_theorems framing \<open>operations that do not look at the unread part of the receive buffer\<close>
named_theorems keeps \<open>fields an operation leaves alone\<close>

section \<open>Sequencing\<close>

fun and_then :: "'s outcome \<Rightarrow> ('s \<Rightarrow> 's outcome) \<Rightarrow> 's outcome" where
  "and_then (Ret s) f = f s"
| "and_then (Raise e s) f = Raise e s"

definition with_value :: "exn + 'a \<Rightarrow> 's \<Rightarrow> ('a \<Rightarrow> 's outcome) \<Rightarrow> 's outcome" where
  "with_value r s k = (case r of Inl e \<Rightarrow> Raise e s | Inr v \<Rightarrow> k v)"

fun bind_sum :: "exn + 'a \<Rightarrow> ('a \<Rightarrow> exn + 'b) \<Rightarrow> exn + 'b" where
  "bind_sum (Inl e) f = Inl e"
| "bind_sum (Inr v) f = f v"

lemma with_value_simps [simp]:
  "with_value (Inl e) s k = Raise e s"
  "with_value (Inr v) s k = k v"
  by (simp_all add: with_value_def)

lemma and_then_assoc: "and_then (and_then r f) g = and_then r (\<lambda>s. and_then (f s) g)"
  by (cases r) simp_all

lemma and_then_Ret_iff: "and_then r f = Ret t \<longleftrightarrow> (\<exists>s. r = Ret s \<and> f s = Ret t)"
  by (cases r) auto

lemma with_value_Ret_iff: "with_value r s k = Ret t \<longleftrightarrow> (\<exists>v. r = Inr v \<and> k v = Ret t)"
  by (cases r) simp_all

lemma map_outcome_and_then:
  "(\<And>s. g (h s) = map_outcome h (g s)) \<Longrightarrow>
     and_then (map_outcome h r) g = map_outcome h (and_then r g)"
  by (cases r) simp_all

lemma bind_sum_Inr_iff: "bind_sum r f = Inr v \<longleftrightarrow> (\<exists>u. r = Inr u \<and> f u = Inr v)"
  by (cases r) auto

section \<open>Python sequences\<close>

text \<open>\<open>xs[:n]\<close> and \<open>xs[n:]\<close>; a negative bound counts from the end.\<close>

definition py_prefix :: "int \<Rightarrow> 'a list \<Rightarrow> 'a list" where
  "py_prefix n xs = take (if n < 0 then length xs - nat (- n) else nat n) xs"

definition py_suffix :: "int \<Rightarrow> 'a list \<Rightarrow> 'a list" where
  "py_suffix n xs = drop (if n < 0 then length xs - nat (- n) else nat n) xs"

text \<open>\<open>xs[i:j]\<close> for bounds that are not negative, as every caller's are.\<close>

definition py_slice :: "int \<Rightarrow> int \<Rightarrow> 'a list \<Rightarrow> 'a list" where
  "py_slice i j xs = drop (nat i) (take (nat j) xs)"

text \<open>\<open>xs * n\<close>: empty when \<open>n\<close> is not positive.\<close>

definition py_repeat :: "'a list \<Rightarrow> int \<Rightarrow> 'a list" where
  "py_repeat xs n = concat (replicate (nat n) xs)"

text \<open>\<open>xs[i]\<close>, with Python's negative indices and its \<open>IndexError\<close>.\<close>

definition py_index :: "'a list \<Rightarrow> int \<Rightarrow> exn + 'a" where
  "py_index seq idx =
     (if idx \<ge> int (length seq) \<or> idx < - int (length seq) then Inl IndexError
      else Inr (seq ! nat (if idx \<ge> 0 then idx else idx + int (length seq))))"

text \<open>\<open>str.split(sep)\<close> for a separator of one character.\<close>

fun split_on :: "'a \<Rightarrow> 'a list \<Rightarrow> 'a list list" where
  "split_on sep [] = [[]]"
| "split_on sep (c # cs) =
     (if c = sep then [] # split_on sep cs
      else case split_on sep cs of [] \<Rightarrow> [[c]] | w # ws \<Rightarrow> (c # w) # ws)"

text \<open>\<open>buf[i:j] = new\<close> on a \<open>bytearray\<close>, for bounds that are not negative: the slice is
  replaced, so the buffer changes its length when \<open>new\<close> has another one.\<close>

definition slice_assign :: "int \<Rightarrow> int \<Rightarrow> 'a list \<Rightarrow> 'a list \<Rightarrow> 'a list" where
  "slice_assign i j new buf = take (nat i) buf @ new @ drop (max (nat i) (nat j)) buf"

text \<open>The same for a slice that has the length of \<open>new\<close>: an overwrite in place.\<close>

definition overwrite :: "nat \<Rightarrow> 'a list \<Rightarrow> 'a list \<Rightarrow> 'a list" where
  "overwrite i new buf = take i buf @ new @ drop (i + length new) buf"

lemma split_on_nonempty [simp]: "split_on sep cs \<noteq> []"
  by (induction cs) (auto split: list.split)

lemma split_on_absent [simp]: "sep \<notin> set cs \<Longrightarrow> split_on sep cs = [cs]"
  by (induction cs) auto

lemma slice_assign_overwrite:
  "j = i + int (length new) \<Longrightarrow> 0 \<le> i \<Longrightarrow> slice_assign i j new buf = overwrite (nat i) new buf"
  by (simp add: slice_assign_def overwrite_def nat_add_distrib max_def)

lemma py_prefix_nonneg [simp]: "0 \<le> n \<Longrightarrow> py_prefix n xs = take (nat n) xs"
  by (simp add: py_prefix_def)

lemma py_suffix_nonneg [simp]: "0 \<le> n \<Longrightarrow> py_suffix n xs = drop (nat n) xs"
  by (simp add: py_suffix_def)

lemma py_prefix_suffix [simp]: "py_prefix n xs @ py_suffix n xs = xs"
  by (simp add: py_prefix_def py_suffix_def)

lemma length_concat_replicate [simp]: "length (concat (replicate n xs)) = n * length xs"
  by (induction n) simp_all

lemma length_py_repeat [simp]: "length (py_repeat xs n) = nat n * length xs"
  by (simp add: py_repeat_def)

lemma nth_concat_replicate:
  "i < n * length xs \<Longrightarrow> concat (replicate n xs) ! i = xs ! (i mod length xs)"
proof (induction n arbitrary: i)
  case 0
  then show ?case by simp
next
  case (Suc n)
  show ?case
  proof (cases "i < length xs")
    case True
    then show ?thesis by (simp add: nth_append)
  next
    case False
    with Suc.prems have "i - length xs < n * length xs" by simp
    with Suc.IH False show ?thesis
      by (simp add: nth_append le_mod_geq)
  qed
qed

lemma length_overwrite [simp]:
  "i + length new \<le> length buf \<Longrightarrow> length (overwrite i new buf) = length buf"
  by (simp add: overwrite_def)

lemma nth_overwrite:
  assumes "i + length new \<le> length buf" "k < length buf"
  shows "overwrite i new buf ! k =
    (if i \<le> k \<and> k < i + length new then new ! (k - i) else buf ! k)"
  using assms by (auto simp: overwrite_def nth_append)

lemma drop_overwrite_beyond:
  "i + length new \<le> n \<Longrightarrow> n \<le> length buf \<Longrightarrow> drop n (overwrite i new buf) = drop n buf"
  by (simp add: overwrite_def)

lemma take_overwrite_inside:
  "i + length new \<le> n \<Longrightarrow> n \<le> length buf \<Longrightarrow>
     take n (overwrite i new buf) = overwrite i new (take n buf)"
  by (intro nth_equalityI) (simp_all add: nth_overwrite)

section \<open>Big-endian numbers\<close>

text \<open>\<open>int.from_bytes(bs, "big")\<close> and its inverse at a fixed width.\<close>

definition from_be :: "bytes \<Rightarrow> int" where
  "from_be bs = foldl (\<lambda>a b. a * 256 + uint b) 0 bs"

primrec to_be :: "nat \<Rightarrow> int \<Rightarrow> bytes" where
  "to_be 0 v = []"
| "to_be (Suc k) v = to_be k (v div 256) @ [word_of_int v]"

lemma length_to_be [simp]: "length (to_be k v) = k"
  by (induction k arbitrary: v) simp_all

lemma from_be_Nil [simp]: "from_be [] = 0"
  by (simp add: from_be_def)

lemma from_be_snoc [simp]: "from_be (bs @ [b]) = from_be bs * 256 + uint b"
  by (simp add: from_be_def)

lemma from_be_single [simp]: "from_be [b] = uint b"
  by (simp add: from_be_def)

lemma uint_byte_bounds: "0 \<le> uint (b :: byte)" "uint (b :: byte) < 256"
  using uint_lt2p [of b] by simp_all

lemma from_be_nonneg [simp]: "0 \<le> from_be bs"
  by (induction bs rule: rev_induct) simp_all

lemma from_be_less: "from_be bs < 256 ^ length bs"
proof (induction bs rule: rev_induct)
  case Nil
  then show ?case by simp
next
  case (snoc b bs)
  have "uint b < 256" by (rule uint_byte_bounds)
  with snoc.IH show ?case by simp
qed

lemma from_to_be:
  assumes "0 \<le> v" "v < 256 ^ k"
  shows "from_be (to_be k v) = v"
  using assms
proof (induction k arbitrary: v)
  case 0
  then show ?case by simp
next
  case (Suc k)
  have "v div 256 < 256 ^ k" using Suc.prems(2) by (simp add: div_less_iff_less_mult mult.commute)
  with Suc have "from_be (to_be k (v div 256)) = v div 256" by simp
  moreover have "uint (word_of_int v :: byte) = v mod 256"
    by (simp add: uint_word_of_int)
  ultimately show ?case by simp
qed

lemma to_from_be: "to_be (length bs) (from_be bs) = bs"
proof (induction bs rule: rev_induct)
  case Nil
  then show ?case by simp
next
  case (snoc b bs)
  have "(from_be bs * 256 + uint b) div 256 = from_be bs"
    using uint_byte_bounds [of b] by simp
  moreover have "(word_of_int (from_be bs * 256 + uint b) :: byte) = b"
  proof -
    have wrap: "(256 :: byte) = 0" by simp
    have "word_of_int (from_be bs * 256 + uint b) = word_of_int (from_be bs) * (256 :: byte) + b"
      by simp
    then show ?thesis by (simp only: wrap) simp
  qed
  ultimately show ?case using snoc.IH by simp
qed

end
