(* ===== verification/Struct_Codec.thy ===== *)
theory Struct_Codec
  imports Prelude
begin

text \<open>
  Python's \<open>struct\<close> module as the program uses it: network byte order (\<open>!\<close>), no
  alignment, the item codes \<open>B ? H I L i s x\<close> with repeat counts. A format is the
  source's own format string, parsed here; an unknown character is a \<open>struct.error\<close>.
  The round trip of \<^emph>\<open>every\<close> format is proved once, and the formats the program uses
  are evaluated once (collection \<open>wire\<close>).
\<close>

section \<open>Formats and values\<close>

datatype sfield = SInt bool nat | SBool | SBytes nat | SPad

datatype pyval = is_PInt: PInt (pint: int) | is_PBool: PBool (pbool: bool) | PBytes bytes

definition digit_value :: "char \<Rightarrow> nat option" where
  "digit_value c = (let n = of_char c :: nat in
     if 48 \<le> n \<and> n \<le> 57 then Some (n - 48) else None)"

definition item_fields :: "char \<Rightarrow> nat \<Rightarrow> sfield list option" where
  "item_fields c n =
     (if c = CHR ''B'' then Some (replicate n (SInt False 1))
      else if c = CHR ''H'' then Some (replicate n (SInt False 2))
      else if c = CHR ''I'' \<or> c = CHR ''L'' then Some (replicate n (SInt False 4))
      else if c = CHR ''i'' then Some (replicate n (SInt True 4))
      else if c = CHR ''?'' then Some (replicate n SBool)
      else if c = CHR ''s'' then Some [SBytes n]
      else if c = CHR ''x'' then Some (replicate n SPad)
      else None)"

fun parse_items :: "nat option \<Rightarrow> string \<Rightarrow> exn + sfield list" where
  "parse_items None [] = Inr []"
| "parse_items (Some n) [] = Inl StructError"
| "parse_items cnt (c # cs) =
     (case digit_value c of
        Some d \<Rightarrow> parse_items (Some (10 * (case cnt of None \<Rightarrow> 0 | Some n \<Rightarrow> n) + d)) cs
      | None \<Rightarrow>
          (case item_fields c (case cnt of None \<Rightarrow> 1 | Some n \<Rightarrow> n) of
             None \<Rightarrow> Inl StructError
           | Some fs \<Rightarrow> bind_sum (parse_items None cs) (\<lambda>rest. Inr (fs @ rest))))"

definition parse_format :: "string \<Rightarrow> exn + sfield list" where
  "parse_format fmt =
     (case fmt of c # cs \<Rightarrow> if c = CHR ''!'' then parse_items None cs else Inl StructError
      | [] \<Rightarrow> Inl StructError)"

fun field_size :: "sfield \<Rightarrow> nat" where
  "field_size (SInt sg k) = k"
| "field_size SBool = 1"
| "field_size (SBytes n) = n"
| "field_size SPad = 1"

definition calcsize :: "sfield list \<Rightarrow> nat" where
  "calcsize fs = sum_list (map field_size fs)"

section \<open>Unpacking\<close>

definition signed_value :: "nat \<Rightarrow> int \<Rightarrow> int" where
  "signed_value k v = (if 2 * v \<ge> 256 ^ k then v - 256 ^ k else v)"

fun unpack_fields :: "sfield list \<Rightarrow> bytes \<Rightarrow> pyval list" where
  "unpack_fields [] bs = []"
| "unpack_fields (SInt sg k # fs) bs =
     PInt (if sg then signed_value k (from_be (take k bs)) else from_be (take k bs))
       # unpack_fields fs (drop k bs)"
| "unpack_fields (SBool # fs) bs = PBool (from_be (take 1 bs) \<noteq> 0) # unpack_fields fs (drop 1 bs)"
| "unpack_fields (SBytes n # fs) bs = PBytes (take n bs) # unpack_fields fs (drop n bs)"
| "unpack_fields (SPad # fs) bs = unpack_fields fs (drop 1 bs)"

definition struct_unpack :: "string \<Rightarrow> bytes \<Rightarrow> exn + pyval list" where
  "struct_unpack fmt bs = bind_sum (parse_format fmt) (\<lambda>fs.
     if length bs = calcsize fs then Inr (unpack_fields fs bs) else Inl StructError)"

text \<open>\<open>unpack_from(fmt, buffer)\<close>: a longer buffer is accepted.\<close>

definition struct_unpack_from :: "string \<Rightarrow> bytes \<Rightarrow> exn + pyval list" where
  "struct_unpack_from fmt bs = bind_sum (parse_format fmt) (\<lambda>fs.
     if calcsize fs \<le> length bs then Inr (unpack_fields fs bs) else Inl StructError)"

section \<open>Packing\<close>

definition pack_int :: "bool \<Rightarrow> nat \<Rightarrow> int \<Rightarrow> exn + bytes" where
  "pack_int sg k v =
     (if sg then (if - (256 ^ k) \<le> 2 * v \<and> 2 * v < 256 ^ k then Inr (to_be k (v mod 256 ^ k))
                   else Inl StructError)
      else if 0 \<le> v \<and> v < 256 ^ k then Inr (to_be k v) else Inl StructError)"

fun int_of_pyval :: "pyval \<Rightarrow> exn + int" where
  "int_of_pyval (PInt v) = Inr v"
| "int_of_pyval (PBool b) = Inr (of_bool b)"
| "int_of_pyval (PBytes _) = Inl StructError"

fun truth_of_pyval :: "pyval \<Rightarrow> bool" where
  "truth_of_pyval (PInt v) = (v \<noteq> 0)"
| "truth_of_pyval (PBool b) = b"
| "truth_of_pyval (PBytes bs) = (bs \<noteq> [])"

fun pack_fields :: "sfield list \<Rightarrow> pyval list \<Rightarrow> exn + bytes" where
  "pack_fields [] [] = Inr []"
| "pack_fields [] (v # vs) = Inl StructError"
| "pack_fields (SPad # fs) vs = bind_sum (pack_fields fs vs) (\<lambda>r. Inr (0 # r))"
| "pack_fields (SInt sg k # fs) (v # vs) =
     bind_sum (int_of_pyval v) (\<lambda>i. bind_sum (pack_int sg k i) (\<lambda>b.
       bind_sum (pack_fields fs vs) (\<lambda>r. Inr (b @ r))))"
| "pack_fields (SBool # fs) (v # vs) =
     bind_sum (pack_fields fs vs) (\<lambda>r. Inr (of_bool (truth_of_pyval v) # r))"
| "pack_fields (SBytes n # fs) (PBytes bs # vs) =
     bind_sum (pack_fields fs vs) (\<lambda>r. Inr (take n (bs @ replicate n 0) @ r))"
| "pack_fields (SBytes n # fs) (v # vs) = Inl StructError"
| "pack_fields (f # fs) [] = Inl StructError"

definition struct_pack :: "string \<Rightarrow> pyval list \<Rightarrow> exn + bytes" where
  "struct_pack fmt vs = bind_sum (parse_format fmt) (\<lambda>fs. pack_fields fs vs)"

section \<open>Round trip\<close>

text \<open>A value list that fills the fields exactly: the shape \<open>unpack\<close> itself produces.\<close>

fun fits :: "sfield list \<Rightarrow> pyval list \<Rightarrow> bool" where
  "fits [] [] = True"
| "fits (SPad # fs) vs = fits fs vs"
| "fits (SInt sg k # fs) (PInt v # vs) = fits fs vs"
| "fits (SBool # fs) (PBool b # vs) = fits fs vs"
| "fits (SBytes n # fs) (PBytes bs # vs) = (length bs = n \<and> fits fs vs)"
| "fits _ _ = False"

lemma calcsize_simps [simp]:
  "calcsize [] = 0" "calcsize (f # fs) = field_size f + calcsize fs"
  by (simp_all add: calcsize_def)

lemma pack_int_length: "pack_int sg k v = Inr bs \<Longrightarrow> length bs = k"
  by (auto simp: pack_int_def split: if_splits)

lemma pack_int_value:
  assumes "pack_int sg k v = Inr bs"
  shows "(if sg then signed_value k (from_be bs) else from_be bs) = v"
proof (cases sg)
  case False
  with assms show ?thesis by (auto simp: pack_int_def from_to_be split: if_splits)
next
  case True
  with assms have rng: "- (256 ^ k) \<le> 2 * v" "2 * v < 256 ^ k" and bs: "bs = to_be k (v mod 256 ^ k)"
    by (auto simp: pack_int_def split: if_splits)
  have "from_be bs = v mod 256 ^ k" unfolding bs by (rule from_to_be) simp_all
  moreover have "v mod 256 ^ k = (if v < 0 then v + 256 ^ k else v)"
  proof (cases "v < 0")
    case True
    have "(v + 256 ^ k) mod 256 ^ k = v + 256 ^ k"
      using rng True by (intro mod_pos_pos_trivial) linarith+
    with True show ?thesis by simp
  next
    case False
    with rng show ?thesis by (simp add: mod_pos_pos_trivial)
  qed
  ultimately show ?thesis using rng True by (simp add: signed_value_def)
qed

lemma pack_fields_length: "pack_fields fs vs = Inr bs \<Longrightarrow> length bs = calcsize fs"
  by (induction fs vs arbitrary: bs rule: pack_fields.induct)
    (auto simp: bind_sum_Inr_iff dest: pack_int_length)

lemma pack_unpack_fields:
  "pack_fields fs vs = Inr bs \<Longrightarrow> fits fs vs \<Longrightarrow> unpack_fields fs bs = vs"
proof (induction fs vs arbitrary: bs rule: pack_fields.induct)
  case (4 sg k fs v vs)
  from "4.prems"(2) obtain i where v: "v = PInt i" and fit: "fits fs vs" by (cases v) auto
  with "4.prems"(1) obtain b r where b: "pack_int sg k i = Inr b"
    and r: "pack_fields fs vs = Inr r" and bs: "bs = b @ r"
    by (auto simp: bind_sum_Inr_iff)
  from b have "length b = k" by (rule pack_int_length)
  with "4.IH" v b r fit pack_int_value [OF b] show ?case by (simp add: bs split: if_splits)
next
  case (5 fs v vs)
  then show ?case by (cases v) (auto simp: bind_sum_Inr_iff of_bool_def split: if_splits)
qed (auto simp: bind_sum_Inr_iff)

text \<open>The program-level statement: what is packed is what is unpacked, for any format.\<close>

lemma struct_round_trip:
  assumes "struct_pack fmt vs = Inr bs" "parse_format fmt = Inr fs" "fits fs vs"
  shows "struct_unpack fmt bs = Inr vs" "length bs = calcsize fs"
  using assms pack_fields_length [of fs vs bs] pack_unpack_fields [of fs vs bs]
  by (simp_all add: struct_pack_def struct_unpack_def)

section \<open>Tuple assignment from an unpacked value\<close>

text \<open>\<open>(a, b) = unpack(...)\<close>: the wrong number of values is a \<open>ValueError\<close>.\<close>

fun as_int1 :: "pyval list \<Rightarrow> exn + int" where
  "as_int1 [PInt a] = Inr a"
| "as_int1 _ = Inl ValueError"

fun as_int2 :: "pyval list \<Rightarrow> exn + int \<times> int" where
  "as_int2 [PInt a, PInt b] = Inr (a, b)"
| "as_int2 _ = Inl ValueError"

fun as_int3 :: "pyval list \<Rightarrow> exn + int \<times> int \<times> int" where
  "as_int3 [PInt a, PInt b, PInt c] = Inr (a, b, c)"
| "as_int3 _ = Inl ValueError"

fun as_int5 :: "pyval list \<Rightarrow> exn + int \<times> int \<times> int \<times> int \<times> int" where
  "as_int5 [PInt a, PInt b, PInt c, PInt d, PInt e] = Inr (a, b, c, d, e)"
| "as_int5 _ = Inl ValueError"

definition unpack1 :: "string \<Rightarrow> bytes \<Rightarrow> exn + int" where
  "unpack1 fmt bs = bind_sum (struct_unpack fmt bs) as_int1"

definition unpack2 :: "string \<Rightarrow> bytes \<Rightarrow> exn + int \<times> int" where
  "unpack2 fmt bs = bind_sum (struct_unpack fmt bs) as_int2"

definition unpack3 :: "string \<Rightarrow> bytes \<Rightarrow> exn + int \<times> int \<times> int" where
  "unpack3 fmt bs = bind_sum (struct_unpack fmt bs) as_int3"

definition unpack5 :: "string \<Rightarrow> bytes \<Rightarrow> exn + int \<times> int \<times> int \<times> int \<times> int" where
  "unpack5 fmt bs = bind_sum (struct_unpack fmt bs) as_int5"

lemmas unpack_defs = unpack1_def unpack2_def unpack3_def unpack5_def struct_unpack_def
  parse_format_def item_fields_def digit_value_def

lemma unpack_B [wire]:
  "unpack1 ''!B'' bs = (if length bs = 1 then Inr (from_be bs) else Inl StructError)"
  by (simp add: unpack_defs)

lemma unpack_I [wire]:
  "unpack1 ''!I'' bs = (if length bs = 4 then Inr (from_be bs) else Inl StructError)"
  by (simp add: unpack_defs)

lemma unpack_L [wire]:
  "unpack1 ''!L'' bs = (if length bs = 4 then Inr (from_be bs) else Inl StructError)"
  by (simp add: unpack_defs)

lemma unpack_H [wire]:
  "unpack1 ''!H'' bs = (if length bs = 2 then Inr (from_be bs) else Inl StructError)"
  by (simp add: unpack_defs)

lemma unpack_xH [wire]:
  "unpack1 ''!xH'' bs = (if length bs = 3 then Inr (from_be (drop 1 bs)) else Inl StructError)"
  by (simp add: unpack_defs)

lemma unpack_xxxI [wire]:
  "unpack1 ''!xxxI'' bs = (if length bs = 7 then Inr (from_be (drop 3 bs)) else Inl StructError)"
  by (simp add: unpack_defs numeral_3_eq_3)

lemma unpack_HH [wire]:
  "unpack2 ''!HH'' bs =
     (if length bs = 4 then Inr (from_be (take 2 bs), from_be (drop 2 bs)) else Inl StructError)"
  by (simp add: unpack_defs)

lemma unpack_xHH [wire]:
  "unpack2 ''!xHH'' bs = (if length bs = 5
     then Inr (from_be (take 2 (drop 1 bs)), from_be (drop 3 bs)) else Inl StructError)"
  by (simp add: unpack_defs)

lemma unpack_HHHHi [wire]:
  "unpack5 ''!HHHHi'' bs = (if length bs = 12
     then Inr (from_be (take 2 bs), from_be (take 2 (drop 2 bs)), from_be (take 2 (drop 4 bs)),
               from_be (take 2 (drop 6 bs)), signed_value 4 (from_be (drop 8 bs)))
     else Inl StructError)"
  by (simp add: unpack_defs)

section \<open>Decimal numbers in format strings\<close>

text \<open>\<open>f"{n}"\<close> for a number that is not negative, and its reading back by \<open>struct\<close>.\<close>

fun show_nat :: "nat \<Rightarrow> string" where
  "show_nat n = (if n < 10 then [char_of (48 + n)]
                 else show_nat (n div 10) @ [char_of (48 + n mod 10)])"

declare show_nat.simps [simp del]

lemma digit_value_digit [simp]: "d < 10 \<Longrightarrow> digit_value (char_of (48 + d)) = Some d"
  by (simp add: digit_value_def of_char_of)

lemma parse_items_show_nat:
  "parse_items None (show_nat n @ c # cs) = parse_items (Some n) (c # cs)"
proof (induction n arbitrary: c cs rule: show_nat.induct)
  case (1 n)
  show ?case
  proof (cases "n < 10")
    case True
    then show ?thesis by (simp add: show_nat.simps [of n])
  next
    case False
    then have "parse_items None (show_nat n @ c # cs)
        = parse_items None (show_nat (n div 10) @ char_of (48 + n mod 10) # c # cs)"
      by (simp add: show_nat.simps [of n])
    also have "\<dots> = parse_items (Some (n div 10)) (char_of (48 + n mod 10) # c # cs)"
      using "1.IH" False by simp
    also have "\<dots> = parse_items (Some n) (c # cs)" by simp
    finally show ?thesis .
  qed
qed

lemma parse_counted_format:
  "parse_format (CHR ''!'' # show_nat n @ ''sHHHH'') =
     Inr [SBytes n, SInt False 2, SInt False 2, SInt False 2, SInt False 2]"
  "parse_format (CHR ''!'' # show_nat n @ ''B'') = Inr (replicate n (SInt False 1))"
  by (simp_all add: parse_format_def parse_items_show_nat)
    (simp_all add: digit_value_def item_fields_def)

end
