(* ===== verification/Const_Tables.thy ===== *)
theory Const_Tables
  imports Struct_Codec
begin

text \<open>
  \<open>vncdotool/const.py\<close>: the protocol numbers and the \<open>lookup\<close> of an enumeration
  member by value. Each enumeration is the table of its members in source order, and the
  numbers the protocol code compares against are the abbreviations below, which
  \<open>named_members\<close> ties to the tables.
\<close>

section \<open>Enumerations\<close>

text \<open>\<open>IntEnumLookup.lookup\<close>: the member with that value, or a placeholder.\<close>

datatype looked_up = Member string | Unknown int

definition enum_lookup :: "(string \<times> int) list \<Rightarrow> int \<Rightarrow> looked_up" where
  "enum_lookup members v =
     (case map_of (map (\<lambda>(n, w). (w, n)) members) v of Some n \<Rightarrow> Member n | None \<Rightarrow> Unknown v)"

text \<open>\<open>Encoding.s32\<close>: encoding numbers are signed on the wire but listed unsigned.\<close>

definition s32 :: "int \<Rightarrow> int" where
  "s32 value = (if value \<ge> 0x80000000 then value - 0x100000000 else value)"

definition Encoding_literals :: "(string \<times> int) list" where
  "Encoding_literals = [
    (''RAW'', 0), (''COPY_RECTANGLE'', 1), (''RRE'', 2),
    (''CORRE'', 4), (''HEXTILE'', 5), (''ZLIB'', 6),
    (''TIGHT'', 7), (''ZLIBHEX'', 8), (''ULTRA'', 9),
    (''ULTRA2'', 10), (''TRLE'', 15), (''ZRLE'', 16),
    (''HITACHI_ZYWRLE'', 17), (''H264'', 20), (''JPEG'', 21),
    (''JRLE'', 22), (''OPEN_H264'', 50), (''APPLE_1000'', 1000),
    (''APPLE_1001'', 1001), (''APPLE_1002'', 1002), (''APPLE_1011'', 1011),
    (''REAL_1024'', 1024), (''APPLE_1100'', 1100), (''APPLE_1101'', 1101),
    (''APPLE_1102'', 1102), (''APPLE_1103'', 1103), (''APPLE_1104'', 1104),
    (''APPLE_1105'', 1105), (''TIGHT_1'', -1), (''JPEG_23'', -23),
    (''JPEG_24'', -24), (''JPEG_25'', -25), (''JPEG_26'', -26),
    (''JPEG_27'', -27), (''JPEG_28'', -28), (''JPEG_29'', -29),
    (''JPEG_30'', -30), (''JPEG_31'', -31), (''JPEG_32'', -32),
    (''TIGHT_33'', -33), (''LIBVNCSERVER_219'', -219), (''LIBVNCSERVER_220'', -220),
    (''LIBVNCSERVER_221'', -221), (''LIBVNCSERVER_222'', -222), (''PSEUDO_DESKTOP_SIZE'', -223),
    (''PSEUDO_LAST_RECT'', -224), (''POINTER_POS'', -225), (''TIGHT_226'', -226),
    (''PSEUDO_CURSOR'', -239), (''PSEUDO_X_CURSOR'', -240), (''TIGHT_241'', -241),
    (''PSEUDO_COMPRESSION_LEVEL_247'', -247), (''PSEUDO_COMPRESSION_LEVEL_248'', -248), (''PSEUDO_COMPRESSION_LEVEL_249'', -249),
    (''PSEUDO_COMPRESSION_LEVEL_250'', -250), (''PSEUDO_COMPRESSION_LEVEL_251'', -251), (''PSEUDO_COMPRESSION_LEVEL_252'', -252),
    (''PSEUDO_COMPRESSION_LEVEL_253'', -253), (''PSEUDO_COMPRESSION_LEVEL_254'', -254), (''PSEUDO_COMPRESSION_LEVEL_255'', -255),
    (''PSEUDO_COMPRESSION_LEVEL_256'', -256), (''PSEUDO_QEMU_POINTER_MODTION_CHANGE'', -257), (''PSEUDO_QEMU_EXTENDED_KEY_EVENT'', -258),
    (''PSEUDO_QEMU_AUDIO'', -259), (''TIGHT_PNG'', -260), (''PSEUDO_QEMU_LED_STATE'', -261),
    (''QEMU_262'', -262), (''VMWARE_273'', -273), (''PSEUDO_GII'', -305),
    (''POPA'', -306), (''PSEUDO_DESKTOP_NAME'', -307), (''PSEUDO_EXTENDED_DESKTOP_SIZE'', -308),
    (''PSEUDO_XVO'', -309), (''OLIVE_CALL_CONTROL'', -310), (''CLIENT_REDIRECT'', -311),
    (''PSEUDO_FENCE'', -312), (''PSEUDO_CONTINUOUS_UPDATES'', -313), (''PSEUDO_CURSOR_WITH_ALPHA'', -314),
    (''PSEUDO_JPEG_FINE_GRAINED_QUALITY_LEVEL'', -412), (''CAR_CONNECTIVITY_523'', -523), (''PSEUDO_JPEG_SUBSAMLING_LEVEL'', -763),
    (''VA_H264'', 1211250228), (''VMWARE_0X574D5600'', 1464686080), (''PSEUDO_VMWARE_CURSOR'', 1464686180),
    (''PSEUDO_VMWARE_CURSOR_STATE'', 1464686181), (''PSEUDO_VMWARE_CURSOR_POSITION'', 1464686182), (''PSEUDO_VMWARE_KEY_REPEAT'', 1464686183),
    (''PSEUDO_VMWARE_LED_STATE'', 1464686184), (''PSEUDO_VMWARE_DISPLAY_MODE_CHANGE'', 1464686185), (''PSEUDO_VMWARE_VIRTUAL_MACHINE_STATE'', 1464686186),
    (''PSEUDO_EXTENDED_CLIPBOARD'', 3231835598), (''PLUGIN_STREAMING'', 3231835599), (''KEYBOARD_LED_STATE'', 4294836224),
    (''SUPPORTED_MESSAGES'', 4294836225), (''SUPPORTED_ENCODINGS'', 4294836226), (''SERVER_IDENTITY'', 4294836227),
    (''LIBVNCSERVER_0XFFFE0004'', 4294836228), (''CACHE'', 4294901760), (''CACHE_ENABLE'', 4294901761),
    (''XOR_ZLIB'', 4294901762), (''XOR_MONO_RECT_ZLIB'', 4294901763), (''XOR_MULTI_COLOR_ZLIB'', 4294901764),
    (''SOLID_COLOR'', 4294901765), (''XOR_ENABLE'', 4294901766), (''CACHE_ZIP'', 4294901767),
    (''SOL_MONO_ZIP'', 4294901768), (''ULTRA_ZIP'', 4294901769), (''SERVER_STATE'', 4294934528),
    (''ENABLE_KEEP_ALIVE'', 4294934529), (''FTP_PROTOCOl_VERSION'', 4294934530), (''SESSION'', 4294934531)]"

definition Encoding_members :: "(string \<times> int) list" where
  "Encoding_members = map (\<lambda>(n, v). (n, s32 v)) Encoding_literals"

definition Encoding_lookup :: "int \<Rightarrow> looked_up" where
  "Encoding_lookup value = enum_lookup Encoding_members (s32 value)"

definition HextileEncoding_members :: "(string \<times> int) list" where
  "HextileEncoding_members = [
    (''RAW'', 1), (''BACKGROUND_SPECIFIED'', 2), (''FOREGROUND_SPECIFIED'', 4),
    (''ANY_SUBRECTS'', 8), (''SUBRECTS_COLORED'', 16)]"

definition AuthTypes_members :: "(string \<times> int) list" where
  "AuthTypes_members = [
    (''INVALID'', 0), (''NONE'', 1), (''VNC_AUTHENTICATION'', 2),
    (''REALVNC_3'', 3), (''REALVNC_4'', 4), (''RSA_AES'', 5),
    (''RSA_AES_UNENCRYPTED'', 6), (''REALVNC_7'', 7), (''REALVNC_8'', 8),
    (''REALVNC_9'', 9), (''REALVNC_10'', 10), (''REALVNC_11'', 11),
    (''REALVNC_12'', 12), (''RSA_AES_2STEP'', 13), (''REALVNC_14'', 14),
    (''REALVNC_15'', 15), (''TIGHT'', 16), (''ULTRA'', 17),
    (''TLS'', 18), (''VENCRYPT'', 19), (''SASL'', 20),
    (''MD5'', 21), (''XVP'', 22), (''SECURE_TUNNEL'', 23),
    (''INTEGRATED_SSH'', 24), (''DIFFIE_HELLMAN'', 30), (''APPLE_31'', 31),
    (''APPLE_32'', 32), (''APPLE_33'', 33), (''APPLE_34'', 34),
    (''APPLE_35'', 35), (''MSLOGON2'', 113), (''REALVNC_128'', 128),
    (''RSA_AES256'', 129), (''RSA_AES256_UNENCRYPTED'', 130), (''REALVNC_131'', 131),
    (''REALVNC_132'', 132), (''RSA_AES256_2STEP'', 133), (''REALVNC_134'', 134),
    (''REALVNC_192'', 192)]"

definition MsgS2C_members :: "(string \<times> int) list" where
  "MsgS2C_members = [
    (''FRAMEBUFFER_UPDATE'', 0), (''SET_COLOUR_MAP_ENTRIES'', 1), (''BELL'', 2),
    (''SERVER_CUT_TEXT'', 3), (''RESIZE_FRAME_BUFFER_4'', 4), (''KEY_FRAME_UPDATE'', 5),
    (''ULTRA_6'', 6), (''FILE_TRANSFER'', 7), (''ULTRA_8'', 8),
    (''ULTRA_9'', 9), (''ULTRA_10'', 10), (''TEXT_CHAT'', 11),
    (''ULTRA_12'', 12), (''KEEP_ALIVE'', 13), (''ULTRA_14'', 14),
    (''RESIZE_FRAME_BUFFER_15'', 15), (''VMWARE_127'', 127), (''CAR_CONNECTIVITY'', 128),
    (''END_OF_CONTINUOUS_UPDATES'', 150), (''SERVER_STATE'', 173), (''SERVER_FENCE'', 248),
    (''OLIVE_CALL_CONTROL'', 249), (''XVP_SERVER_MESSAGE'', 250), (''TIGHT'', 252),
    (''GII_SERVER_MESSAGE'', 253), (''VMWARE_254'', 254), (''QEMU_SERVER_MESSAGE'', 255)]"

definition MsgC2S_members :: "(string \<times> int) list" where
  "MsgC2S_members = [
    (''SET_PIXEL_FORMAT'', 0), (''SET_ENCODING'', 2), (''FRAMEBUFFER_UPDATE_REQUEST'', 3),
    (''KEY_EVENT'', 4), (''POINTER_EVENT'', 5), (''CLIENT_CUT_TEXT'', 6),
    (''FILE_TRANSFER'', 7), (''SET_SCALE'', 8), (''SET_SERVER_INPUT'', 9),
    (''SET_SW'', 10), (''TEXT_CHAT'', 11), (''KEY_FRAME_REquest'', 12),
    (''KEEP_ALIVE'', 13), (''ULTRA_14'', 14), (''SET_SCALE_FACTOR'', 15),
    (''ULTRA_16'', 16), (''ULTRA_17'', 17), (''ULTRA_18'', 18),
    (''ULTRA_19'', 19), (''REQUEST_SESSION'', 20), (''SET_SESSION'', 21),
    (''NOTIFY_PLUGIN_STREAMING'', 80), (''VMWARE_127'', 127), (''CAR_CONNECTIVITY'', 128),
    (''ENABLE_CONTINUOUS_UPDATES'', 150), (''CLIENT_FENCE'', 248), (''OLIVE_CALL_CONTROL'', 249),
    (''XVP_CLIENT_MESSAGE'', 250), (''SET_DESKTOP_SIZE'', 251), (''TIGHT'', 252),
    (''GII_CLIENT_MESSAGE'', 253), (''VMWARE_254'', 254), (''QEMU_CLIENT_MESSAGE'', 255)]"

definition QemuClientMessage_members :: "(string \<times> int) list" where
  "QemuClientMessage_members = [
    (''EXTENDED_KEY_EVENT'', 0), (''AUDIO'', 1)]"

section \<open>The numbers the protocol code names\<close>

abbreviation (input) ENC_RAW :: int where
  "ENC_RAW \<equiv> 0"

abbreviation (input) ENC_COPY_RECTANGLE :: int where
  "ENC_COPY_RECTANGLE \<equiv> 1"

abbreviation (input) ENC_RRE :: int where
  "ENC_RRE \<equiv> 2"

abbreviation (input) ENC_CORRE :: int where
  "ENC_CORRE \<equiv> 4"

abbreviation (input) ENC_HEXTILE :: int where
  "ENC_HEXTILE \<equiv> 5"

abbreviation (input) ENC_ZRLE :: int where
  "ENC_ZRLE \<equiv> 16"

abbreviation (input) ENC_PSEUDO_CURSOR :: int where
  "ENC_PSEUDO_CURSOR \<equiv> - 239"

abbreviation (input) ENC_PSEUDO_DESKTOP_SIZE :: int where
  "ENC_PSEUDO_DESKTOP_SIZE \<equiv> - 223"

abbreviation (input) ENC_PSEUDO_LAST_RECT :: int where
  "ENC_PSEUDO_LAST_RECT \<equiv> - 224"

abbreviation (input) ENC_PSEUDO_QEMU_EXTENDED_KEY_EVENT :: int where
  "ENC_PSEUDO_QEMU_EXTENDED_KEY_EVENT \<equiv> - 258"

abbreviation (input) AUTH_INVALID :: int where
  "AUTH_INVALID \<equiv> 0"

abbreviation (input) AUTH_NONE :: int where
  "AUTH_NONE \<equiv> 1"

abbreviation (input) AUTH_VNC_AUTHENTICATION :: int where
  "AUTH_VNC_AUTHENTICATION \<equiv> 2"

abbreviation (input) AUTH_DIFFIE_HELLMAN :: int where
  "AUTH_DIFFIE_HELLMAN \<equiv> 30"

abbreviation (input) S2C_FRAMEBUFFER_UPDATE :: int where
  "S2C_FRAMEBUFFER_UPDATE \<equiv> 0"

abbreviation (input) S2C_SET_COLOUR_MAP_ENTRIES :: int where
  "S2C_SET_COLOUR_MAP_ENTRIES \<equiv> 1"

abbreviation (input) S2C_BELL :: int where
  "S2C_BELL \<equiv> 2"

abbreviation (input) S2C_SERVER_CUT_TEXT :: int where
  "S2C_SERVER_CUT_TEXT \<equiv> 3"

abbreviation (input) C2S_SET_PIXEL_FORMAT :: int where
  "C2S_SET_PIXEL_FORMAT \<equiv> 0"

abbreviation (input) C2S_SET_ENCODING :: int where
  "C2S_SET_ENCODING \<equiv> 2"

abbreviation (input) C2S_FRAMEBUFFER_UPDATE_REQUEST :: int where
  "C2S_FRAMEBUFFER_UPDATE_REQUEST \<equiv> 3"

abbreviation (input) C2S_KEY_EVENT :: int where
  "C2S_KEY_EVENT \<equiv> 4"

abbreviation (input) C2S_POINTER_EVENT :: int where
  "C2S_POINTER_EVENT \<equiv> 5"

abbreviation (input) C2S_CLIENT_CUT_TEXT :: int where
  "C2S_CLIENT_CUT_TEXT \<equiv> 6"

abbreviation (input) C2S_QEMU_CLIENT_MESSAGE :: int where
  "C2S_QEMU_CLIENT_MESSAGE \<equiv> 255"

lemma named_members:
  "map_of Encoding_members ''RAW'' = Some ENC_RAW"
  "map_of Encoding_members ''COPY_RECTANGLE'' = Some ENC_COPY_RECTANGLE"
  "map_of Encoding_members ''RRE'' = Some ENC_RRE"
  "map_of Encoding_members ''CORRE'' = Some ENC_CORRE"
  "map_of Encoding_members ''HEXTILE'' = Some ENC_HEXTILE"
  "map_of Encoding_members ''ZRLE'' = Some ENC_ZRLE"
  "map_of Encoding_members ''PSEUDO_CURSOR'' = Some ENC_PSEUDO_CURSOR"
  "map_of Encoding_members ''PSEUDO_DESKTOP_SIZE'' = Some ENC_PSEUDO_DESKTOP_SIZE"
  "map_of Encoding_members ''PSEUDO_LAST_RECT'' = Some ENC_PSEUDO_LAST_RECT"
  "map_of Encoding_members ''PSEUDO_QEMU_EXTENDED_KEY_EVENT'' = Some ENC_PSEUDO_QEMU_EXTENDED_KEY_EVENT"
  "map_of AuthTypes_members ''INVALID'' = Some AUTH_INVALID"
  "map_of AuthTypes_members ''NONE'' = Some AUTH_NONE"
  "map_of AuthTypes_members ''VNC_AUTHENTICATION'' = Some AUTH_VNC_AUTHENTICATION"
  "map_of AuthTypes_members ''DIFFIE_HELLMAN'' = Some AUTH_DIFFIE_HELLMAN"
  "map_of MsgS2C_members ''FRAMEBUFFER_UPDATE'' = Some S2C_FRAMEBUFFER_UPDATE"
  "map_of MsgS2C_members ''SET_COLOUR_MAP_ENTRIES'' = Some S2C_SET_COLOUR_MAP_ENTRIES"
  "map_of MsgS2C_members ''BELL'' = Some S2C_BELL"
  "map_of MsgS2C_members ''SERVER_CUT_TEXT'' = Some S2C_SERVER_CUT_TEXT"
  "map_of MsgC2S_members ''SET_PIXEL_FORMAT'' = Some C2S_SET_PIXEL_FORMAT"
  "map_of MsgC2S_members ''SET_ENCODING'' = Some C2S_SET_ENCODING"
  "map_of MsgC2S_members ''FRAMEBUFFER_UPDATE_REQUEST'' = Some C2S_FRAMEBUFFER_UPDATE_REQUEST"
  "map_of MsgC2S_members ''KEY_EVENT'' = Some C2S_KEY_EVENT"
  "map_of MsgC2S_members ''POINTER_EVENT'' = Some C2S_POINTER_EVENT"
  "map_of MsgC2S_members ''CLIENT_CUT_TEXT'' = Some C2S_CLIENT_CUT_TEXT"
  "map_of MsgC2S_members ''QEMU_CLIENT_MESSAGE'' = Some C2S_QEMU_CLIENT_MESSAGE"
  by code_simp+

section \<open>Facts\<close>

lemma s32_idem [simp]: "value < 0x100000000 \<Longrightarrow> s32 (s32 value) = s32 value"
  by (simp add: s32_def)

lemma s32_range: "- 0x80000000 \<le> value \<Longrightarrow> value < 0x100000000 \<Longrightarrow>
    - 0x80000000 \<le> s32 value \<and> s32 value < 0x80000000"
  by (simp add: s32_def)

lemma s32_signed_value: "0 \<le> value \<Longrightarrow> s32 value = signed_value 4 value"
  by (simp add: s32_def signed_value_def)

lemma distinct_swap_map_of:
  "distinct (map snd members) \<Longrightarrow> (n, v) \<in> set members \<Longrightarrow>
     map_of (map (\<lambda>(n, w). (w, n)) members) v = Some n"
  by (rule map_of_is_SomeI) (force simp: comp_def case_prod_unfold)+

lemma enum_lookup_member:
  "distinct (map snd members) \<Longrightarrow> (n, v) \<in> set members \<Longrightarrow> enum_lookup members v = Member n"
  by (simp add: enum_lookup_def distinct_swap_map_of)

lemma Encoding_values_distinct: "distinct (map snd Encoding_members)"
  by code_simp

lemma Encoding_literals_u32: "list_all (\<lambda>(n, v). v < 0x100000000) Encoding_literals"
  by code_simp

end
