(* ===== verification/Pixel_Format.thy ===== *)
theory Pixel_Format
  imports Const_Tables
begin

text \<open>
  Pixel formats: the wire structure \<open>rfb.PixelFormat\<close> with its packing, and
  \<open>vncdotool/pixelformat.py\<close>, which resolves a format to a Pillow raw mode and places
  ZRLE's CPIXEL inside a pixel. The lemmas show the packing round trip, that an accepted
  raw mode names the byte each colour channel really sits in, that accepted channels never
  overlap, and that the CPIXEL bytes carry every channel.
\<close>

section \<open>\<open>rfb.PixelFormat\<close>\<close>

record PixelFormat =
  bpp :: int
  depth :: int
  bigendian :: bool
  truecolor :: bool
  redmax :: int
  greenmax :: int
  bluemax :: int
  redshift :: int
  greenshift :: int
  blueshift :: int

definition default_PixelFormat :: PixelFormat where
  "default_PixelFormat = \<lparr>bpp = 32, depth = 24, bigendian = False, truecolor = True,
     redmax = 255, greenmax = 255, bluemax = 255,
     redshift = 0, greenshift = 8, blueshift = 16\<rparr>"

definition PixelFormat_STRUCT :: string where
  "PixelFormat_STRUCT = ''!BB??HHHBBBxxx''"

fun bit_length_nat :: "nat \<Rightarrow> nat" where
  "bit_length_nat n = (if n = 0 then 0 else Suc (bit_length_nat (n div 2)))"

declare bit_length_nat.simps [simp del]

definition bit_length :: "int \<Rightarrow> int" where
  "bit_length v = int (bit_length_nat (nat \<bar>v\<bar>))"

text \<open>The assertions of \<open>__post_init__\<close>, which run when \<open>VALIDATE\<close> is set.\<close>

definition channel_ok :: "int \<Rightarrow> int \<Rightarrow> int \<Rightarrow> bool" where
  "channel_ok bits mx shift \<longleftrightarrow>
     1 \<le> mx \<and> mx \<le> 0xFFFF \<and> and mx (mx + 1) = 0 \<and>
     0 \<le> shift \<and> shift \<le> bits - bit_length mx"

definition post_init_ok :: "PixelFormat \<Rightarrow> bool" where
  "post_init_ok pf \<longleftrightarrow>
     bpp pf \<in> {8, 16, 24, 32} \<and> 1 \<le> depth pf \<and> depth pf \<le> bpp pf \<and>
     (truecolor pf \<longrightarrow>
        channel_ok (bpp pf) (redmax pf) (redshift pf) \<and>
        channel_ok (bpp pf) (greenmax pf) (greenshift pf) \<and>
        channel_ok (bpp pf) (bluemax pf) (blueshift pf))"

definition pf_bypp :: "PixelFormat \<Rightarrow> int" where
  "pf_bypp pf = (7 + bpp pf) div 8"

definition astuple :: "PixelFormat \<Rightarrow> pyval list" where
  "astuple pf = [PInt (bpp pf), PInt (depth pf), PBool (bigendian pf), PBool (truecolor pf),
     PInt (redmax pf), PInt (greenmax pf), PInt (bluemax pf),
     PInt (redshift pf), PInt (greenshift pf), PInt (blueshift pf)]"

definition to_bytes :: "PixelFormat \<Rightarrow> exn + bytes" where
  "to_bytes pf = struct_pack PixelFormat_STRUCT (astuple pf)"

text \<open>\<open>cls(*values)\<close>: ten positional arguments, or a \<open>TypeError\<close>.\<close>

definition pixel_format_of :: "pyval list \<Rightarrow> exn + PixelFormat" where
  "pixel_format_of vs =
     (if list_all2 (\<lambda>kind v. kind v)
           [is_PInt, is_PInt, is_PBool, is_PBool, is_PInt, is_PInt, is_PInt, is_PInt, is_PInt, is_PInt]
           vs
      then Inr \<lparr>bpp = pint (vs ! 0), depth = pint (vs ! 1), bigendian = pbool (vs ! 2),
             truecolor = pbool (vs ! 3), redmax = pint (vs ! 4), greenmax = pint (vs ! 5),
             bluemax = pint (vs ! 6), redshift = pint (vs ! 7), greenshift = pint (vs ! 8),
             blueshift = pint (vs ! 9)\<rparr>
      else Inl TypeError)"

definition from_bytes :: "bytes \<Rightarrow> exn + PixelFormat" where
  "from_bytes block = bind_sum (struct_unpack PixelFormat_STRUCT block) pixel_format_of"

section \<open>\<open>pixelformat.py\<close>\<close>

definition MODES_32BPP :: "string list" where
  "MODES_32BPP = [''RGBX'', ''BGRX'', ''XRGB'', ''XBGR'']"

definition MODES_24BPP :: "string list" where
  "MODES_24BPP = [''RGB'', ''BGR'']"

definition channel_widths :: "PixelFormat \<Rightarrow> int \<times> int \<times> int" where
  "channel_widths pf = (bit_length (redmax pf), bit_length (greenmax pf), bit_length (bluemax pf))"

definition channel_shifts :: "PixelFormat \<Rightarrow> int \<times> int \<times> int" where
  "channel_shifts pf = (redshift pf, greenshift pf, blueshift pf)"

text \<open>The loop of \<open>_byte_positions\<close>; the dictionary is an association list.\<close>

fun add_positions ::
  "bool \<Rightarrow> int \<Rightarrow> (int \<times> char) list \<Rightarrow> (int \<times> char) list \<Rightarrow> exn + (int \<times> char) list" where
  "add_positions be nbytes positions [] = Inr positions"
| "add_positions be nbytes positions ((shift, channel) # rest) =
     (if shift mod 8 \<noteq> 0 then Inl UnsupportedPixelFormat
      else let pos0 = shift div 8;
               pos = (if \<not> be then pos0 else nbytes - 1 - pos0)
           in if pos \<in> fst ` set positions then Inl UnsupportedPixelFormat
              else add_positions be nbytes ((pos, channel) # positions) rest)"

definition byte_positions :: "PixelFormat \<Rightarrow> int \<Rightarrow> exn + (int \<times> char) list" where
  "byte_positions pf nbytes = add_positions (bigendian pf) nbytes []
     [(redshift pf, CHR ''R''), (greenshift pf, CHR ''G''), (blueshift pf, CHR ''B'')]"

definition mode_string :: "(int \<times> char) list \<Rightarrow> int list \<Rightarrow> string" where
  "mode_string positions idx =
     map (\<lambda>i. case map_of positions i of Some c \<Rightarrow> c | None \<Rightarrow> CHR ''X'') idx"

definition MODES_16BPP :: "(((int \<times> int \<times> int) \<times> (int \<times> int \<times> int)) \<times> string) list" where
  "MODES_16BPP = [
     (((5, 6, 5), (11, 5, 0)), ''BGR;16''),
     (((5, 6, 5), (0, 5, 11)), ''RGB;16''),
     (((5, 5, 5), (10, 5, 0)), ''BGR;15''),
     (((5, 5, 5), (0, 5, 10)), ''RGB;15''),
     (((4, 4, 4), (0, 4, 8)), ''RGB;4B'')]"

definition byte_mode :: "PixelFormat \<Rightarrow> int \<Rightarrow> int list \<Rightarrow> string list \<Rightarrow> exn + string" where
  "byte_mode pf nbytes idx modes =
     (if channel_widths pf \<noteq> (8, 8, 8) then Inl UnsupportedPixelFormat
      else bind_sum (byte_positions pf nbytes) (\<lambda>positions.
        let mode = mode_string positions idx
        in if mode \<in> set modes then Inr mode else Inl UnsupportedPixelFormat))"

definition raw_mode :: "PixelFormat \<Rightarrow> exn + string" where
  "raw_mode pf =
     (if \<not> truecolor pf then Inl UnsupportedPixelFormat
      else if bpp pf = 32 then byte_mode pf 4 [0, 1, 2, 3] MODES_32BPP
      else if bpp pf = 24 then byte_mode pf 3 [0, 1, 2] MODES_24BPP
      else if bpp pf = 16 then
        (if bigendian pf then Inl UnsupportedPixelFormat
         else case map_of MODES_16BPP (channel_widths pf, channel_shifts pf) of
                Some mode \<Rightarrow> Inr mode
              | None \<Rightarrow> Inl UnsupportedPixelFormat)
      else Inl UnsupportedPixelFormat)"

datatype placement = Low | High

definition cpixel_placement :: "PixelFormat \<Rightarrow> placement option" where
  "cpixel_placement pf =
     (let (wr, wg, wb) = channel_widths pf; (sr, sg, sb) = channel_shifts pf;
          fits_low = (sr + wr \<le> 24 \<and> sg + wg \<le> 24 \<and> sb + wb \<le> 24);
          fits_high = (sr \<ge> 8 \<and> sg \<ge> 8 \<and> sb \<ge> 8)
      in if fits_low then Some Low else if fits_high then Some High else None)"

definition cpixel_bytes :: "PixelFormat \<Rightarrow> int" where
  "cpixel_bytes pf =
     (if truecolor pf \<and> bpp pf = 32 \<and> depth pf \<le> 24 \<and> cpixel_placement pf \<noteq> None
      then 3 else pf_bypp pf)"

definition cpixel_offset :: "PixelFormat \<Rightarrow> int" where
  "cpixel_offset pf =
     (if cpixel_bytes pf \<noteq> 3 then 0
      else let low = (cpixel_placement pf = Some Low)
           in if low \<noteq> bigendian pf then 0 else pf_bypp pf - 3)"

definition PIXEL_FORMATS :: "(string \<times> PixelFormat) list" where
  "PIXEL_FORMATS = [
     (''bgrx8888'', \<lparr>bpp = 32, depth = 24, bigendian = False, truecolor = True, redmax = 255,
        greenmax = 255, bluemax = 255, redshift = 16, greenshift = 8, blueshift = 0\<rparr>),
     (''rgbx8888'', \<lparr>bpp = 32, depth = 24, bigendian = False, truecolor = True, redmax = 255,
        greenmax = 255, bluemax = 255, redshift = 0, greenshift = 8, blueshift = 16\<rparr>),
     (''rgb565'', \<lparr>bpp = 16, depth = 16, bigendian = False, truecolor = True, redmax = 31,
        greenmax = 63, bluemax = 31, redshift = 11, greenshift = 5, blueshift = 0\<rparr>)]"

section \<open>Packing\<close>

lemma parse_PixelFormat_STRUCT:
  "parse_format PixelFormat_STRUCT = Inr [SInt False 1, SInt False 1, SBool, SBool,
     SInt False 2, SInt False 2, SInt False 2, SInt False 1, SInt False 1, SInt False 1,
     SPad, SPad, SPad]"
  by (simp add: PixelFormat_STRUCT_def parse_format_def digit_value_def item_fields_def)

lemma pixel_format_of_astuple [simp]: "pixel_format_of (astuple pf) = Inr pf"
  by (simp add: astuple_def pixel_format_of_def)

lemma to_from_bytes:
  assumes "to_bytes pf = Inr bs"
  shows "from_bytes bs = Inr pf" "length bs = 16"
  using struct_round_trip [OF assms [unfolded to_bytes_def] parse_PixelFormat_STRUCT]
  by (simp_all add: from_bytes_def astuple_def pixel_format_of_def)

definition in_u8 :: "int \<Rightarrow> bool" where
  "in_u8 v \<longleftrightarrow> 0 \<le> v \<and> v < 256"

definition in_u16 :: "int \<Rightarrow> bool" where
  "in_u16 v \<longleftrightarrow> 0 \<le> v \<and> v < 65536"

definition wire_format :: "PixelFormat \<Rightarrow> bool" where
  "wire_format pf \<longleftrightarrow> in_u8 (bpp pf) \<and> in_u8 (depth pf) \<and>
     in_u16 (redmax pf) \<and> in_u16 (greenmax pf) \<and> in_u16 (bluemax pf) \<and>
     in_u8 (redshift pf) \<and> in_u8 (greenshift pf) \<and> in_u8 (blueshift pf)"

lemma to_bytes_iff: "(\<exists>bs. to_bytes pf = Inr bs) \<longleftrightarrow> wire_format pf"
  by (auto simp: to_bytes_def struct_pack_def parse_PixelFormat_STRUCT astuple_def
      wire_format_def in_u8_def in_u16_def bind_sum_Inr_iff pack_int_def)

lemma from_bytes_total:
  assumes "length bs = 16"
  shows "\<exists>pf. from_bytes bs = Inr pf \<and> wire_format pf"
proof -
  have u8: "0 \<le> from_be (take 1 xs) \<and> from_be (take 1 xs) < 256" for xs :: bytes
    using from_be_less [of "take 1 xs"] by (cases xs) auto
  have u16: "0 \<le> from_be (take 2 xs) \<and> from_be (take 2 xs) < 65536" for xs :: bytes
  proof -
    have "(256 :: int) ^ length (take 2 xs) \<le> 256 ^ 2" by (rule power_increasing) auto
    with from_be_less [of "take 2 xs"] show ?thesis by simp
  qed
  from assms show ?thesis
    by (simp add: from_bytes_def pixel_format_of_def struct_unpack_def parse_PixelFormat_STRUCT wire_format_def
        in_u8_def in_u16_def u8 [simplified] u16)
qed

section \<open>What the bytes of a pixel mean\<close>

text \<open>
  RFC 6143 section 7.4: a pixel is a number in the format's byte order, and a channel is
  that number shifted right and masked with the channel's maximum. For a maximum of the form
  \<open>2 ^ n - 1\<close>, as the RFC requires, the mask is the remainder modulo \<open>max + 1\<close>.
\<close>

definition pixel_value :: "PixelFormat \<Rightarrow> bytes \<Rightarrow> int" where
  "pixel_value pf bs = from_be (if bigendian pf then bs else rev bs)"

definition channel_value :: "int \<Rightarrow> int \<Rightarrow> int \<Rightarrow> int" where
  "channel_value shift mx v = (v div 2 ^ nat shift) mod (mx + 1)"

lemma from_be_digit:
  "k < length bs \<Longrightarrow> (from_be bs div 256 ^ k) mod 256 = uint (bs ! (length bs - 1 - k))"
proof (induction bs arbitrary: k rule: rev_induct)
  case Nil
  then show ?case by simp
next
  case (snoc b bs)
  show ?case
  proof (cases k)
    case 0
    with uint_byte_bounds [of b] show ?thesis by (simp add: nth_append)
  next
    case (Suc j)
    with snoc.prems have j: "j < length bs" by simp
    have "(from_be bs * 256 + uint b) div 256 ^ Suc j = from_be bs div 256 ^ j"
      using uint_byte_bounds [of b] by (simp add: zdiv_zmult2_eq)
    moreover have "length bs - Suc j < length bs" using j by simp
    ultimately show ?thesis using snoc.IH [OF j] Suc by (simp add: nth_append)
  qed
qed

lemma pixel_byte:
  assumes "i < length bs"
  shows "uint (bs ! i) =
    channel_value (8 * int (if bigendian pf then length bs - 1 - i else i)) 255 (pixel_value pf bs)"
proof -
  define k where "k = (if bigendian pf then length bs - 1 - i else i)"
  have pow: "(2 :: int) ^ nat (8 * int k) = 256 ^ k"
    by (simp add: nat_mult_distrib power_mult)
  have "(pixel_value pf bs div 256 ^ k) mod 256 = uint (bs ! i)"
    using assms from_be_digit [of k bs] from_be_digit [of k "rev bs"]
    by (auto simp: k_def pixel_value_def rev_nth)
  then show ?thesis by (simp add: channel_value_def pow flip: k_def)
qed

section \<open>Raw modes\<close>

definition channel_list :: "PixelFormat \<Rightarrow> (char \<times> int) list" where
  "channel_list pf =
     [(CHR ''R'', redshift pf), (CHR ''G'', greenshift pf), (CHR ''B'', blueshift pf)]"

definition byte_of_shift :: "PixelFormat \<Rightarrow> int \<Rightarrow> int \<Rightarrow> int" where
  "byte_of_shift pf nbytes shift =
     (if bigendian pf then nbytes - 1 - shift div 8 else shift div 8)"

lemma byte_positions_eq:
  "byte_positions pf n =
     (if redshift pf mod 8 = 0 \<and> greenshift pf mod 8 = 0 \<and> blueshift pf mod 8 = 0 \<and>
         distinct [byte_of_shift pf n (redshift pf), byte_of_shift pf n (greenshift pf),
           byte_of_shift pf n (blueshift pf)]
      then Inr [(byte_of_shift pf n (blueshift pf), CHR ''B''),
             (byte_of_shift pf n (greenshift pf), CHR ''G''),
             (byte_of_shift pf n (redshift pf), CHR ''R'')]
      else Inl UnsupportedPixelFormat)"
proof -
  have "add_positions (bigendian pf) n ps ((shift, c) # rest) =
      (if shift mod 8 \<noteq> 0 \<or> byte_of_shift pf n shift \<in> fst ` set ps then Inl UnsupportedPixelFormat
       else add_positions (bigendian pf) n ((byte_of_shift pf n shift, c) # ps) rest)"
    for ps shift c rest
    by (simp add: byte_of_shift_def Let_def)
  then show ?thesis
    by (simp add: byte_positions_def del: add_positions.simps(2))
qed

lemma byte_positions_Inr:
  assumes "byte_positions pf n = Inr ps"
  shows "redshift pf mod 8 = 0" "greenshift pf mod 8 = 0" "blueshift pf mod 8 = 0"
    and "distinct [byte_of_shift pf n (redshift pf), byte_of_shift pf n (greenshift pf),
           byte_of_shift pf n (blueshift pf)]"
    and "ps = [(byte_of_shift pf n (blueshift pf), CHR ''B''),
           (byte_of_shift pf n (greenshift pf), CHR ''G''),
           (byte_of_shift pf n (redshift pf), CHR ''R'')]"
  using assms unfolding byte_positions_eq by (simp_all split: if_splits)

text \<open>Every accepted byte mode mentions all three channels, each at its own byte.\<close>

lemma mode_string_channel:
  assumes "byte_positions pf n = Inr ps" "i < length idx" "mode_string ps idx ! i = c"
    and "(c, shift) \<in> set (channel_list pf)"
  shows "shift mod 8 = 0 \<and> idx ! i = byte_of_shift pf n shift"
  using assms(2-) byte_positions_Inr [OF assms(1)]
  by (auto simp: mode_string_def channel_list_def split: if_splits)

lemma byte_mode_channels:
  assumes "byte_mode pf (int n) (map int [0..<n]) modes = Inr mode"
    and "\<forall>m \<in> set modes. CHR ''R'' \<in> set m \<and> CHR ''G'' \<in> set m \<and> CHR ''B'' \<in> set m"
    and "(c, shift) \<in> set (channel_list pf)"
  shows "\<exists>i < n. length mode = n \<and> mode ! i = c \<and> shift mod 8 = 0 \<and>
           int i = byte_of_shift pf (int n) shift"
proof -
  from assms(1) obtain ps where ps: "byte_positions pf (int n) = Inr ps"
    and mode: "mode = mode_string ps (map int [0..<n])" and "mode \<in> set modes"
    by (auto simp: byte_mode_def bind_sum_Inr_iff Let_def split: if_splits)
  with assms(2,3) have "c \<in> set mode" by (auto simp: channel_list_def)
  then obtain i where i: "i < length mode" "mode ! i = c" by (auto simp: in_set_conv_nth)
  have len: "length mode = n" by (simp add: mode mode_string_def)
  with i mode_string_channel [OF ps _ _ assms(3), of i "map int [0..<n]"] show ?thesis
    by (auto simp: mode)
qed

lemma byte_channel_value:
  assumes "byte_of_shift pf (int (length bs)) shift = int i" "i < length bs" "shift mod 8 = 0"
  shows "uint (bs ! i) = channel_value shift 255 (pixel_value pf bs)"
proof -
  have "shift = 8 * (shift div 8)" using assms(3) by auto
  with assms(1,2) have "shift = 8 * int (if bigendian pf then length bs - 1 - i else i)"
    by (auto simp: byte_of_shift_def split: if_splits)
  with pixel_byte [OF assms(2), of pf] show ?thesis by simp
qed

lemma raw_mode_byte_mode:
  assumes "raw_mode pf = Inr mode" "bpp pf = 32 \<or> bpp pf = 24"
  obtains n modes where "byte_mode pf (int n) (map int [0..<n]) modes = Inr mode"
    "bpp pf = 8 * int n"
    "\<forall>m \<in> set modes. CHR ''R'' \<in> set m \<and> CHR ''G'' \<in> set m \<and> CHR ''B'' \<in> set m"
proof -
  have idx: "map int [0..<4] = [0, 1, 2, 3]" "map int [0..<3] = [0, 1, 2]" by (simp_all add: upt_rec)
  show ?thesis
  proof (cases "bpp pf = 32")
    case True
    with assms idx have "byte_mode pf (int 4) (map int [0..<4]) MODES_32BPP = Inr mode"
      by (simp add: raw_mode_def split: if_splits)
    with True show ?thesis by (intro that [of 4 MODES_32BPP]) (simp_all add: MODES_32BPP_def)
  next
    case False
    with assms idx have "byte_mode pf (int 3) (map int [0..<3]) MODES_24BPP = Inr mode"
      by (simp add: raw_mode_def split: if_splits)
    with False assms(2) show ?thesis by (intro that [of 3 MODES_24BPP]) (simp_all add: MODES_24BPP_def)
  qed
qed

section \<open>Channels do not overlap\<close>

definition channel_bits :: "PixelFormat \<Rightarrow> int set list" where
  "channel_bits pf = (let (wr, wg, wb) = channel_widths pf; (sr, sg, sb) = channel_shifts pf
     in [{sr..<sr + wr}, {sg..<sg + wg}, {sb..<sb + wb}])"

definition separate :: "int \<Rightarrow> int set list \<Rightarrow> bool" where
  "separate n sets \<longleftrightarrow> sorted_wrt (\<lambda>a b. a \<inter> b = {}) sets \<and> (\<forall>a \<in> set sets. a \<subseteq> {0..<n})"

lemma bytes_apart:
  assumes "a mod 8 = 0" "b mod 8 = (0 :: int)" "a div 8 \<noteq> b div 8"
  shows "{a..<a + 8} \<inter> {b..<b + 8} = {}"
proof -
  have "a = 8 * (a div 8)" "b = 8 * (b div 8)" using assms(1,2) by auto
  moreover have "a div 8 < b div 8 \<or> b div 8 < a div 8" using assms(3) by linarith
  ultimately show ?thesis by auto
qed

lemma byte_inside:
  assumes "shift mod 8 = 0" "byte_of_shift pf (int n) shift = int i" "i < n"
  shows "{shift..<shift + 8} \<subseteq> {0..<8 * int n}"
proof -
  have "shift = 8 * (shift div 8)" using assms(1) by auto
  moreover have "0 \<le> shift div 8" "shift div 8 < int n"
    using assms(2,3) by (auto simp: byte_of_shift_def split: if_splits)
  ultimately show ?thesis by auto
qed

lemma byte_mode_separate:
  assumes m: "byte_mode pf (int n) (map int [0..<n]) modes = Inr mode"
    and "\<forall>m \<in> set modes. CHR ''R'' \<in> set m \<and> CHR ''G'' \<in> set m \<and> CHR ''B'' \<in> set m"
  shows "separate (8 * int n) (channel_bits pf)"
proof -
  from m obtain ps where ps: "byte_positions pf (int n) = Inr ps"
    and w: "channel_widths pf = (8, 8, 8)"
    by (auto simp: byte_mode_def bind_sum_Inr_iff split: if_splits)
  have inside: "{shift..<shift + 8} \<subseteq> {0..<8 * int n}" if "(c, shift) \<in> set (channel_list pf)" for c shift
    using byte_mode_channels [OF assms that] byte_inside by metis
  note apart = bytes_apart [OF byte_positions_Inr(1) [OF ps] byte_positions_Inr(2) [OF ps]]
    bytes_apart [OF byte_positions_Inr(1) [OF ps] byte_positions_Inr(3) [OF ps]]
    bytes_apart [OF byte_positions_Inr(2) [OF ps] byte_positions_Inr(3) [OF ps]]
  have "redshift pf div 8 \<noteq> greenshift pf div 8" "redshift pf div 8 \<noteq> blueshift pf div 8"
    "greenshift pf div 8 \<noteq> blueshift pf div 8"
    using byte_positions_Inr(4) [OF ps] by (auto simp: byte_of_shift_def split: if_splits)
  with apart inside [of "CHR ''R''"] inside [of "CHR ''G''"] inside [of "CHR ''B''"] show ?thesis
    by (simp add: separate_def channel_bits_def w channel_shifts_def channel_list_def)
qed

lemma raw_mode_16_separate:
  assumes "raw_mode pf = Inr mode" "bpp pf = 16"
  shows "separate 16 (channel_bits pf)"
proof -
  from assms have "(channel_widths pf, channel_shifts pf) \<in> fst ` set MODES_16BPP"
    by (auto simp: raw_mode_def split: if_splits option.splits dest!: map_of_SomeD intro: rev_image_eqI)
  then show ?thesis
    by (auto simp: MODES_16BPP_def separate_def channel_bits_def)
qed

section \<open>CPIXEL\<close>

lemma mod_power_channel:
  assumes "0 \<le> shift" "shift + int w \<le> 24" "(v :: int) mod 16777216 = v' mod 16777216"
  shows "channel_value shift (2 ^ w - 1) v = channel_value shift (2 ^ w - 1) v'"
proof -
  obtain k where k: "shift = int k" using assms(1) nonneg_int_cases by blast
  with assms(2) have le: "k + w \<le> 24" by simp
  have low: "(u div 2 ^ k) mod 2 ^ w = take_bit w (drop_bit k (u mod 16777216))" for u :: int
  proof -
    have "u mod 16777216 = take_bit 24 u" by (simp add: take_bit_eq_mod)
    then have "take_bit w (drop_bit k (u mod 16777216)) = take_bit w (drop_bit k u)"
      using le by (simp add: drop_bit_take_bit min_absorb1)
    then show ?thesis by (simp add: take_bit_eq_mod drop_bit_eq_div)
  qed
  show ?thesis using low [of v] low [of v'] assms(3) by (simp add: channel_value_def k)
qed

lemma div_power_channel:
  assumes "8 \<le> shift" "(v :: int) div 256 = v' div 256"
  shows "channel_value shift m v = channel_value shift m v'"
proof -
  obtain j where "nat shift = 8 + j" using assms(1) 
    by (metis le_Suc_ex nat_mono nat_numeral)
  then have "u div 2 ^ nat shift = (u div 256) div 2 ^ j" for u :: int
    by (simp add: power_add zdiv_zmult2_eq)
  with assms(2) show ?thesis by (simp add: channel_value_def)
qed

lemma from_be_4_split:
  "from_be [a, b, c, d] mod 16777216 = from_be [b, c, d]"
  "from_be [a, b, c, d] div 256 = from_be [a, b, c]"
proof -
  have "from_be [b, c, d] < 16777216" using from_be_less [of "[b, c, d]"] by simp
  moreover have "from_be [a, b, c, d] = uint a * 16777216 + from_be [b, c, d]"
    by (simp add: from_be_def)
  ultimately show "from_be [a, b, c, d] mod 16777216 = from_be [b, c, d]" by simp
  have "from_be [a, b, c, d] = from_be [a, b, c] * 256 + uint d" by (simp add: from_be_def)
  with uint_byte_bounds [of d] show "from_be [a, b, c, d] div 256 = from_be [a, b, c]" by simp
qed

lemma length_4_cases: "length xs = 4 \<Longrightarrow> \<exists>a b c d. xs = [a, b, c, d]"
  by (auto simp: numeral_eq_Suc length_Suc_conv)

text \<open>Where the three bytes sit: the low or the high three quarters of the number.\<close>

lemma cpixel_bytes_low:
  assumes "cpixel_bytes pf = 3" "bpp pf = 32" "cpixel_placement pf = Some Low" "length bs = 4"
    and "length bs' = 4"
    and "take 3 (drop (nat (cpixel_offset pf)) bs) = take 3 (drop (nat (cpixel_offset pf)) bs')"
  shows "pixel_value pf bs mod 16777216 = pixel_value pf bs' mod 16777216"
proof -
  obtain a b c d a' b' c' d' where "bs = [a, b, c, d]" "bs' = [a', b', c', d']"
    using assms(4,5) length_4_cases by metis
  with assms show ?thesis
    by (auto simp: pixel_value_def cpixel_offset_def pf_bypp_def from_be_4_split split: if_splits)
qed

lemma cpixel_bytes_high:
  assumes "cpixel_bytes pf = 3" "bpp pf = 32" "cpixel_placement pf = Some High" "length bs = 4"
    and "length bs' = 4"
    and "take 3 (drop (nat (cpixel_offset pf)) bs) = take 3 (drop (nat (cpixel_offset pf)) bs')"
  shows "pixel_value pf bs div 256 = pixel_value pf bs' div 256"
proof -
  obtain a b c d a' b' c' d' where "bs = [a, b, c, d]" "bs' = [a', b', c', d']"
    using assms(4,5) length_4_cases by metis
  with assms show ?thesis
    by (auto simp: pixel_value_def cpixel_offset_def pf_bypp_def from_be_4_split split: if_splits)
qed

definition channels :: "PixelFormat \<Rightarrow> (int \<times> int) list" where
  "channels pf = [(redshift pf, redmax pf), (greenshift pf, greenmax pf), (blueshift pf, bluemax pf)]"

lemma bit_length_nat_mask: "bit_length_nat (2 ^ w - 1) = w"
proof (induction w)
  case 0
  then show ?case by (simp add: bit_length_nat.simps)
next
  case (Suc w)
  have pos: "0 < (2 :: nat) ^ w" by simp
  then have "(2 ^ Suc w - 1) div 2 = (2 ^ w - 1 :: nat)" "2 ^ Suc w - 1 \<noteq> (0 :: nat)"
    unfolding power_Suc by linarith+
  with Suc show ?case by (subst bit_length_nat.simps) simp
qed

lemma bit_length_mask: "bit_length (2 ^ w - 1) = int w"
proof -
  have "nat \<bar>2 ^ w - 1\<bar> = 2 ^ w - 1" by (simp add: nat_diff_distrib nat_power_eq)
  then show ?thesis by (simp add: bit_length_def bit_length_nat_mask [simplified])
qed

lemma bit_length_values [simp]: "bit_length 255 = 8" "bit_length 63 = 6" "bit_length 31 = 5"
  using bit_length_mask [of 8] bit_length_mask [of 6] bit_length_mask [of 5] by simp_all

lemmas format_defs = default_PixelFormat_def PIXEL_FORMATS_def raw_mode_def byte_mode_def
  channel_widths_def channel_shifts_def byte_positions_def mode_string_def
  MODES_32BPP_def MODES_16BPP_def cpixel_placement_def cpixel_bytes_def cpixel_offset_def pf_bypp_def

section \<open>Properties\<close>

text \<open>\<open>PixelFormat.to_bytes\<close> accepts exactly the formats whose fields fit their wire
  widths, always yields the 16 bytes the protocol reserves, and \<open>PixelFormat.from_bytes\<close>
  reads the same format back.\<close>

lemma pixel_format_round_trip:
  assumes "wire_format pf"
  shows "\<exists>bs. to_bytes pf = Inr bs \<and> length bs = 16 \<and> from_bytes bs = Inr pf"
  using assms to_from_bytes to_bytes_iff by blast


text \<open>A byte-aligned raw mode that \<open>raw_mode\<close> accepts is correct: the byte at the
  position of R, G or B in the mode string is exactly that channel's value in the pixel,
  whatever the byte order.\<close>

lemma raw_mode_sound:
  assumes "raw_mode pf = Inr mode" "bpp pf = 32 \<or> bpp pf = 24"
    and "8 * int (length bs) = bpp pf" "(c, shift) \<in> set (channel_list pf)"
  shows "\<exists>i < length mode. mode ! i = c \<and>
           uint (bs ! i) = channel_value shift 255 (pixel_value pf bs)"
proof -
  obtain n modes where m: "byte_mode pf (int n) (map int [0..<n]) modes = Inr mode"
    and n: "bpp pf = 8 * int n"
    and rgb: "\<forall>m \<in> set modes. CHR ''R'' \<in> set m \<and> CHR ''G'' \<in> set m \<and> CHR ''B'' \<in> set m"
    using raw_mode_byte_mode [OF assms(1,2)] by blast
  obtain i where "i < n" "length mode = n" "mode ! i = c" "shift mod 8 = 0"
    "int i = byte_of_shift pf (int n) shift"
    using byte_mode_channels [OF m rgb assms(4)] by metis
  moreover have "length bs = n" using assms(3) n by simp
  ultimately show ?thesis using byte_channel_value [of pf bs shift i] by (intro exI [of _ i]) simp
qed


text \<open>Whatever \<open>raw_mode\<close> accepts, at 32, 24 or 16 bits, has its three channels in
  pairwise disjoint bit ranges inside the pixel.\<close>

lemma raw_mode_channels_disjoint:
  assumes "raw_mode pf = Inr mode"
  shows "separate (bpp pf) (channel_bits pf)"
proof (cases "bpp pf = 32 \<or> bpp pf = 24")
  case True
  with raw_mode_byte_mode [OF assms True] byte_mode_separate show ?thesis by metis
next
  case False
  with assms have "bpp pf = 16" by (simp add: raw_mode_def split: if_splits)
  with raw_mode_16_separate [OF assms] show ?thesis by simp
qed


text \<open>Where \<open>cpixel_bytes\<close> says three bytes are enough, the three bytes at
  \<open>cpixel_offset\<close> determine every colour channel: two pixels that agree there have the same
  red, green and blue, in both byte orders and for the low and the high placement.\<close>

lemma cpixel_determines_channels:
  assumes "cpixel_bytes pf = 3" "bpp pf = 32"
    and "length bs = 4" "length bs' = 4"
    and "take 3 (drop (nat (cpixel_offset pf)) bs) = take 3 (drop (nat (cpixel_offset pf)) bs')"
    and "(shift, mx) \<in> set (channels pf)" "mx = 2 ^ w - 1" "0 \<le> shift"
  shows "channel_value shift mx (pixel_value pf bs) = channel_value shift mx (pixel_value pf bs')"
proof (cases "cpixel_placement pf")
  case None
  with assms(1,2) show ?thesis by (simp add: cpixel_bytes_def pf_bypp_def)
next
  case (Some pl)
  show ?thesis
  proof (cases pl)
    case Low
    with Some assms(6) have "shift + bit_length mx \<le> 24"
      by (auto simp: cpixel_placement_def channel_widths_def channel_shifts_def channels_def Let_def
          split: if_splits)
    with assms(7) have "shift + int w \<le> 24" by (simp add: bit_length_mask)
    with assms(8) have "channel_value shift (2 ^ w - 1) (pixel_value pf bs) =
        channel_value shift (2 ^ w - 1) (pixel_value pf bs')"
      using cpixel_bytes_low [OF assms(1,2) _ assms(3,4,5)] Some Low
      by (intro mod_power_channel) simp_all
    with assms(7) show ?thesis by simp
  next
    case High
    with Some assms(6) have "8 \<le> shift"
      by (auto simp: cpixel_placement_def channel_shifts_def channels_def Let_def
          split: if_splits prod.splits)
    then show ?thesis
      by (rule div_power_channel) (simp add: cpixel_bytes_high [OF assms(1,2) _ assms(3,4,5)] Some High)
  qed
qed


end
