(* ===== verification/Rect_Buffer.thy ===== *)
theory Rect_Buffer
  imports Struct_Codec
begin

text \<open>
  \<open>vncdotool/decoders/buffer.py\<close>: the buffer one rectangle is decoded into. The class keeps
  three optimisations (a whole-rectangle write is held by reference, the backing store is
  reused without clearing it, contiguous rows are written with one slice); the lemmas show that
  none of them is visible: through \<open>rb_view\<close> the buffer behaves as an image that starts out
  zero and on which \<open>blit\<close> and \<open>fill\<close> paint exactly one rectangle.
\<close>

section \<open>The class\<close>

record RectBuffer =
  rb_width :: int
  rb_height :: int
  rb_bypp :: int
  rb_backing :: bytes
  rb_nbytes :: int
  rb_whole :: "bytes option"
  rb_covered :: bool

definition RectBuffer_init :: "int \<Rightarrow> int \<Rightarrow> int \<Rightarrow> bytes option \<Rightarrow> exn + RectBuffer" where
  "RectBuffer_init width height bypp backing =
     (let needed = width * height * bypp in
      case backing of
        None \<Rightarrow>
          if needed < 0 then Inl ValueError
          else Inr \<lparr>rb_width = width, rb_height = height, rb_bypp = bypp,
                 rb_backing = replicate (nat needed) 0, rb_nbytes = needed,
                 rb_whole = None, rb_covered = False\<rparr>
      | Some b \<Rightarrow>
          if int (length b) < needed then Inl ValueError
          else Inr \<lparr>rb_width = width, rb_height = height, rb_bypp = bypp,
                 rb_backing = b, rb_nbytes = needed, rb_whole = None, rb_covered = False\<rparr>)"

definition check_rect :: "RectBuffer \<Rightarrow> int \<Rightarrow> int \<Rightarrow> int \<Rightarrow> int \<Rightarrow> exn + unit" where
  "check_rect rb x y w h =
     (if x < 0 \<or> y < 0 \<or> w < 0 \<or> h < 0 then Inl DecodeError
      else if x + w > rb_width rb \<or> y + h > rb_height rb then Inl DecodeError
      else Inr ())"

definition clear :: "RectBuffer \<Rightarrow> RectBuffer" where
  "clear rb =
     (if rb_covered rb then rb
      else rb\<lparr>rb_backing := slice_assign 0 (rb_nbytes rb) (replicate (nat (rb_nbytes rb)) 0) (rb_backing rb),
              rb_covered := True\<rparr>)"

definition materialize :: "RectBuffer \<Rightarrow> RectBuffer" where
  "materialize rb =
     (case rb_whole rb of
        None \<Rightarrow> rb
      | Some whole \<Rightarrow> rb\<lparr>rb_backing := slice_assign 0 (rb_nbytes rb) whole (rb_backing rb),
                          rb_whole := None\<rparr>)"

definition is_whole :: "RectBuffer \<Rightarrow> int \<Rightarrow> int \<Rightarrow> int \<Rightarrow> int \<Rightarrow> bool" where
  "is_whole rb x y w h \<longleftrightarrow> x = 0 \<and> y = 0 \<and> w = rb_width rb \<and> h = rb_height rb"

definition blit_row :: "int \<Rightarrow> int \<Rightarrow> int \<Rightarrow> int \<Rightarrow> bytes \<Rightarrow> int \<Rightarrow> bytes \<Rightarrow> bytes" where
  "blit_row y stride x_off row_bytes pixels row buf =
     (let dst = (y + row) * stride + x_off; src = row * row_bytes
      in slice_assign dst (dst + row_bytes) (py_slice src (src + row_bytes) pixels) buf)"

definition blit :: "RectBuffer \<Rightarrow> int \<Rightarrow> int \<Rightarrow> int \<Rightarrow> int \<Rightarrow> bytes \<Rightarrow> exn + RectBuffer" where
  "blit rb x y w h pixels =
     bind_sum (check_rect rb x y w h) (\<lambda>_.
       let expected = w * h * rb_bypp rb in
       if int (length pixels) \<noteq> expected then Inl DecodeError
       else if is_whole rb x y w h then Inr (rb\<lparr>rb_whole := Some pixels, rb_covered := True\<rparr>)
       else
         let rb = clear (materialize rb);
             stride = rb_width rb * rb_bypp rb;
             row_bytes = w * rb_bypp rb;
             buf = rb_backing rb
         in if x = 0 \<and> w = rb_width rb
            then let offset = y * stride
                 in Inr (rb\<lparr>rb_backing := slice_assign offset (offset + expected) pixels buf\<rparr>)
            else let x_off = x * rb_bypp rb
                 in Inr (rb\<lparr>rb_backing :=
                      fold (\<lambda>row. blit_row y stride x_off row_bytes pixels (int row)) [0..<nat h] buf\<rparr>))"

definition fill_row :: "int \<Rightarrow> int \<Rightarrow> int \<Rightarrow> int \<Rightarrow> bytes \<Rightarrow> int \<Rightarrow> bytes \<Rightarrow> bytes" where
  "fill_row y stride x_off row_bytes row r buf =
     (let dst = (y + r) * stride + x_off in slice_assign dst (dst + row_bytes) row buf)"

definition fill :: "RectBuffer \<Rightarrow> int \<Rightarrow> int \<Rightarrow> int \<Rightarrow> int \<Rightarrow> bytes \<Rightarrow> exn + RectBuffer" where
  "fill rb x y w h color =
     bind_sum (check_rect rb x y w h) (\<lambda>_.
       if int (length color) \<noteq> rb_bypp rb then Inl DecodeError
       else
         let rb = materialize rb;
             rb = (if is_whole rb x y w h then rb else clear rb);
             rb = rb\<lparr>rb_covered := True\<rparr>;
             stride = rb_width rb * rb_bypp rb;
             row_bytes = w * rb_bypp rb;
             row = py_repeat color w;
             buf = rb_backing rb
         in if x = 0 \<and> w = rb_width rb
            then let offset = y * stride
                 in Inr (rb\<lparr>rb_backing := slice_assign offset (offset + h * stride) (py_repeat row h) buf\<rparr>)
            else let x_off = x * rb_bypp rb
                 in Inr (rb\<lparr>rb_backing :=
                      fold (\<lambda>r. fill_row y stride x_off row_bytes row (int r)) [0..<nat h] buf\<rparr>))"

definition tobytes :: "RectBuffer \<Rightarrow> bytes" where
  "tobytes rb = (case rb_whole rb of Some whole \<Rightarrow> whole | None \<Rightarrow> py_prefix (rb_nbytes rb) (rb_backing rb))"

section \<open>Invariant and abstraction\<close>

definition rb_inv :: "RectBuffer \<Rightarrow> bool" where
  "rb_inv rb \<longleftrightarrow> 0 \<le> rb_width rb \<and> 0 \<le> rb_height rb \<and> 0 \<le> rb_bypp rb \<and>
     rb_nbytes rb = rb_width rb * rb_height rb * rb_bypp rb \<and>
     rb_nbytes rb \<le> int (length (rb_backing rb)) \<and>
     (\<forall>whole. rb_whole rb = Some whole \<longrightarrow> int (length whole) = rb_nbytes rb \<and> rb_covered rb)"

definition rb_view :: "RectBuffer \<Rightarrow> bytes" where
  "rb_view rb =
     (case rb_whole rb of
        Some whole \<Rightarrow> whole
      | None \<Rightarrow> if rb_covered rb then take (nat (rb_nbytes rb)) (rb_backing rb)
               else replicate (nat (rb_nbytes rb)) 0)"

text \<open>
  Painting one rectangle of an image of rows of \<open>S\<close> bytes: a byte in rows \<open>y..y+h\<close> and
  byte columns \<open>X..X+R\<close> becomes \<open>src r c\<close>, its row and column inside the rectangle;
  every other byte stays.
\<close>

definition paint :: "nat \<Rightarrow> nat \<Rightarrow> nat \<Rightarrow> nat \<Rightarrow> nat \<Rightarrow> (nat \<Rightarrow> nat \<Rightarrow> 'a) \<Rightarrow> 'a list \<Rightarrow> 'a list" where
  "paint S X y R h src img =
     map (\<lambda>k. let r = k div S; c = k mod S in
            if y \<le> r \<and> r < y + h \<and> X \<le> c \<and> c < X + R then src (r - y) (c - X) else img ! k)
       [0..<length img]"

section \<open>Painting by slices\<close>

lemma length_paint [simp]: "length (paint S X y R h src img) = length img"
  by (simp add: paint_def)

lemma nth_paint:
  "k < length img \<Longrightarrow> paint S X y R h src img ! k =
     (if y \<le> k div S \<and> k div S < y + h \<and> X \<le> k mod S \<and> k mod S < X + R
      then src (k div S - y) (k mod S - X) else img ! k)"
  by (simp add: paint_def Let_def)

lemma row_span:
  assumes "X + R \<le> (S :: nat)"
  shows "n * S + X \<le> k \<and> k < n * S + X + R \<longleftrightarrow> k div S = n \<and> X \<le> k mod S \<and> k mod S < X + R"
proof (cases "S = 0")
  case True
  with assms show ?thesis by simp
next
  case False
  have k: "k = k div S * S + k mod S" by simp
  have m: "k mod S < S" using False by simp
  have "k div S = n" if "n * S + X \<le> k" "k < n * S + X + R"
    using that assms False by (intro div_nat_eqI) (simp_all add: algebra_simps)
  with k show ?thesis by (metis add.assoc add_less_cancel_left nat_add_left_cancel_le)
qed

lemma overwrite_row_paint:
  assumes "X + R \<le> S" "length row = R" "(y + n) * S + X + R \<le> length buf"
    and "\<And>c. c < R \<Longrightarrow> row ! c = src n c"
  shows "overwrite ((y + n) * S + X) row (paint S X y R n src buf) = paint S X y R (Suc n) src buf"
proof (rule nth_equalityI)
  show "length (overwrite ((y + n) * S + X) row (paint S X y R n src buf)) =
      length (paint S X y R (Suc n) src buf)"
    using assms by simp
next
  fix k assume "k < length (overwrite ((y + n) * S + X) row (paint S X y R n src buf))"
  with assms have k: "k < length buf" by simp
  have dm: "k - ((y + n) * S + X) = k mod S - X" if "k div S = y + n" "X \<le> k mod S"
    using that div_mult_mod_eq [of k S] by simp
  have "overwrite ((y + n) * S + X) row (paint S X y R n src buf) ! k =
     (if k div S = y + n \<and> X \<le> k mod S \<and> k mod S < X + R then src n (k mod S - X)
      else paint S X y R n src buf ! k)"
    using assms k dm row_span [OF assms(1), of "y + n" k] by (auto simp: nth_overwrite)
  also have "\<dots> = paint S X y R (Suc n) src buf ! k"
    using k by (auto simp: nth_paint)
  finally show "overwrite ((y + n) * S + X) row (paint S X y R n src buf) ! k =
    paint S X y R (Suc n) src buf ! k" .
qed

lemma paint_none [simp]: "paint S X y R 0 src buf = buf"
  by (rule nth_equalityI) (auto simp: nth_paint)

text \<open>The row loop of \<open>blit\<close> and \<open>fill\<close>.\<close>

lemma fold_rows_paint:
  assumes "X + R \<le> S" "(y + h) * S \<le> length buf"
    and "\<And>n. n < h \<Longrightarrow> length (row n) = R"
    and "\<And>n c. n < h \<Longrightarrow> c < R \<Longrightarrow> row n ! c = src n c"
  shows "fold (\<lambda>n. overwrite ((y + n) * S + X) (row n)) [0..<h] buf = paint S X y R h src buf"
  using assms(2-)
proof (induction h)
  case 0
  then show ?case by simp
next
  case (Suc h)
  have IH: "fold (\<lambda>n. overwrite ((y + n) * S + X) (row n)) [0..<h] buf = paint S X y R h src buf"
    using Suc by (intro Suc.IH) (simp_all add: algebra_simps)
  have "(y + h) * S + X + R \<le> (y + Suc h) * S" using assms(1) by (simp add: algebra_simps)
  with Suc.prems(1) have "(y + h) * S + X + R \<le> length buf" by linarith
  with Suc.prems IH overwrite_row_paint [OF assms(1), of "row h" y h buf src] show ?case by simp
qed

text \<open>Full-width rows are one slice.\<close>

lemma overwrite_rows_paint:
  assumes "(y + h) * S \<le> length buf" "length data = h * S"
    and "\<And>n c. n < h \<Longrightarrow> c < S \<Longrightarrow> data ! (n * S + c) = src n c"
  shows "overwrite (y * S) data buf = paint S 0 y S h src buf"
proof (rule nth_equalityI)
  show "length (overwrite (y * S) data buf) = length (paint S 0 y S h src buf)"
    using assms(1,2) by (simp add: algebra_simps)
next
  fix k assume "k < length (overwrite (y * S) data buf)"
  with assms have k: "k < length buf" by (simp add: algebra_simps)
  have span: "y * S \<le> k \<and> k < y * S + h * S \<longleftrightarrow> y \<le> k div S \<and> k div S < y + h \<and> k mod S < S"
  proof (cases "S = 0")
    case False
    then show ?thesis
      by (simp add: less_eq_div_iff_mult_less_eq div_less_iff_less_mult algebra_simps)
  qed simp
  have "k - y * S = (k div S - y) * S + k mod S" if "y \<le> k div S"
    using that div_mult_mod_eq [of k S] by (metis Nat.add_diff_assoc2 diff_mult_distrib mult_le_mono1)
  then have "data ! (k - y * S) = src (k div S - y) (k mod S)"
    if "y \<le> k div S" "k div S < y + h" "k mod S < S"
    using that assms(3) [of "k div S - y" "k mod S"] by auto
  with k assms(1,2) span show "overwrite (y * S) data buf ! k = paint S 0 y S h src buf ! k"
    by (auto simp: nth_overwrite nth_paint algebra_simps)
qed

lemma take_paint: "take n (paint S X y R h src img) = paint S X y R h src (take n img)"
  by (rule nth_equalityI) (auto simp: nth_paint)

lemma drop_paint:
  assumes "X + R \<le> S" "(y + h) * S \<le> n"
  shows "drop n (paint S X y R h src img) = drop n img"
proof (rule nth_equalityI)
  fix k assume "k < length (drop n (paint S X y R h src img))"
  then have k: "n + k < length img" by simp
  have "\<not> (n + k) div S < y + h" if "S \<noteq> 0"
    using assms(2) that by (simp add: div_less_iff_less_mult)
  with k assms(1) show "drop n (paint S X y R h src img) ! k = drop n img ! k"
    by (cases "S = 0") (auto simp: nth_paint)
qed simp

section \<open>The operations paint\<close>

text \<open>What every operation keeps: the geometry, and the backing beyond this rectangle.\<close>

definition same_shape :: "RectBuffer \<Rightarrow> RectBuffer \<Rightarrow> bool" where
  "same_shape rb rb' \<longleftrightarrow> rb_width rb' = rb_width rb \<and> rb_height rb' = rb_height rb \<and>
     rb_bypp rb' = rb_bypp rb \<and> rb_nbytes rb' = rb_nbytes rb \<and>
     length (rb_backing rb') = length (rb_backing rb) \<and>
     drop (nat (rb_nbytes rb)) (rb_backing rb') = drop (nat (rb_nbytes rb)) (rb_backing rb)"

lemma same_shape_trans: "same_shape a b \<Longrightarrow> same_shape b c \<Longrightarrow> same_shape a c"
  by (simp add: same_shape_def)

lemma rb_inv_nbytes_nonneg: "rb_inv rb \<Longrightarrow> 0 \<le> rb_nbytes rb"
  by (simp add: rb_inv_def)

lemma replace_prefix:
  assumes "int (length new) = n" "n \<le> int (length buf)"
  shows "slice_assign 0 n new buf = new @ drop (nat n) buf"
  using assms by (auto simp: slice_assign_def)

lemma materialize_ok:
  assumes "rb_inv rb"
  shows "rb_inv (materialize rb) \<and> rb_whole (materialize rb) = None \<and>
    same_shape rb (materialize rb) \<and> rb_view (materialize rb) = rb_view rb \<and>
    rb_covered (materialize rb) = rb_covered rb"
proof (cases "rb_whole rb")
  case None
  with assms show ?thesis by (simp add: materialize_def same_shape_def)
next
  case (Some whole)
  with assms have len: "int (length whole) = rb_nbytes rb" and cov: "rb_covered rb"
    and fit: "rb_nbytes rb \<le> int (length (rb_backing rb))"
    by (auto simp: rb_inv_def)
  have nat_len: "nat (rb_nbytes rb) = length whole" using len by auto
  show ?thesis
    using assms Some cov fit nat_len replace_prefix [OF len fit]
    by (auto simp: materialize_def same_shape_def rb_view_def rb_inv_def)
qed

lemma clear_ok:
  assumes "rb_inv rb" "rb_whole rb = None"
  shows "rb_inv (clear rb) \<and> rb_whole (clear rb) = None \<and> same_shape rb (clear rb) \<and>
    rb_view (clear rb) = rb_view rb \<and> rb_covered (clear rb)"
proof -
  let ?z = "replicate (nat (rb_nbytes rb)) 0"
  have "int (length ?z) = rb_nbytes rb" "rb_nbytes rb \<le> int (length (rb_backing rb))"
    using assms by (auto simp: rb_inv_def)
  note eq = replace_prefix [OF this]
  show ?thesis
    using assms eq by (auto simp: clear_def same_shape_def rb_view_def rb_inv_def)
qed

text \<open>Overwriting inside the rectangle's bytes of a covered, materialised buffer.\<close>

lemma write_backing_ok:
  assumes "rb_inv rb" "rb_whole rb = None" "rb_covered rb"
    and "X + R \<le> S" "(y + h) * S \<le> nat (rb_nbytes rb)"
    and "new = paint S X y R h src (rb_backing rb)"
  shows "rb_inv (rb\<lparr>rb_backing := new\<rparr>) \<and> same_shape rb (rb\<lparr>rb_backing := new\<rparr>) \<and>
    rb_view (rb\<lparr>rb_backing := new\<rparr>) = paint S X y R h src (rb_view rb)"
  using assms(1-3) drop_paint [OF assms(4,5)]
  by (simp add: assms(6) rb_inv_def same_shape_def rb_view_def take_paint)

lemma blit_row_overwrite:
  assumes "Suc n * R \<le> length pixels"
  shows "blit_row (int y) (int S) (int X) (int R) pixels (int n) buf =
    overwrite ((y + n) * S + X) (drop (n * R) (take (n * R + R) pixels)) buf"
proof -
  have "length (drop (n * R) (take (n * R + R) pixels)) = R" using assms by simp
  moreover have "nat (int n * int R) = n * R" "nat (int n * int R + int R) = n * R + R"
    "nat ((int y + int n) * int S + int X) = (y + n) * S + X"
    by (simp_all flip: of_nat_mult of_nat_add)
  ultimately show ?thesis
    by (simp add: blit_row_def Let_def py_slice_def slice_assign_overwrite)
qed

lemma fill_row_overwrite:
  assumes "length row = R"
  shows "fill_row (int y) (int S) (int X) (int R) row (int n) buf = overwrite ((y + n) * S + X) row buf"
proof -
  have "nat ((int y + int n) * int S + int X) = (y + n) * S + X"
    by (simp flip: of_nat_mult of_nat_add)
  with assms show ?thesis by (simp add: fill_row_def Let_def slice_assign_overwrite)
qed

lemma fold_cong_on:
  "(\<And>n b. n \<in> set ns \<Longrightarrow> f n b = g n b) \<Longrightarrow> fold f ns b = fold g ns b"
  by (induction ns arbitrary: b) simp_all

lemma blit_loop_paint:
  assumes "X + R \<le> S" "(y + h) * S \<le> length buf" "length pixels = h * R"
  shows "fold (\<lambda>n. blit_row (int y) (int S) (int X) (int R) pixels (int n)) [0..<h] buf =
    paint S X y R h (\<lambda>r c. pixels ! (r * R + c)) buf"
proof -
  have le: "Suc n * R \<le> length pixels" if "n < h" for n
    using that mult_le_mono1 [of "Suc n" h R] assms(3) by simp
  then have "fold (\<lambda>n. blit_row (int y) (int S) (int X) (int R) pixels (int n)) [0..<h] buf =
      fold (\<lambda>n. overwrite ((y + n) * S + X) (drop (n * R) (take (n * R + R) pixels))) [0..<h] buf"
    by (intro fold_cong_on blit_row_overwrite) simp
  also have "\<dots> = paint S X y R h (\<lambda>r c. pixels ! (r * R + c)) buf"
    using assms le by (intro fold_rows_paint) (fastforce simp: add.commute)+
  finally show ?thesis .
qed

lemma fill_loop_paint:
  assumes "X + R \<le> S" "(y + h) * S \<le> length buf" "R = w * length color"
  shows "fold (\<lambda>n. fill_row (int y) (int S) (int X) (int R) (py_repeat color (int w)) (int n)) [0..<h] buf =
    paint S X y R h (\<lambda>r c. color ! (c mod length color)) buf"
proof -
  have "fold (\<lambda>n. fill_row (int y) (int S) (int X) (int R) (py_repeat color (int w)) (int n)) [0..<h] buf =
      fold (\<lambda>n. overwrite ((y + n) * S + X) (py_repeat color (int w))) [0..<h] buf"
    using assms(3) by (intro fold_cong_on fill_row_overwrite) simp
  also have "\<dots> = paint S X y R h (\<lambda>r c. color ! (c mod length color)) buf"
    using assms by (intro fold_rows_paint) (simp_all add: py_repeat_def nth_concat_replicate)
  finally show ?thesis .
qed

lemma paint_all:
  assumes "length img = H * S" "length data = H * S"
  shows "paint S 0 0 S H (\<lambda>r c. data ! (r * S + c)) img = data"
proof -
  have "paint S 0 0 S H (\<lambda>r c. data ! (r * S + c)) img = overwrite (0 * S) data img"
    using assms by (intro overwrite_rows_paint [symmetric]) simp_all
  with assms show ?thesis by (simp add: overwrite_def)
qed

lemma length_rb_view: "rb_inv rb \<Longrightarrow> length (rb_view rb) = nat (rb_nbytes rb)"
  by (auto simp: rb_view_def rb_inv_def split: option.splits)

lemma prepared_ok:
  assumes "rb_inv rb"
  shows "rb_inv (clear (materialize rb)) \<and> rb_whole (clear (materialize rb)) = None \<and>
    same_shape rb (clear (materialize rb)) \<and> rb_view (clear (materialize rb)) = rb_view rb \<and>
    rb_covered (clear (materialize rb))"
  using materialize_ok [OF assms] clear_ok same_shape_trans by metis

lemma nat_geometry:
  assumes "rb_inv rb" "rb_width rb = int W" "rb_height rb = int H" "rb_bypp rb = int B"
  shows "nat (rb_nbytes rb) = H * (W * B)" "H * (W * B) \<le> length (rb_backing rb)"
proof -
  have "rb_nbytes rb = int (H * (W * B))" using assms by (simp add: rb_inv_def)
  then show n: "nat (rb_nbytes rb) = H * (W * B)" by (simp only: nat_int)
  have "nat (rb_nbytes rb) \<le> length (rb_backing rb)" using assms(1) by (simp add: rb_inv_def nat_le_iff)
  then show "H * (W * B) \<le> length (rb_backing rb)" by (simp only: n)
qed

text \<open>One operation's contract: it painted \<open>src\<close>, and nothing else changed.\<close>

definition painted :: "RectBuffer \<Rightarrow> nat \<Rightarrow> nat \<Rightarrow> nat \<Rightarrow> nat \<Rightarrow> nat \<Rightarrow> (nat \<Rightarrow> nat \<Rightarrow> byte) \<Rightarrow> RectBuffer \<Rightarrow> bool" where
  "painted rb S X y R h src rb' \<longleftrightarrow> rb_inv rb' \<and> rb_covered rb' \<and> same_shape rb rb' \<and>
     rb_view rb' = paint S X y R h src (rb_view rb)"

lemma painted_prepared:
  assumes "rb_inv rb" "rb_whole rb = None" "rb_covered rb"
    and "rb_width rb = int W" "rb_height rb = int H" "rb_bypp rb = int B"
    and "X + R \<le> W * B" "y + h \<le> H"
    and "new = paint (W * B) X y R h src (rb_backing rb)"
  shows "painted rb (W * B) X y R h src (rb\<lparr>rb_backing := new\<rparr>)"
proof -
  have "(y + h) * (W * B) \<le> nat (rb_nbytes rb)"
    using assms(8) by (simp only: nat_geometry [OF assms(1,4,5,6)] mult_le_mono1)
  with write_backing_ok [OF assms(1,2,3,7) this assms(9)] assms(3) show ?thesis
    by (simp add: painted_def)
qed

lemma painted_after:
  assumes "same_shape rb rb1" "rb_view rb1 = rb_view rb" "painted rb1 S X y R h src rb'"
  shows "painted rb S X y R h src rb'"
  using assms same_shape_trans by (auto simp: painted_def)

lemma kept_fields [simp]:
  "rb_width (materialize rb) = rb_width rb" "rb_height (materialize rb) = rb_height rb"
  "rb_bypp (materialize rb) = rb_bypp rb" "rb_nbytes (materialize rb) = rb_nbytes rb"
  "rb_width (clear rb) = rb_width rb" "rb_height (clear rb) = rb_height rb"
  "rb_bypp (clear rb) = rb_bypp rb" "rb_nbytes (clear rb) = rb_nbytes rb" "rb_covered (clear rb)"
  by (simp_all add: materialize_def clear_def split: option.splits)

lemma is_whole_materialize [simp]: "is_whole (materialize rb) x y w h = is_whole rb x y w h"
  by (simp add: is_whole_def)

text \<open>A partial write goes through \<open>clear (materialize rb)\<close>; these are its obligations.\<close>

lemma prepared_paints:
  assumes inv: "rb_inv rb" and g: "rb_width rb = int W" "rb_height rb = int H" "rb_bypp rb = int B"
    and bounds: "x + w \<le> W" "y + h \<le> H"
    and new: "\<And>buf. x * B + w * B \<le> W * B \<Longrightarrow> (y + h) * (W * B) \<le> length buf \<Longrightarrow>
      write buf = paint (W * B) (x * B) y (w * B) h src buf"
  shows "painted rb (W * B) (x * B) y (w * B) h src
    (clear (materialize rb)\<lparr>rb_backing := write (rb_backing (clear (materialize rb)))\<rparr>)"
proof -
  define rb1 where "rb1 = clear (materialize rb)"
  have rb1: "rb_inv rb1" "rb_whole rb1 = None" "same_shape rb rb1" "rb_view rb1 = rb_view rb"
    "rb_covered rb1"
    using prepared_ok [OF inv] by (simp_all add: rb1_def)
  have g1: "rb_width rb1 = int W" "rb_height rb1 = int H" "rb_bypp rb1 = int B"
    using g by (simp_all add: rb1_def)
  have "(y + h) * (W * B) \<le> length (rb_backing rb1)"
    using nat_geometry(2) [OF rb1(1) g1] bounds(2) by (meson le_trans mult_le_mono1)
  moreover have XR: "x * B + w * B \<le> W * B" using bounds(1) by (metis add_mult_distrib mult_le_mono1)
  ultimately have "write (rb_backing rb1) = paint (W * B) (x * B) y (w * B) h src (rb_backing rb1)"
    by (intro new)
  from painted_after [OF rb1(3,4) painted_prepared [OF rb1(1,2,5) g1 XR bounds(2) this]]
  show ?thesis by (simp add: rb1_def)
qed

lemma check_rect_ok:
  assumes "rb_width rb = int W" "rb_height rb = int H" "x + w \<le> W" "y + h \<le> H"
  shows "check_rect rb (int x) (int y) (int w) (int h) = Inr ()"
  using assms by (simp add: check_rect_def)

lemma nat_row_offset: "nat (int y * (int W * int B)) = y * (W * B)"
  by (simp flip: of_nat_mult)

lemma blit_whole_paints:
  assumes inv: "rb_inv rb" and g: "rb_width rb = int W" "rb_height rb = int H" "rb_bypp rb = int B"
    and len: "length pixels = H * (W * B)"
  shows "painted rb (W * B) 0 0 (W * B) H (\<lambda>r c. pixels ! (r * (W * B) + c))
    (rb\<lparr>rb_whole := Some pixels, rb_covered := True\<rparr>)"
proof -
  have "length (rb_view rb) = H * (W * B)"
    using inv nat_geometry(1) [OF inv g] by (simp add: length_rb_view)
  with len inv g paint_all [of "rb_view rb" H "W * B" pixels] show ?thesis
    by (simp add: painted_def rb_inv_def same_shape_def rb_view_def)
qed

lemma blit_paints:
  assumes inv: "rb_inv rb" and g: "rb_width rb = int W" "rb_height rb = int H" "rb_bypp rb = int B"
    and bounds: "x + w \<le> W" "y + h \<le> H" and len: "length pixels = h * (w * B)"
  shows "\<exists>rb'. blit rb (int x) (int y) (int w) (int h) pixels = Inr rb' \<and>
    painted rb (W * B) (x * B) y (w * B) h (\<lambda>r c. pixels ! (r * (w * B) + c)) rb'"
proof -
  have chk: "check_rect rb (int x) (int y) (int w) (int h) = Inr ()"
    using check_rect_ok [OF g(1,2) bounds] .
  have exp: "int w * int h * int B = int (length pixels)" by (simp add: len)
  note prepared = prepared_paints [OF inv g bounds]
  consider (whole) "x = 0" "y = 0" "w = W" "h = H"
    | (rows) "x = 0" "w = W" "\<not> (y = 0 \<and> h = H)" | (part) "\<not> (x = 0 \<and> w = W)" by blast
  then show ?thesis
  proof cases
    case whole
    with blit_whole_paints [OF inv g] chk exp g len show ?thesis by (simp add: blit_def is_whole_def)
  next
    case rows
    have "blit rb (int x) (int y) (int w) (int h) pixels = Inr (clear (materialize rb)\<lparr>rb_backing :=
        overwrite (y * (W * B)) pixels (rb_backing (clear (materialize rb)))\<rparr>)"
      using rows chk exp g
      by (auto simp: blit_def is_whole_def Let_def slice_assign_overwrite nat_row_offset)
    with rows len prepared [of "overwrite (y * (W * B)) pixels"] show ?thesis
      by (simp add: overwrite_rows_paint)
  next
    case part
    let ?loop = "fold (\<lambda>n. blit_row (int y) (int (W * B)) (int (x * B)) (int (w * B)) pixels (int n)) [0..<h]"
    have "blit rb (int x) (int y) (int w) (int h) pixels = Inr (clear (materialize rb)\<lparr>rb_backing :=
        ?loop (rb_backing (clear (materialize rb)))\<rparr>)"
      using part chk exp g by (auto simp: blit_def is_whole_def Let_def)
    with prepared [OF blit_loop_paint [OF _ _ len]] show ?thesis by blast
  qed
qed

lemma fill_whole_paints:
  assumes inv: "rb_inv rb" and g: "rb_width rb = int W" "rb_height rb = int H" "rb_bypp rb = int B"
    and data: "length data = H * (W * B)"
  shows "painted rb (W * B) 0 0 (W * B) H (\<lambda>r c. data ! (r * (W * B) + c))
    (materialize rb\<lparr>rb_covered := True, rb_backing := overwrite 0 data (rb_backing (materialize rb))\<rparr>)"
proof -
  define rb1 where "rb1 = materialize rb"
  define rb2 where "rb2 = rb1\<lparr>rb_covered := True, rb_backing := overwrite 0 data (rb_backing rb1)\<rparr>"
  have rb1: "rb_inv rb1" "rb_whole rb1 = None" "same_shape rb rb1"
    using materialize_ok [OF inv] by (simp_all add: rb1_def)
  have g1: "rb_width rb1 = int W" "rb_height rb1 = int H" "rb_bypp rb1 = int B"
    using g by (simp_all add: rb1_def)
  have n1: "nat (rb_nbytes rb1) = length data" "length data \<le> length (rb_backing rb1)"
    using nat_geometry [OF rb1(1) g1] by (simp_all only: data)
  have "rb_inv rb2" using rb1(1,2) n1(2) by (simp add: rb2_def rb_inv_def)
  moreover have "same_shape rb1 rb2"
    using n1 drop_overwrite_beyond [of 0 data "length data" "rb_backing rb1"]
    by (simp add: rb2_def same_shape_def)
  moreover have "rb_view rb2 = data"
    using rb1(2) n1(1) by (simp add: rb2_def rb_view_def overwrite_def)
  moreover have "paint (W * B) 0 0 (W * B) H (\<lambda>r c. data ! (r * (W * B) + c)) (rb_view rb) = data"
    using data nat_geometry(1) [OF inv g] length_rb_view [OF inv] by (intro paint_all) simp_all
  ultimately have "painted rb (W * B) 0 0 (W * B) H (\<lambda>r c. data ! (r * (W * B) + c)) rb2"
    using rb1(3) same_shape_trans by (auto simp: painted_def rb2_def)
  then show ?thesis by (simp add: rb2_def rb1_def)
qed

lemma nth_repeat_rows:
  assumes "n < h" "c < W * length color"
  shows "py_repeat (py_repeat color (int W)) (int h) ! (n * (W * length color) + c) =
    color ! (c mod length color)"
proof -
  have "n * (W * length color) + c < Suc n * (W * length color)" using assms(2) by simp
  also have "\<dots> \<le> h * (W * length color)" using assms(1) by (intro mult_le_mono1) simp
  finally show ?thesis using assms(2) by (simp add: py_repeat_def nth_concat_replicate)
qed

lemma paint_cong:
  assumes "\<And>r c. r < h \<Longrightarrow> c < R \<Longrightarrow> src r c = src' r c"
  shows "paint S X y R h src img = paint S X y R h src' img"
  using assms by (intro nth_equalityI) (auto simp: nth_paint)

text \<open>\<open>fill\<close> away from the whole rectangle, unfolded.\<close>

lemma fill_prepared:
  assumes "check_rect rb x y w h = Inr ()" "int (length color) = rb_bypp rb" "\<not> is_whole rb x y w h"
    and rb1: "rb1 = clear (materialize rb)" and S: "S = rb_width rb * rb_bypp rb"
  shows "fill rb x y w h color = Inr (rb1\<lparr>rb_backing :=
    (if x = 0 \<and> w = rb_width rb
     then slice_assign (y * S) (y * S + h * S) (py_repeat (py_repeat color w) h) (rb_backing rb1)
     else fold (\<lambda>r. fill_row y S (x * rb_bypp rb) (w * rb_bypp rb) (py_repeat color w) (int r))
            [0..<nat h] (rb_backing rb1))\<rparr>)"
proof -
  have cov: "rb1\<lparr>rb_covered := True\<rparr> = rb1" by (simp add: rb1)
  have "fill rb x y w h color = (\<lambda>rb2. Inr (rb2\<lparr>rb_backing :=
      (if x = 0 \<and> w = rb_width rb2
       then slice_assign (y * S) (y * S + h * S) (py_repeat (py_repeat color w) h) (rb_backing rb2)
       else fold (\<lambda>r. fill_row y S (x * rb_bypp rb2) (w * rb_bypp rb2) (py_repeat color w) (int r))
              [0..<nat h] (rb_backing rb2))\<rparr>)) (rb1\<lparr>rb_covered := True\<rparr>)"
    using assms(1-3) by (auto simp: fill_def Let_def rb1 S)
  then show ?thesis unfolding cov by (simp add: rb1)
qed

lemma fill_paints:
  assumes inv: "rb_inv rb" and g: "rb_width rb = int W" "rb_height rb = int H" "rb_bypp rb = int B"
    and bounds: "x + w \<le> W" "y + h \<le> H" and len: "length color = B"
  shows "\<exists>rb'. fill rb (int x) (int y) (int w) (int h) color = Inr rb' \<and>
    painted rb (W * B) (x * B) y (w * B) h (\<lambda>r c. color ! (c mod length color)) rb'"
proof -
  have chk: "check_rect rb (int x) (int y) (int w) (int h) = Inr ()"
    using check_rect_ok [OF g(1,2) bounds] .
  note prepared = prepared_paints [OF inv g bounds]
  let ?data = "py_repeat (py_repeat color (int W)) (int h)"
  consider (whole) "x = 0" "y = 0" "w = W" "h = H"
    | (rows) "x = 0" "w = W" "\<not> (y = 0 \<and> h = H)" | (part) "\<not> (x = 0 \<and> w = W)" by blast
  then show ?thesis
  proof cases
    case whole
    let ?rb = "materialize rb\<lparr>rb_covered := True, rb_backing := overwrite 0 ?data (rb_backing (materialize rb))\<rparr>"
    have "painted rb (W * B) 0 0 (W * B) H (\<lambda>r c. ?data ! (r * (W * B) + c)) ?rb"
      using whole len by (intro fill_whole_paints [OF inv g]) simp
    moreover have "paint (W * B) 0 0 (W * B) H (\<lambda>r c. ?data ! (r * (W * B) + c)) (rb_view rb) =
        paint (W * B) 0 0 (W * B) H (\<lambda>r c. color ! (c mod length color)) (rb_view rb)"
      using nth_repeat_rows [of _ h _ W color] whole len by (intro paint_cong) simp
    ultimately have "painted rb (W * B) 0 0 (W * B) H (\<lambda>r c. color ! (c mod length color)) ?rb"
      by (simp add: painted_def)
    moreover have "fill rb (int x) (int y) (int w) (int h) color = Inr ?rb"
      using whole chk g len by (simp add: fill_def is_whole_def Let_def slice_assign_overwrite)
    ultimately show ?thesis using whole by simp
  next
    case rows
    have "fill rb (int x) (int y) (int w) (int h) color = Inr (clear (materialize rb)\<lparr>rb_backing :=
        overwrite (y * (W * B)) ?data (rb_backing (clear (materialize rb)))\<rparr>)"
      using rows g len
      by (subst fill_prepared [OF chk _ _ refl refl])
        (auto simp: is_whole_def slice_assign_overwrite nat_row_offset)
    moreover have "overwrite (y * (W * B)) ?data buf =
        paint (W * B) (x * B) y (w * B) h (\<lambda>r c. color ! (c mod length color)) buf"
      if "(y + h) * (W * B) \<le> length buf" for buf
      using rows that len nth_repeat_rows [of _ h _ W color]
      by (simp, intro overwrite_rows_paint) simp_all
    ultimately show ?thesis using prepared by blast
  next
    case part
    let ?loop = "fold (\<lambda>n. fill_row (int y) (int (W * B)) (int (x * B)) (int (w * B)) (py_repeat color (int w)) (int n)) [0..<h]"
    have eq: "fill rb (int x) (int y) (int w) (int h) color = Inr (clear (materialize rb)\<lparr>rb_backing :=
        ?loop (rb_backing (clear (materialize rb)))\<rparr>)"
      using part g len by (subst fill_prepared [OF chk _ _ refl refl]) (auto simp: is_whole_def)
    have "w * B = w * length color" by (simp add: len)
    with eq prepared [OF fill_loop_paint [of "x * B" "w * B" "W * B" y h _ w color]] show ?thesis by blast
  qed
qed

section \<open>Sequences of operations\<close>

datatype rb_op = Blit int int int int bytes | Fill int int int int bytes

fun rb_apply :: "RectBuffer \<Rightarrow> rb_op \<Rightarrow> exn + RectBuffer" where
  "rb_apply rb (Blit x y w h pixels) = blit rb x y w h pixels"
| "rb_apply rb (Fill x y w h color) = fill rb x y w h color"

type_synonym geometry = "nat \<times> nat \<times> nat"

definition rb_geometry :: "RectBuffer \<Rightarrow> geometry" where
  "rb_geometry rb = (nat (rb_width rb), nat (rb_height rb), nat (rb_bypp rb))"

fun rb_spec :: "geometry \<Rightarrow> rb_op \<Rightarrow> bytes \<Rightarrow> bytes" where
  "rb_spec (W, H, B) (Blit x y w h pixels) =
     paint (W * B) (nat x * B) (nat y) (nat w * B) (nat h) (\<lambda>r c. pixels ! (r * (nat w * B) + c))"
| "rb_spec (W, H, B) (Fill x y w h color) =
     paint (W * B) (nat x * B) (nat y) (nat w * B) (nat h) (\<lambda>r c. color ! (c mod length color))"

fun op_accepted :: "geometry \<Rightarrow> rb_op \<Rightarrow> bool" where
  "op_accepted (W, H, B) (Blit x y w h pixels) \<longleftrightarrow>
     0 \<le> x \<and> 0 \<le> y \<and> 0 \<le> w \<and> 0 \<le> h \<and> x + w \<le> int W \<and> y + h \<le> int H \<and>
     length pixels = nat h * (nat w * B)"
| "op_accepted (W, H, B) (Fill x y w h color) \<longleftrightarrow>
     0 \<le> x \<and> 0 \<le> y \<and> 0 \<le> w \<and> 0 \<le> h \<and> x + w \<le> int W \<and> y + h \<le> int H \<and> length color = B"

text \<open>A surface: operations are accepted exactly when they fit, an accepted one does what the
  specification says to the view, and what is read out of a surface that was written to is the
  view.\<close>

locale surface =
  fixes apply_op :: "'s \<Rightarrow> 'op \<Rightarrow> exn + 's"
    and inv :: "'s \<Rightarrow> bool" and written :: "'s \<Rightarrow> bool"
    and geo :: "'s \<Rightarrow> 'geo" and view :: "'s \<Rightarrow> 'img" and out :: "'s \<Rightarrow> 'img"
    and accepted :: "'geo \<Rightarrow> 'op \<Rightarrow> bool" and spec :: "'geo \<Rightarrow> 'op \<Rightarrow> 'img \<Rightarrow> 'img"
  assumes op_ok: "inv s \<Longrightarrow> accepted (geo s) op \<Longrightarrow> \<exists>s'. apply_op s op = Inr s' \<and> inv s' \<and>
      written s' \<and> geo s' = geo s \<and> view s' = spec (geo s) op (view s)"
    and op_refused: "inv s \<Longrightarrow> \<not> accepted (geo s) op \<Longrightarrow> apply_op s op = Inl DecodeError"
    and out_written: "inv s \<Longrightarrow> written s \<Longrightarrow> out s = view s"
begin

lemma op_Inr:
  assumes "inv s" "apply_op s op = Inr s'"
  shows "inv s'" "written s'" "geo s' = geo s" "view s' = spec (geo s) op (view s)"
  using assms op_ok [of s op] op_refused [of s op] by (cases "accepted (geo s) op"; force)+

end

fun run_ops :: "('s \<Rightarrow> 'op \<Rightarrow> exn + 's) \<Rightarrow> 's \<Rightarrow> 'op list \<Rightarrow> exn + 's" where
  "run_ops f s [] = Inr s"
| "run_ops f s (op # ops) = bind_sum (f s op) (\<lambda>s'. run_ops f s' ops)"

context surface
begin

lemma run_view:
  assumes "inv s" "run_ops apply_op s ops = Inr s'"
  shows "inv s' \<and> view s' = fold (spec (geo s)) ops (view s) \<and> (ops \<noteq> [] \<or> written s \<longrightarrow> written s')"
  using assms
proof (induction ops arbitrary: s)
  case Nil
  then show ?case by simp
next
  case (Cons op ops)
  from Cons.prems(2) obtain s1 where s1: "apply_op s op = Inr s1" "run_ops apply_op s1 ops = Inr s'"
    by (auto simp: bind_sum_Inr_iff)
  note facts = op_Inr [OF Cons.prems(1) s1(1)]
  from Cons.IH [OF facts(1) s1(2)] facts show ?case by simp
qed

lemma run_accepted:
  assumes "inv s" "\<forall>op \<in> set ops. accepted (geo s) op"
  shows "\<exists>s'. run_ops apply_op s ops = Inr s'"
  using assms
proof (induction ops arbitrary: s)
  case Nil
  then show ?case by simp
next
  case (Cons op ops)
  then obtain s1 where "apply_op s op = Inr s1" "inv s1" "geo s1 = geo s"
    using op_ok [of s op] by auto
  with Cons show ?case by simp
qed

lemma run_out:
  assumes "inv s" "run_ops apply_op s ops = Inr s'" "ops \<noteq> []"
  shows "out s' = fold (spec (geo s)) ops (view s)"
  using run_view [OF assms(1,2)] assms(3) out_written by auto

end

lemma rb_inv_int:
  assumes "rb_inv rb"
  shows "rb_width rb = int (nat (rb_width rb))" "rb_height rb = int (nat (rb_height rb))"
    "rb_bypp rb = int (nat (rb_bypp rb))"
  using assms by (simp_all add: rb_inv_def)

lemma painted_view:
  assumes "painted rb S X y R h src rb'"
  shows "rb_inv rb' \<and> rb_covered rb' \<and> rb_geometry rb' = rb_geometry rb \<and>
    same_shape rb rb' \<and> rb_view rb' = paint S X y R h src (rb_view rb)"
  using assms by (simp add: painted_def same_shape_def rb_geometry_def)

lemma rb_apply_ok:
  assumes "rb_inv rb" "op_accepted (rb_geometry rb) op"
  shows "\<exists>rb'. rb_apply rb op = Inr rb' \<and> rb_inv rb' \<and> rb_covered rb' \<and>
    rb_geometry rb' = rb_geometry rb \<and> same_shape rb rb' \<and>
    rb_view rb' = rb_spec (rb_geometry rb) op (rb_view rb)"
proof -
  note g = rb_inv_int [OF assms(1)]
  show ?thesis
  proof (cases op)
    case (Blit x y w h pixels)
    with assms(2) g blit_paints [OF assms(1) g, of "nat x" "nat w" "nat y" "nat h" pixels] painted_view
    show ?thesis by (force simp: rb_geometry_def nat_add_distrib [symmetric] nat_mono)
  next
    case (Fill x y w h color)
    with assms(2) g fill_paints [OF assms(1) g, of "nat x" "nat w" "nat y" "nat h" color] painted_view
    show ?thesis by (force simp: rb_geometry_def nat_add_distrib [symmetric] nat_mono)
  qed
qed

lemma rb_apply_refused:
  assumes "rb_inv rb" "\<not> op_accepted (rb_geometry rb) op"
  shows "rb_apply rb op = Inl DecodeError"
proof (cases op)
  case (Blit x y w h pixels)
  have "int (length pixels) = w * h * rb_bypp rb \<longleftrightarrow> length pixels = nat h * (nat w * nat (rb_bypp rb))"
    if "0 \<le> w" "0 \<le> h"
    using that assms(1) by (simp add: rb_inv_def flip: nat_mult_distrib) (auto simp: algebra_simps)
  with Blit assms show ?thesis
    by (auto simp: rb_geometry_def rb_inv_def blit_def check_rect_def Let_def)
next
  case (Fill x y w h color)
  with assms show ?thesis by (auto simp: rb_geometry_def rb_inv_def fill_def check_rect_def)
qed

lemma tobytes_covered: "rb_inv rb \<Longrightarrow> rb_covered rb \<Longrightarrow> tobytes rb = rb_view rb"
  by (simp add: tobytes_def rb_view_def rb_inv_def split: option.splits)

interpretation rect: surface rb_apply rb_inv rb_covered rb_geometry rb_view tobytes op_accepted rb_spec
  by unfold_locales (use rb_apply_ok rb_apply_refused tobytes_covered in blast)+

lemma RectBuffer_init_ok:
  assumes "RectBuffer_init w h b backing = Inr rb" "0 \<le> w" "0 \<le> h" "0 \<le> b"
  shows "rb_inv rb \<and> rb_geometry rb = (nat w, nat h, nat b) \<and>
    rb_view rb = replicate (nat w * nat h * nat b) 0"
  using assms by (auto simp: RectBuffer_init_def rb_inv_def rb_geometry_def rb_view_def Let_def
      nat_mult_distrib split: option.splits if_splits)

section \<open>Properties\<close>

text \<open>C18. What \<open>tobytes\<close> returns after any sequence of successful \<open>blit\<close> and \<open>fill\<close>
  calls is the all-zero image with exactly those rectangles painted on it, in order: the bytes a
  reused backing store still holds from an earlier rectangle never show, and neither does the
  by-reference treatment of whole-rectangle writes.\<close>

theorem rect_buffer_refines_image:
  assumes "RectBuffer_init w h b backing = Inr rb" "0 \<le> w" "0 \<le> h" "0 \<le> b"
    and "run_ops rb_apply rb ops = Inr rb'" "ops \<noteq> []"
  shows "tobytes rb' = fold (rb_spec (nat w, nat h, nat b)) ops (replicate (nat w * nat h * nat b) 0)"
  using RectBuffer_init_ok [OF assms(1-4)] rect.run_out [OF _ assms(5,6)] by simp

theorem rect_buffer_refines_image_witness:
  "\<exists>rb rb'. RectBuffer_init 2 2 1 (Some [9, 9, 9, 9, 9]) = Inr rb \<and>
     run_ops rb_apply rb [Fill 1 0 1 1 [7], Blit 0 1 2 1 [3, 4]] = Inr rb' \<and> tobytes rb' = [0, 7, 3, 4]"
proof -
  obtain rb where rb: "RectBuffer_init 2 2 1 (Some [9, 9, 9, 9, 9]) = Inr rb"
    by (simp add: RectBuffer_init_def)
  obtain rb' where run: "run_ops rb_apply rb [Fill 1 0 1 1 [7], Blit 0 1 2 1 [3, 4]] = Inr rb'"
    using rect.run_accepted [of rb "[Fill 1 0 1 1 [7], Blit 0 1 2 1 [3, 4]]"]
      RectBuffer_init_ok [OF rb] by auto
  have "tobytes rb' = fold (rb_spec (nat 2, nat 2, nat 1)) [Fill 1 0 1 1 [7], Blit 0 1 2 1 [3, 4]]
      (replicate (nat 2 * nat 2 * nat 1) 0)"
    by (rule rect_buffer_refines_image [OF rb _ _ _ run]) simp_all
  also have "\<dots> = [0, 7, 3, 4]" by code_simp
  finally show ?thesis using rb run by blast
qed

text \<open>\<open>blit\<close> and \<open>fill\<close> raise \<open>DecodeError\<close> exactly for a rectangle that leaves the
  buffer or data of the wrong size, and otherwise succeed; in particular no operation writes
  outside the rectangle's own bytes of the shared backing store.\<close>

lemma rect_buffer_accepts:
  assumes "rb_inv rb"
  shows "if op_accepted (rb_geometry rb) op
    then \<exists>rb'. rb_apply rb op = Inr rb' \<and> rb_inv rb' \<and>
      length (rb_backing rb') = length (rb_backing rb) \<and>
      drop (nat (rb_nbytes rb)) (rb_backing rb') = drop (nat (rb_nbytes rb)) (rb_backing rb)
    else rb_apply rb op = Inl DecodeError"
  using rb_apply_ok [OF assms] rb_apply_refused [OF assms] by (force simp: same_shape_def)

definition sample_buffer :: RectBuffer where
  "sample_buffer = \<lparr>rb_width = 2, rb_height = 1, rb_bypp = 1, rb_backing = [1, 2, 3],
     rb_nbytes = 2, rb_whole = None, rb_covered = True\<rparr>"


lemma pixel_index:
  assumes "px < W" "k < (B :: nat)"
  shows "((py * W + px) * B + k) div (W * B) = py" "((py * W + px) * B + k) mod (W * B) = px * B + k"
proof -
  have "px * B + k < Suc px * B" using assms(2) by simp
  also have "\<dots> \<le> W * B" using assms(1) by (intro mult_le_mono1) simp
  finally have lt: "px * B + k < W * B" .
  have split: "(py * W + px) * B + k = (px * B + k) + py * (W * B)" by (simp add: algebra_simps)
  show "((py * W + px) * B + k) div (W * B) = py" "((py * W + px) * B + k) mod (W * B) = px * B + k"
    unfolding split using lt by (simp_all only: div_mult_self1 mod_mult_self1) auto
qed

lemma pixel_column:
  assumes "k < (B :: nat)"
  shows "x * B \<le> px * B + k \<longleftrightarrow> x \<le> px" "px * B + k < x * B + w * B \<longleftrightarrow> px < x + w"
proof -
  have "x \<le> px" if "x * B \<le> px * B + k"
  proof (rule ccontr)
    assume "\<not> x \<le> px"
    then have "Suc px * B \<le> x * B" by (intro mult_le_mono1) simp
    with that assms show False by simp
  qed
  then show "x * B \<le> px * B + k \<longleftrightarrow> x \<le> px" using mult_le_mono1 [of x px B] trans_le_add1 by blast
  have "px < x + w" if "px * B + k < x * B + w * B"
    using that by (metis add_lessD1 add_mult_distrib mult_less_cancel2)
  moreover have "px * B + k < x * B + w * B" if "px < x + w"
  proof -
    have "Suc px * B \<le> (x + w) * B" using that by (intro mult_le_mono1) simp
    with assms show ?thesis by (simp add: algebra_simps)
  qed
  ultimately show "px * B + k < x * B + w * B \<longleftrightarrow> px < x + w" by blast
qed

text \<open>Pixel by pixel: after a successful \<open>blit\<close>, the pixel at \<open>(px, py)\<close> is the
  corresponding pixel of the data when it lies in the rectangle, and what it was before
  otherwise.\<close>

lemma blit_pixel:
  assumes "rb_inv rb" "rb_geometry rb = (W, H, B)"
    and "blit rb (int x) (int y) (int w) (int h) pixels = Inr rb'"
    and "px < W" "py < H" "k < B"
  shows "tobytes rb' ! ((py * W + px) * B + k) =
    (if x \<le> px \<and> px < x + w \<and> y \<le> py \<and> py < y + h
     then pixels ! (((py - y) * w + (px - x)) * B + k)
     else rb_view rb ! ((py * W + px) * B + k))"
proof -
  let ?i = "(py * W + px) * B + k"
  have "rb_apply rb (Blit (int x) (int y) (int w) (int h) pixels) = Inr rb'" using assms(3) by simp
  note run = rect.op_Inr [OF assms(1) this] rect.out_written
  have "?i < Suc (py * W + px) * B" using assms(6) by simp
  also have "\<dots> \<le> (H * W) * B"
  proof -
    have "Suc (py * W + px) \<le> Suc py * W" using assms(4) by simp
    also have "\<dots> \<le> H * W" using assms(5) by (intro mult_le_mono1) simp
    finally show ?thesis by (rule mult_le_mono1)
  qed
  finally have "?i < length (rb_view rb)"
    using assms(1,2) nat_geometry(1) [OF assms(1) rb_inv_int [OF assms(1)]]
    by (auto simp: length_rb_view rb_geometry_def mult.assoc)
  moreover have "(py - y) * (w * B) + (px * B + k - x * B) = ((py - y) * w + (px - x)) * B + k" if "x \<le> px"
  proof -
    have "px * B + k - x * B = (px - x) * B + k"
      using mult_le_mono1 [OF that, of B] by (simp add: diff_mult_distrib)
    then show ?thesis by (simp add: add_mult_distrib mult.assoc)
  qed
  ultimately show ?thesis
    using run assms(2) pixel_index [OF assms(4,6)] pixel_column [OF assms(6)]
    by (simp add: nth_paint conj_ac)
qed


end
