(* ===== verification/Rfb_State.thy ===== *)
theory Rfb_State
  imports Pixel_Format Rect_Buffer
begin

text \<open>
  The state of \<open>rfb.RFBClient\<close> and the primitives its handlers are built from. A handler
  parked with \<open>expect\<close> is a continuation with its arguments, so it is a value of the datatype
  \<open>handler\<close>; a method a subclass may override is a \<open>callback\<close>, run by a hook function that
  stands for dynamic dispatch; the subclass's own fields are the record's extension.
  Everything the client does to the outside (bytes written, the connection dropped, a callback
  called) is appended to \<open>trace\<close> in the order it happens.

  \<open>client_hooks\<close> is the contract the protocol code relies on from a subclass's callbacks:
  they leave the receive buffer and the parser's own state alone.
\<close>

section \<open>Callbacks and observable actions\<close>

text \<open>Why a connection is failed; the source formats these into a message.\<close>

datatype reason =
    InvalidGreeting bytes | UnknownSecurityTypes "int list" | UnknownAuth int
  | ConnectionRefused bytes | UnknownMessage int | UnknownEncoding int
  | RectTooBig int int int int | CannotDecode exn | NegativeRequest int

datatype auth_reason = AuthText string | AuthBytes bytes

datatype callback =
    VncConnectionMade | VncRequestPassword | VncAuthFailed auth_reason | VncProtocolError reason
  | BeginUpdate | CommitUpdate "rect list"
  | UpdateRectangle int int int int bytes PixelFormat
  | CopyRectangle int int int int int int
  | FillRectangle int int int int "bytes option"
  | UpdateCursor int int int int bytes bytes
  | UpdateDesktopSize int int
  | SetColorMap int "(int \<times> int \<times> int) list"
  | Bell | CopyText string

datatype io = Write bytes | LoseConnection | Call callback

section \<open>Parked handlers\<close>

text \<open>A decoder's generator, by the point it is suspended at.\<close>

datatype gen = RawStart RectBuffer | RawData RectBuffer | CopyRectStart rect | CopyRectData rect

datatype top_handler = HandleInitial | HandleExpected

type_synonym pixel = "bytes option"

datatype handshake_handler =
    NumberSecurityTypes | SecurityTypes | Auth | ConnFailed | ConnMessage
  | VNCAuth | DHAuth | DHAuthKey | DHAuthCert | VNCAuthResult | AuthFailed
  | AuthFailedMessage | ServerInit | ServerName

datatype message_handler =
    Connection | FramebufferUpdate | RectangleHeader
  | ColourMapEntries | ColourMapEntriesValue int | ServerCutText | ServerCutTextValue

datatype rect_handler =
    DecodeRRE int int int int | RRESubRectangles int int
  | DecodeCORRE int int int int | DecodeCORRERectangles int int
  | DecodeZRLE int int int int | DecodeZRLEdata int int int int
  | DecodePsuedoCursor int int int int

text \<open>The arguments a Hextile rectangle carries from tile to tile: the rectangle, and the
  colours inherited from the tile before.\<close>

record hextile =
  hx_bg :: pixel
  hx_color :: pixel
  hx_x :: int
  hx_y :: int
  hx_width :: int
  hx_height :: int

datatype hextile_handler =
    DecodeHextile hextile int int
  | DecodeHextileSubrect int hextile int int int int
  | DecodeHextileRAW hextile int int int int
  | DecodeHextileSubrectsColoured int hextile int int int int
  | DecodeHextileSubrectsFG int hextile int int int int

datatype handler =
    Handshake handshake_handler | Message message_handler | Rectangle rect_handler
  | Hextile hextile_handler | PumpBlock gen "rect option"

section \<open>The client object\<close>

record rfb_client =
  packet :: bytes
  top :: top_handler
  expected_handler :: handler
  expected_len :: int
  already_expecting :: bool
  aborted :: bool
  rfb_version :: ver
  version_server :: ver
  zlib_stream :: "bytes list"
  negotiated_encodings :: "int set"
  pixel_format :: PixelFormat
  fb_width :: int
  fb_height :: int
  rect_backing :: bytes
  rectangles :: int
  rectanglePos :: "rect list"
  server_name :: bytes
  challenge :: bytes
  generator :: int
  keyLen :: int
  modulus :: bytes
  serverKey :: bytes
  factory_username :: "string option"
  factory_password :: "string option"
  factory_shared :: bool
  trace :: "io list"

text \<open>
  What the client calls outside the repository: the ciphers and the Diffie-Hellman exchange of
  \<open>cryptography\<close>, the terminal prompts, and the connection's zlib stream, whose output for
  a block depends on the blocks it was fed before.
\<close>

record env =
  tripledes_ecb :: "bytes \<Rightarrow> bytes \<Rightarrow> exn + bytes"
  dh_exchange :: "int \<Rightarrow> int \<Rightarrow> int \<Rightarrow> exn + bytes \<times> int"
  md5 :: "bytes \<Rightarrow> bytes"
  aes_ecb :: "bytes \<Rightarrow> bytes \<Rightarrow> exn + bytes"
  inflate :: "bytes list \<Rightarrow> bytes \<Rightarrow> exn + bytes"
  prompt_username :: string
  prompt_password :: string

type_synonym 'a client = "'a rfb_client_scheme"
type_synonym 'a hook = "callback \<Rightarrow> 'a rfb_client_scheme \<Rightarrow> 'a rfb_client_scheme outcome"

text \<open>\<open>RFBClient.__init__\<close>, with the factory's fields and the subclass's extension given.\<close>

definition init_client ::
  "string option \<Rightarrow> string option \<Rightarrow> bool \<Rightarrow> 'a \<Rightarrow> 'a client" where
  "init_client uname passwd shrd ext =
     \<lparr>packet = [], top = HandleInitial, expected_handler = Handshake NumberSecurityTypes,
      expected_len = 12, already_expecting = False, aborted = False,
      rfb_version = (0, 0), version_server = (0, 0), zlib_stream = [],
      negotiated_encodings = {ENC_RAW}, pixel_format = default_PixelFormat,
      fb_width = 0, fb_height = 0, rect_backing = [], rectangles = 0, rectanglePos = [],
      server_name = [], challenge = [], generator = 0, keyLen = 0, modulus = [], serverKey = [],
      factory_username = uname, factory_password = passwd, factory_shared = shrd,
      trace = [], \<dots> = ext\<rparr>"

section \<open>Primitives\<close>

definition client_bypp :: "'a client \<Rightarrow> int" where
  "client_bypp s = pf_bypp (pixel_format s)"

definition log_io :: "io \<Rightarrow> 'a client \<Rightarrow> 'a client" where
  "log_io a s = s\<lparr>trace := trace s @ [a]\<rparr>"

definition transport_write :: "exn + bytes \<Rightarrow> 'a client \<Rightarrow> 'a client outcome" where
  "transport_write r s = with_value r s (\<lambda>bs. Ret (log_io (Write bs) s))"

definition loseConnection :: "'a client \<Rightarrow> 'a client" where
  "loseConnection s = log_io LoseConnection s"

definition call :: "'a hook \<Rightarrow> callback \<Rightarrow> 'a client \<Rightarrow> 'a client outcome" where
  "call H cb s = H cb (log_io (Call cb) s)"

text \<open>The assignments of \<open>expect\<close>; the run of the loop that may follow is in \<open>Rfb_Protocol\<close>.\<close>

definition arm :: "handler \<Rightarrow> int \<Rightarrow> 'a client \<Rightarrow> 'a client" where
  "arm h n s = s\<lparr>expected_handler := h, expected_len := n\<rparr>"

text \<open>\<open>vncProtocolError\<close> followed by \<open>loseConnection\<close>, the way most handlers give up.\<close>

definition refuse :: "'a hook \<Rightarrow> reason \<Rightarrow> 'a client \<Rightarrow> 'a client outcome" where
  "refuse H r s = and_then (call H (VncProtocolError r) s) (\<lambda>s. Ret (loseConnection s))"

definition abortConnection :: "'a hook \<Rightarrow> reason \<Rightarrow> 'a client \<Rightarrow> 'a client outcome" where
  "abortConnection H r s = refuse H r (s\<lparr>aborted := True, packet := []\<rparr>)"

section \<open>Bytes that arrive later\<close>

text \<open>More data at the end of the receive buffer; an aborted client drops it.\<close>

definition extend :: "bytes \<Rightarrow> 'a client \<Rightarrow> 'a client" where
  "extend q s = (if aborted s then s else s\<lparr>packet := packet s @ q\<rparr>)"

lemma extend_fields [simp]:
  "top (extend q s) = top s" "expected_handler (extend q s) = expected_handler s"
  "expected_len (extend q s) = expected_len s" "already_expecting (extend q s) = already_expecting s"
  "aborted (extend q s) = aborted s" "rfb_version (extend q s) = rfb_version s"
  "version_server (extend q s) = version_server s" "zlib_stream (extend q s) = zlib_stream s"
  "negotiated_encodings (extend q s) = negotiated_encodings s"
  "pixel_format (extend q s) = pixel_format s" "fb_width (extend q s) = fb_width s"
  "fb_height (extend q s) = fb_height s" "rect_backing (extend q s) = rect_backing s"
  "rectangles (extend q s) = rectangles s" "rectanglePos (extend q s) = rectanglePos s"
  "server_name (extend q s) = server_name s"
  "challenge (extend q s) = challenge s" "generator (extend q s) = generator s"
  "keyLen (extend q s) = keyLen s" "modulus (extend q s) = modulus s"
  "serverKey (extend q s) = serverKey s" "factory_username (extend q s) = factory_username s"
  "factory_password (extend q s) = factory_password s" "factory_shared (extend q s) = factory_shared s"
  "trace (extend q s) = trace s"
  by (simp_all add: extend_def)

lemma extend_updates [simp]:
  "(extend q s)\<lparr>trace := t\<rparr> = extend q (s\<lparr>trace := t\<rparr>)"
  "(extend q s)\<lparr>expected_handler := h\<rparr> = extend q (s\<lparr>expected_handler := h\<rparr>)"
  "(extend q s)\<lparr>expected_len := n\<rparr> = extend q (s\<lparr>expected_len := n\<rparr>)"
  "(extend q s)\<lparr>already_expecting := b\<rparr> = extend q (s\<lparr>already_expecting := b\<rparr>)"
  "(extend q s)\<lparr>zlib_stream := z\<rparr> = extend q (s\<lparr>zlib_stream := z\<rparr>)"
  "(extend q s)\<lparr>negotiated_encodings := e\<rparr> = extend q (s\<lparr>negotiated_encodings := e\<rparr>)"
  "(extend q s)\<lparr>pixel_format := pf\<rparr> = extend q (s\<lparr>pixel_format := pf\<rparr>)"
  "(extend q s)\<lparr>fb_width := n\<rparr> = extend q (s\<lparr>fb_width := n\<rparr>)"
  "(extend q s)\<lparr>fb_height := n\<rparr> = extend q (s\<lparr>fb_height := n\<rparr>)"
  "(extend q s)\<lparr>rect_backing := bs\<rparr> = extend q (s\<lparr>rect_backing := bs\<rparr>)"
  "(extend q s)\<lparr>rectangles := n\<rparr> = extend q (s\<lparr>rectangles := n\<rparr>)"
  "(extend q s)\<lparr>rectanglePos := ps\<rparr> = extend q (s\<lparr>rectanglePos := ps\<rparr>)"
  "(extend q s)\<lparr>server_name := bs\<rparr> = extend q (s\<lparr>server_name := bs\<rparr>)"
  "(extend q s)\<lparr>challenge := bs\<rparr> = extend q (s\<lparr>challenge := bs\<rparr>)"
  "(extend q s)\<lparr>generator := n\<rparr> = extend q (s\<lparr>generator := n\<rparr>)"
  "(extend q s)\<lparr>keyLen := n\<rparr> = extend q (s\<lparr>keyLen := n\<rparr>)"
  "(extend q s)\<lparr>modulus := bs\<rparr> = extend q (s\<lparr>modulus := bs\<rparr>)"
  "(extend q s)\<lparr>serverKey := bs\<rparr> = extend q (s\<lparr>serverKey := bs\<rparr>)"
  "(extend q s)\<lparr>factory_username := u\<rparr> = extend q (s\<lparr>factory_username := u\<rparr>)"
  "(extend q s)\<lparr>factory_password := u\<rparr> = extend q (s\<lparr>factory_password := u\<rparr>)"
  by (simp_all add: extend_def)

lemma extend_aborted [simp]: "aborted s \<Longrightarrow> extend q s = s"
  by (simp add: extend_def)

lemma extend_extend [simp]: "extend r (extend q s) = extend (q @ r) s"
  by (simp add: extend_def)

lemma extend_Nil [simp]: "extend [] s = s"
  by (simp add: extend_def)

text \<open>An operation that never looks at the unread bytes commutes with their arrival.\<close>

lemma client_bypp_extend [simp]: "client_bypp (extend q s) = client_bypp s"
  by (simp add: client_bypp_def)

lemma log_io_extend [simp]: "log_io a (extend q s) = extend q (log_io a s)"
  by (simp add: log_io_def)

lemma loseConnection_extend [simp]: "loseConnection (extend q s) = extend q (loseConnection s)"
  by (simp add: loseConnection_def)

lemma arm_extend [simp]: "arm h n (extend q s) = extend q (arm h n s)"
  by (simp add: arm_def)

text \<open>One rule per construct of an operation's body.\<close>

lemma and_then_frame:
  "r' = map_outcome (extend q) r \<Longrightarrow> (\<And>t. k' (extend q t) = map_outcome (extend q) (k t)) \<Longrightarrow>
     and_then r' k' = map_outcome (extend q) (and_then r k)"
  by (cases r) simp_all

lemma with_value_frame:
  "r' = r \<Longrightarrow> s' = extend q s \<Longrightarrow> (\<And>v. r = Inr v \<Longrightarrow> k' v = map_outcome (extend q) (k v)) \<Longrightarrow>
     with_value r' s' k' = map_outcome (extend q) (with_value r s k)"
  by (cases r) simp_all

lemma Ret_frame: "s' = extend q s \<Longrightarrow> Ret s' = map_outcome (extend q) (Ret s)"
  by simp

lemma Raise_frame: "s' = extend q s \<Longrightarrow> Raise e s' = map_outcome (extend q) (Raise e s)"
  by simp

lemma if_frame:
  "b' = b \<Longrightarrow> (b \<Longrightarrow> x' = map_outcome (extend q) x) \<Longrightarrow> (\<not> b \<Longrightarrow> y' = map_outcome (extend q) y) \<Longrightarrow>
     (if b' then x' else y') = map_outcome (extend q) (if b then x else y)"
  by simp

lemma case_prod_frame:
  "p' = p \<Longrightarrow> (\<And>a b. f' a b = map_outcome (extend q) (f a b)) \<Longrightarrow>
     (case p' of (a, b) \<Rightarrow> f' a b) = map_outcome (extend q) (case p of (a, b) \<Rightarrow> f a b)"
  by (cases p) simp

lemma case_option_frame:
  "v' = v \<Longrightarrow> x' = map_outcome (extend q) x \<Longrightarrow> (\<And>a. f' a = map_outcome (extend q) (f a)) \<Longrightarrow>
     (case v' of None \<Rightarrow> x' | Some a \<Rightarrow> f' a) = map_outcome (extend q) (case v of None \<Rightarrow> x | Some a \<Rightarrow> f a)"
  by (cases v) simp_all

lemmas frame_intros = and_then_frame with_value_frame Ret_frame Raise_frame if_frame case_prod_frame
  case_option_frame

lemma transport_write_extend [framing]:
  "transport_write r (extend q s) = map_outcome (extend q) (transport_write r s)"
  unfolding transport_write_def by (intro frame_intros) simp_all

section \<open>The contract of the callbacks\<close>

text \<open>What the receive loop and its handlers own.\<close>

definition parser_state ::
  "'a client \<Rightarrow> bytes \<times> top_handler \<times> handler \<times> int \<times> bool \<times> bool \<times> int \<times> int \<times> rect list" where
  "parser_state s = (packet s, top s, expected_handler s, expected_len s, already_expecting s,
     aborted s, keyLen s, rectangles s, rectanglePos s)"

text \<open>
  A callback leaves the receive loop's state alone, does not look at the bytes that have not
  been handled yet, and leaves a pixel format that has a size.
\<close>

locale client_hooks =
  fixes H :: "'a hook"
  assumes hook_frame: "H cb (extend q s) = map_outcome (extend q) (H cb s)"
    and hook_keeps: "parser_state (final (H cb s)) = parser_state s"
    and hook_bypp: "0 \<le> client_bypp s \<Longrightarrow> 0 \<le> client_bypp (final (H cb s))"
begin

lemma call_frame [framing]: "call H cb (extend q s) = map_outcome (extend q) (call H cb s)"
  by (simp add: call_def hook_frame)

lemma refuse_frame [framing]: "refuse H r (extend q s) = map_outcome (extend q) (refuse H r s)"
  unfolding refuse_def by (intro frame_intros) (simp_all add: framing)

lemma abortConnection_frame [framing]:
  "abortConnection H r (extend q s) = map_outcome (extend q) (abortConnection H r s)"
proof -
  have "(extend q s)\<lparr>aborted := True, packet := []\<rparr> = extend q (s\<lparr>aborted := True, packet := []\<rparr>)"
    by (simp add: extend_def)
  then show ?thesis unfolding abortConnection_def by (simp only: refuse_frame)
qed

end

section \<open>What a handler leaves behind\<close>

text \<open>A postcondition on either end of an operation, with one rule per construct.\<close>

fun ends :: "(exn option \<Rightarrow> 's \<Rightarrow> bool) \<Rightarrow> 's outcome \<Rightarrow> bool" where
  "ends Q (Ret t) = Q None t"
| "ends Q (Raise e t) = Q (Some e) t"

lemma ends_and_then:
  "ends (\<lambda>e t. if e = None then ends Q (k t) else Q e t) r \<Longrightarrow> ends Q (and_then r k)"
  by (cases r) simp_all

lemma ends_with_value:
  "(\<And>e. r = Inl e \<Longrightarrow> Q (Some e) s) \<Longrightarrow> (\<And>v. r = Inr v \<Longrightarrow> ends Q (k v)) \<Longrightarrow> ends Q (with_value r s k)"
  by (cases r) simp_all

lemma ends_weaken: "ends P r \<Longrightarrow> (\<And>e t. P e t \<Longrightarrow> Q e t) \<Longrightarrow> ends Q r"
  by (cases r) simp_all

lemma ends_transport_write:
  "(\<And>e. Q (Some e) s) \<Longrightarrow> (\<And>bs. Q None (log_io (Write bs) s)) \<Longrightarrow> ends Q (transport_write r s)"
  unfolding transport_write_def by (rule ends_with_value) simp_all

text \<open>
  Handlers that can be parked for zero bytes, by how many zero-byte steps can follow before one
  that takes bytes. The two that report the server's reason for refusing never re-arm.
\<close>

fun rank :: "handler \<Rightarrow> nat" where
  "rank (Handshake DHAuthKey) = 2"
| "rank (Handshake DHAuthCert) = 1"
| "rank (Handshake ConnMessage) = 1"
| "rank (Handshake AuthFailedMessage) = 1"
| "rank (Handshake ServerName) = 1"
| "rank (Message (ColourMapEntriesValue _)) = 1"
| "rank (Message ServerCutTextValue) = 1"
| "rank (Rectangle (DecodeZRLEdata _ _ _ _)) = 1"
| "rank (Rectangle (DecodePsuedoCursor _ _ _ _)) = 1"
| "rank (Hextile (DecodeHextileRAW _ _ _ _ _)) = 1"
| "rank (PumpBlock _ _) = 1"
| "rank _ = 0"

text \<open>Handlers of an established session; the handshake is never entered again.\<close>

fun session :: "handler \<Rightarrow> bool" where
  "session (Handshake _) = False"
| "session _ = True"

definition reports_reason :: "handler \<Rightarrow> bool" where
  "reports_reason h \<longleftrightarrow> h = Handshake ConnMessage \<or> h = Handshake AuthFailedMessage"

text \<open>A Hextile tile lies in its rectangle.\<close>

definition tile_ok :: "hextile \<Rightarrow> int \<Rightarrow> int \<Rightarrow> bool" where
  "tile_ok hx tx ty \<longleftrightarrow> 0 \<le> hx_width hx \<and> (tx = hx_x hx \<or> tx < hx_x hx + hx_width hx) \<and>
     ty < hx_y hx + hx_height hx"

fun handler_ok :: "handler \<Rightarrow> bool" where
  "handler_ok (Hextile (DecodeHextile hx tx ty)) = tile_ok hx tx ty"
| "handler_ok (Hextile (DecodeHextileSubrect _ hx _ _ _ _)) = (0 \<le> hx_width hx)"
| "handler_ok (Hextile (DecodeHextileRAW hx _ _ _ _)) = (0 \<le> hx_width hx)"
| "handler_ok (Hextile (DecodeHextileSubrectsColoured _ hx _ _ _ _)) = (0 \<le> hx_width hx)"
| "handler_ok (Hextile (DecodeHextileSubrectsFG _ hx _ _ _ _)) = (0 \<le> hx_width hx)"
| "handler_ok (PumpBlock g _) = (case g of RawData _ \<Rightarrow> True | CopyRectData _ \<Rightarrow> True | _ \<Rightarrow> False)"
| "handler_ok _ = True"

definition sized :: "'a client \<Rightarrow> bool" where
  "sized s \<longleftrightarrow> 0 \<le> client_bypp s \<and> 0 \<le> keyLen s"

definition armed :: "'a client \<Rightarrow> bool" where
  "armed s \<longleftrightarrow> handler_ok (expected_handler s) \<and> 0 \<le> expected_len s \<and>
     (expected_len s = 0 \<longrightarrow> 0 < rank (expected_handler s))"

text \<open>
  \<open>settles h s\<close>: a run of handler \<open>h\<close> from \<open>s\<close> leaves the receive buffer alone unless it
  aborts, and either stays parked where it was (only a handler that gives the connection up does,
  and only one that takes bytes or reports a reason) or is parked on a well-formed handler; a
  handler that may have taken no byte is followed by one of lower rank. One that raises stays parked.
\<close>

definition keeps_stream :: "'a client \<Rightarrow> 'a client \<Rightarrow> bool" where
  "keeps_stream s t \<longleftrightarrow> top t = top s \<and> already_expecting t = already_expecting s \<and> (sized s \<longrightarrow> sized t) \<and>
     (aborted t \<and> packet t = [] \<or> aborted t = aborted s \<and> packet t = packet s)"

definition leaves :: "'a client \<Rightarrow> 'a client \<Rightarrow> bool" where
  "leaves s t \<longleftrightarrow> keeps_stream s t \<and> expected_handler t = expected_handler s \<and> expected_len t = expected_len s"

definition stays :: "handler \<Rightarrow> 'a client \<Rightarrow> 'a client \<Rightarrow> bool" where
  "stays h s t \<longleftrightarrow> (rank h = 0 \<or> reports_reason h) \<and>
     expected_handler t = expected_handler s \<and> expected_len t = expected_len s"

definition moves :: "handler \<Rightarrow> 'a client \<Rightarrow> bool" where
  "moves h t \<longleftrightarrow> armed t \<and> (0 < rank h \<longrightarrow> rank (expected_handler t) < rank h) \<and>
     (session h \<longrightarrow> session (expected_handler t))"

definition settles :: "handler \<Rightarrow> 'a client \<Rightarrow> exn option \<Rightarrow> 'a client \<Rightarrow> bool" where
  "settles h s e t \<longleftrightarrow> keeps_stream s t \<and> (sized s \<and> e = None \<longrightarrow> aborted t \<or> stays h s t \<or> moves h t) \<and>
     (e \<noteq> None \<longrightarrow> leaves s t)"

lemmas leaving_defs = settles_def leaves_def keeps_stream_def stays_def moves_def

text \<open>The parts of a run of a handler, ending in one of its four ways.\<close>

definition undisturbed :: "'a client \<Rightarrow> 'a client \<Rightarrow> bool" where
  "undisturbed s t \<longleftrightarrow> parser_state t = parser_state s \<and> (0 \<le> client_bypp s \<longrightarrow> 0 \<le> client_bypp t)"

lemma undisturbed_refl [simp, intro]: "undisturbed s s"
  by (simp add: undisturbed_def)

lemma undisturbed_trans [trans]: "undisturbed s t \<Longrightarrow> undisturbed t u \<Longrightarrow> undisturbed s u"
  by (simp add: undisturbed_def)

lemma undisturbed_io [simp]:
  "undisturbed s (log_io a t) = undisturbed s t" "undisturbed (log_io a s) t = undisturbed s t"
  "undisturbed s (loseConnection t) = undisturbed s t" "undisturbed (loseConnection s) t = undisturbed s t"
  by (simp_all add: undisturbed_def parser_state_def client_bypp_def log_io_def loseConnection_def)

lemma undisturbed_update [simp]:
  "undisturbed s (t\<lparr>challenge := bs\<rparr>) = undisturbed s t" "undisturbed (s\<lparr>challenge := bs\<rparr>) t = undisturbed s t"
  "undisturbed s (t\<lparr>modulus := bs\<rparr>) = undisturbed s t" "undisturbed (s\<lparr>modulus := bs\<rparr>) t = undisturbed s t"
  "undisturbed s (t\<lparr>serverKey := bs\<rparr>) = undisturbed s t" "undisturbed (s\<lparr>serverKey := bs\<rparr>) t = undisturbed s t"
  "undisturbed s (t\<lparr>server_name := bs\<rparr>) = undisturbed s t" "undisturbed (s\<lparr>server_name := bs\<rparr>) t = undisturbed s t"
  "undisturbed s (t\<lparr>generator := n\<rparr>) = undisturbed s t" "undisturbed (s\<lparr>generator := n\<rparr>) t = undisturbed s t"
  "undisturbed s (t\<lparr>rect_backing := bs\<rparr>) = undisturbed s t" "undisturbed (s\<lparr>rect_backing := bs\<rparr>) t = undisturbed s t"
  "undisturbed s (t\<lparr>zlib_stream := z\<rparr>) = undisturbed s t" "undisturbed (s\<lparr>zlib_stream := z\<rparr>) t = undisturbed s t"
  "undisturbed s (t\<lparr>negotiated_encodings := es\<rparr>) = undisturbed s t"
  "undisturbed s (t\<lparr>factory_username := u\<rparr>) = undisturbed s t"
  "undisturbed s (t\<lparr>factory_password := u\<rparr>) = undisturbed s t"
  by (simp_all add: undisturbed_def parser_state_def client_bypp_def)

lemma leaves_undisturbed: "undisturbed s t \<Longrightarrow> leaves s t"
  by (simp add: undisturbed_def parser_state_def leaves_def keeps_stream_def sized_def)

lemma leaves_trans [trans]: "leaves s t \<Longrightarrow> leaves t u \<Longrightarrow> leaves s u"
  by (auto simp: leaves_def keeps_stream_def)

lemma leaves_update [simp]:
  "leaves s (log_io a t) = leaves s t"
  "leaves s (t\<lparr>fb_width := i\<rparr>) = leaves s t" "leaves s (t\<lparr>fb_height := i\<rparr>) = leaves s t"
  "leaves s (t\<lparr>rectangles := i\<rparr>) = leaves s t" "leaves s (t\<lparr>rectanglePos := ps\<rparr>) = leaves s t"
  "leaves s (t\<lparr>generator := i\<rparr>) = leaves s t"
  by (simp_all add: leaves_def keeps_stream_def sized_def client_bypp_def log_io_def)

lemma leaves_keyLen: "leaves s t \<Longrightarrow> 0 \<le> n \<Longrightarrow> leaves s (t\<lparr>keyLen := n\<rparr>)"
  by (simp add: leaves_def keeps_stream_def sized_def client_bypp_def)

lemma leaves_pixel_format: "leaves s t \<Longrightarrow> 0 \<le> pf_bypp pf \<Longrightarrow> leaves s (t\<lparr>pixel_format := pf\<rparr>)"
  by (simp add: leaves_def keeps_stream_def sized_def client_bypp_def)

lemma settles_io [simp]:
  "settles h s e (log_io a t) = settles h s e t" "settles h s e (loseConnection t) = settles h s e t"
  by (simp_all add: leaving_defs sized_def client_bypp_def armed_def
      log_io_def loseConnection_def)

lemma settles_stay: "undisturbed s t \<Longrightarrow> rank h = 0 \<or> reports_reason h \<Longrightarrow> settles h s e t"
  using leaves_undisturbed [of s t]
  by (simp add: settles_def leaves_def stays_def)

lemma settles_raise: "leaves s t \<Longrightarrow> settles h s (Some e) t"
  by (simp add: settles_def leaves_def)

lemma keeps_stream_arm [simp]: "keeps_stream s (arm h n t) = keeps_stream s t"
  by (simp add: keeps_stream_def sized_def client_bypp_def arm_def)

lemma settles_arm:
  assumes "leaves s t" "handler_ok h'" "sized s \<Longrightarrow> 0 \<le> n" "sized s \<Longrightarrow> n = 0 \<Longrightarrow> 0 < rank h'"
    and "0 < rank h \<Longrightarrow> rank h' < rank h" "session h \<Longrightarrow> session h'"
  shows "settles h s None (arm h' n t)"
proof -
  have "sized s \<Longrightarrow> moves h (arm h' n t)"
    using assms(2-) by (simp add: moves_def armed_def arm_def)
  with assms(1) show ?thesis by (simp add: settles_def leaves_def)
qed

lemma ends_if: "(b \<Longrightarrow> ends Q x) \<Longrightarrow> (\<not> b \<Longrightarrow> ends Q y) \<Longrightarrow> ends Q (if b then x else y)"
  by simp

lemma ends_None: "(e = None \<Longrightarrow> P) \<Longrightarrow> (e \<noteq> None \<Longrightarrow> Q) \<Longrightarrow> if e = None then P else Q"
  by simp

lemma ends_case_option:
  "(v = None \<Longrightarrow> ends Q x) \<Longrightarrow> (\<And>a. v = Some a \<Longrightarrow> ends Q (f a)) \<Longrightarrow>
     ends Q (case v of None \<Rightarrow> x | Some a \<Rightarrow> f a)"
  by (cases v) simp_all

lemma ends_case_prod: "(\<And>a b. p = (a, b) \<Longrightarrow> ends Q (f a b)) \<Longrightarrow> ends Q (case p of (a, b) \<Rightarrow> f a b)"
  by (cases p) simp

lemma ends_case_list:
  "(v = [] \<Longrightarrow> ends Q x) \<Longrightarrow> (\<And>a as. v = a # as \<Longrightarrow> ends Q (f a as)) \<Longrightarrow>
     ends Q (case v of [] \<Rightarrow> x | a # as \<Rightarrow> f a as)"
  by (cases v) simp_all

lemma ends_Ret: "Q None t \<Longrightarrow> ends Q (Ret t)"
  by simp

lemma ends_Raise: "Q (Some e) t \<Longrightarrow> ends Q (Raise e t)"
  by simp

lemmas ends_intros = ends_and_then ends_with_value ends_transport_write ends_if ends_None
  ends_case_option ends_case_prod ends_case_list ends_Ret ends_Raise

context client_hooks
begin

lemma ends_call:
  assumes "\<And>e t. undisturbed s t \<Longrightarrow> Q e t"
  shows "ends Q (call H cb s)"
proof -
  let ?s = "log_io (Call cb) s"
  have "undisturbed ?s (final (H cb ?s))"
    using hook_keeps hook_bypp by (simp add: undisturbed_def)
  then show ?thesis
    using assms unfolding call_def by (cases "H cb ?s") simp_all
qed

lemma ends_refuse:
  assumes "\<And>e t. undisturbed s t \<Longrightarrow> Q e t"
  shows "ends Q (refuse H r s)"
  unfolding refuse_def by (intro ends_intros ends_call) (simp_all add: assms)

lemma ends_abortConnection:
  assumes "\<And>e t. aborted t \<Longrightarrow> leaves s t \<Longrightarrow> Q e t"
  shows "ends Q (abortConnection H r s)"
  unfolding abortConnection_def
  by (intro ends_refuse assms)
    (auto simp: undisturbed_def parser_state_def leaves_def keeps_stream_def sized_def client_bypp_def)

end

end
