(* ===== verification/Rfb_Handshake.thy ===== *)
theory Rfb_Handshake
  imports Rfb_State
begin

text \<open>
  The start of a connection (\<open>rfb.py\<close>, "states used on connection startup"): version
  negotiation, the choice of a security type, the VNC and Apple Remote Desktop authentications,
  the server's initialisation message; and the callbacks' default bodies in \<open>RFBClient\<close>.

  A handler runs only from the receive loop, which holds \<open>_already_expecting\<close>, so its
  \<open>expect\<close> is exactly \<open>arm\<close> (shown with \<open>expect\<close> itself in \<open>Rfb_Protocol\<close>).
\<close>

section \<open>Version negotiation\<close>

definition SUPPORTED_SERVER_VERSIONS :: "ver list" where
  "SUPPORTED_SERVER_VERSIONS = [(3, 3), (3, 7), (3, 8), (3, 889), (4, 0), (4, 1), (5, 0)]"

definition MAX_CLIENT_VERSION :: ver where
  "MAX_CLIENT_VERSION = (3, 8)"

text \<open>\<open>max(...)\<close> of an empty generator is a \<open>ValueError\<close>.\<close>

definition negotiate_version :: "ver \<Rightarrow> exn + ver" where
  "negotiate_version sv =
     (case filter (\<lambda>v. v \<le> sv) SUPPORTED_SERVER_VERSIONS of
        [] \<Rightarrow> Inl ValueError
      | v # vs \<Rightarrow> let version = fold max vs v in
          Inr (if version > MAX_CLIENT_VERSION then MAX_CLIENT_VERSION else version))"

definition ascii :: "string \<Rightarrow> bytes" where
  "ascii cs = map of_char cs"

definition HEADER :: bytes where
  "HEADER = ascii ''RFB 000.000'' @ [10]"

definition is_digit :: "byte \<Rightarrow> bool" where
  "is_digit b \<longleftrightarrow> 48 \<le> uint b \<and> uint b \<le> 57"

definition header_translate :: "bytes \<Rightarrow> bytes" where
  "header_translate head = map (\<lambda>b. if is_digit b then 48 else b) head"

text \<open>\<open>int(digits)\<close> of ASCII digits, and \<open>"%03d"\<close>.\<close>

definition decimal :: "bytes \<Rightarrow> int" where
  "decimal bs = foldl (\<lambda>a b. a * 10 + (uint b - 48)) 0 bs"

definition format_03d :: "int \<Rightarrow> bytes" where
  "format_03d n = (let cs = ascii (show_nat (nat n)) in replicate (3 - length cs) 48 @ cs)"

definition format_version :: "ver \<Rightarrow> bytes" where
  "format_version v = ascii ''RFB '' @ format_03d (fst v) @ [46] @ format_03d (snd v) @ [10]"

definition greeting_version :: "bytes \<Rightarrow> ver" where
  "greeting_version head = (decimal (py_slice 4 7 head), decimal (py_slice 8 11 head))"

section \<open>Password encryption\<close>

definition reverse_byte :: "byte \<Rightarrow> byte" where
  "reverse_byte k = sum_list (map (\<lambda>i. if and k (push_bit i 1) \<noteq> 0 then drop_bit i 128 else 0) [0..<8])"

definition reverse_bits :: "bytes \<Rightarrow> bytes" where
  "reverse_bits data = map reverse_byte data"

text \<open>\<open>f"{s:\0<n}"\<close> pads with NUL on the right and never truncates.\<close>

definition nul_pad :: "nat \<Rightarrow> string \<Rightarrow> string" where
  "nul_pad n cs = cs @ replicate (n - length cs) (char_of (0 :: nat))"

definition encode_ascii :: "string \<Rightarrow> exn + bytes" where
  "encode_ascii cs = (if list_all (\<lambda>c. of_char c < (128 :: nat)) cs then Inr (ascii cs) else Inl UnicodeError)"

text \<open>\<open>str.encode("utf-8")\<close> for code points below 256.\<close>

definition encode_utf8 :: "string \<Rightarrow> bytes" where
  "encode_utf8 cs = concat (map (\<lambda>c. let n = of_char c :: nat in
     if n < 128 then [of_nat n] else [of_nat (192 + n div 64), of_nat (128 + n mod 64)]) cs)"

definition vnc_des :: "string \<Rightarrow> exn + bytes" where
  "vnc_des password = bind_sum (encode_ascii (nul_pad 8 (take 8 password))) (\<lambda>key. Inr (reverse_bits key))"

definition des_encrypt :: "env \<Rightarrow> bytes \<Rightarrow> bytes \<Rightarrow> exn + bytes" where
  "des_encrypt env key data = tripledes_ecb env (py_repeat key 3) data"

definition sendPassword :: "env \<Rightarrow> string \<Rightarrow> 'a client \<Rightarrow> 'a client outcome" where
  "sendPassword env password s =
     transport_write (bind_sum (vnc_des password) (\<lambda>key. des_encrypt env key (challenge s))) s"

section \<open>The default callbacks\<close>

text \<open>\<open>fillRectangle\<close> of \<open>RFBClient\<close> goes through \<open>updateRectangle\<close>; the colour
  \<open>None\<close>, a Hextile background that was never set, cannot be multiplied.\<close>

definition default_fillRectangle ::
  "'a hook \<Rightarrow> int \<Rightarrow> int \<Rightarrow> int \<Rightarrow> int \<Rightarrow> pixel \<Rightarrow> 'a client \<Rightarrow> 'a client outcome" where
  "default_fillRectangle H x y width height color s =
     (case color of
        None \<Rightarrow> Raise TypeError s
      | Some c \<Rightarrow> call H (UpdateRectangle x y width height (py_repeat (py_repeat c width) height) (pixel_format s)) s)"

definition default_vncRequestPassword :: "env \<Rightarrow> 'a client \<Rightarrow> 'a client outcome" where
  "default_vncRequestPassword env s =
     (case factory_password s of
        None \<Rightarrow> Ret (loseConnection s)
      | Some password \<Rightarrow> sendPassword env password s)"

text \<open>\<open>RFBClient\<close> used without a subclass.\<close>

definition base_hooks :: "env \<Rightarrow> 'a hook" where
  "base_hooks env cb s =
     (case cb of
        VncRequestPassword \<Rightarrow> default_vncRequestPassword env s
      | FillRectangle x y width height color \<Rightarrow>
          default_fillRectangle (\<lambda>_. Ret) x y width height color s
      | _ \<Rightarrow> Ret s)"

section \<open>Handlers\<close>

definition doClientInitialization :: "'a client \<Rightarrow> 'a client outcome" where
  "doClientInitialization s =
     and_then (transport_write (struct_pack ''!B'' [PBool (factory_shared s)]) s) (\<lambda>s.
     Ret (arm (Handshake ServerInit) 24 s))"

definition handleNumberSecurityTypes :: "bytes \<Rightarrow> 'a client \<Rightarrow> 'a client outcome" where
  "handleNumberSecurityTypes block s =
     with_value (unpack1 ''!B'' block) s (\<lambda>num_types.
       if num_types \<noteq> 0 then Ret (arm (Handshake SecurityTypes) num_types s)
       else Ret (arm (Handshake ConnFailed) 4 s))"

definition SUPPORTED_AUTHS :: "int list" where
  "SUPPORTED_AUTHS = [AUTH_NONE, AUTH_VNC_AUTHENTICATION, AUTH_DIFFIE_HELLMAN]"

definition handleSecurityTypes :: "'a hook \<Rightarrow> bytes \<Rightarrow> 'a client \<Rightarrow> 'a client outcome" where
  "handleSecurityTypes H block s =
     with_value (struct_unpack (CHR ''!'' # show_nat (length block) @ ''B'') block) s (\<lambda>vs.
       let types = map pint vs; valid_types = filter (\<lambda>t. t \<in> set SUPPORTED_AUTHS) types in
       case valid_types of
         [] \<Rightarrow> refuse H (UnknownSecurityTypes types) s
       | t # ts \<Rightarrow>
           let sec_type = fold max ts t in
           and_then (transport_write (struct_pack ''!B'' [PInt sec_type]) s) (\<lambda>s.
           if sec_type = AUTH_NONE then
             if rfb_version s < (3, 8) then doClientInitialization s
             else Ret (arm (Handshake VNCAuthResult) 4 s)
           else if sec_type = AUTH_VNC_AUTHENTICATION then Ret (arm (Handshake VNCAuth) 16 s)
           else if sec_type = AUTH_DIFFIE_HELLMAN then Ret (arm (Handshake DHAuth) 4 s)
           else Ret s))"

definition handleAuth :: "'a hook \<Rightarrow> bytes \<Rightarrow> 'a client \<Rightarrow> 'a client outcome" where
  "handleAuth H block s =
     with_value (unpack1 ''!I'' block) s (\<lambda>auth.
       if auth = AUTH_INVALID then Ret (arm (Handshake ConnFailed) 4 s)
       else if auth = AUTH_NONE then doClientInitialization s
       else if auth = AUTH_VNC_AUTHENTICATION then Ret (arm (Handshake VNCAuth) 16 s)
       else refuse H (UnknownAuth auth) s)"

definition handleConnFailed :: "bytes \<Rightarrow> 'a client \<Rightarrow> 'a client outcome" where
  "handleConnFailed block s =
     with_value (unpack1 ''!I'' block) s (\<lambda>waitfor. Ret (arm (Handshake ConnMessage) waitfor s))"

definition handleConnMessage :: "'a hook \<Rightarrow> bytes \<Rightarrow> 'a client \<Rightarrow> 'a client outcome" where
  "handleConnMessage H block s = refuse H (ConnectionRefused block) s"

definition handleVNCAuth :: "'a hook \<Rightarrow> bytes \<Rightarrow> 'a client \<Rightarrow> 'a client outcome" where
  "handleVNCAuth H block s =
     and_then (call H VncRequestPassword (s\<lparr>challenge := block\<rparr>)) (\<lambda>s.
     Ret (arm (Handshake VNCAuthResult) 4 s))"

definition handleDHAuth :: "bytes \<Rightarrow> 'a client \<Rightarrow> 'a client outcome" where
  "handleDHAuth block s =
     with_value (unpack2 ''!HH'' block) s (\<lambda>(g, n).
       Ret (arm (Handshake DHAuthKey) n (s\<lparr>generator := g, keyLen := n\<rparr>)))"

definition handleDHAuthKey :: "bytes \<Rightarrow> 'a client \<Rightarrow> 'a client outcome" where
  "handleDHAuthKey block s = Ret (arm (Handshake DHAuthCert) (keyLen s) (s\<lparr>modulus := block\<rparr>))"

definition ardRequestCredentials :: "env \<Rightarrow> 'a client \<Rightarrow> 'a client" where
  "ardRequestCredentials env s =
     (let s = (if factory_username s = None then s\<lparr>factory_username := Some (prompt_username env)\<rparr> else s)
      in if factory_password s = None then s\<lparr>factory_password := Some (prompt_password env)\<rparr> else s)"

text \<open>\<open>int.to_bytes(n, "big")\<close> raises when the number does not fit.\<close>

definition int_to_bytes :: "int \<Rightarrow> int \<Rightarrow> exn + bytes" where
  "int_to_bytes v n = (if 0 \<le> v \<and> v < 256 ^ nat n then Inr (to_be (nat n) v) else Inl OverflowError)"

text \<open>Formatting \<open>None\<close> with a width is a \<open>TypeError\<close>.\<close>

definition format_user :: "string option \<Rightarrow> exn + string" where
  "format_user v = (case v of None \<Rightarrow> Inl TypeError | Some cs \<Rightarrow> Inr (nul_pad 64 cs))"

definition encryptArd :: "env \<Rightarrow> 'a client \<Rightarrow> 'a client outcome" where
  "encryptArd env s = transport_write
     (bind_sum (format_user (factory_username s)) (\<lambda>user.
      bind_sum (format_user (factory_password s)) (\<lambda>passwd.
      bind_sum (dh_exchange env (from_be (modulus s)) (generator s) (from_be (serverKey s))) (\<lambda>(shared_key, y).
      bind_sum (aes_ecb env (md5 env shared_key) (encode_utf8 (user @ passwd))) (\<lambda>ciphertext.
      bind_sum (int_to_bytes y (keyLen s)) (\<lambda>y. Inr (ciphertext @ y))))))) s"

definition handleDHAuthCert :: "env \<Rightarrow> bytes \<Rightarrow> 'a client \<Rightarrow> 'a client outcome" where
  "handleDHAuthCert env block s =
     and_then (encryptArd env (ardRequestCredentials env (s\<lparr>serverKey := block\<rparr>))) (\<lambda>s.
     Ret (arm (Handshake VNCAuthResult) 4 s))"

definition handleVNCAuthResult :: "'a hook \<Rightarrow> bytes \<Rightarrow> 'a client \<Rightarrow> 'a client outcome" where
  "handleVNCAuthResult H block s =
     with_value (unpack1 ''!I'' block) s (\<lambda>result.
       if result = 0 then doClientInitialization s
       else if result = 1 then
         if rfb_version s < (3, 8) then
           and_then (call H (VncAuthFailed (AuthText ''authentication failed'')) s) (\<lambda>s. Ret (loseConnection s))
         else Ret (arm (Handshake AuthFailed) 4 s)
       else if result = 2 then
         if rfb_version s < (3, 8) then
           and_then (call H (VncAuthFailed (AuthText ''too many tries to log in'')) s) (\<lambda>s. Ret (loseConnection s))
         else Ret (arm (Handshake AuthFailed) 4 s)
       else Ret (loseConnection s))"

definition handleAuthFailed :: "bytes \<Rightarrow> 'a client \<Rightarrow> 'a client outcome" where
  "handleAuthFailed block s =
     with_value (unpack1 ''!I'' block) s (\<lambda>waitfor. Ret (arm (Handshake AuthFailedMessage) waitfor s))"

definition handleAuthFailedMessage :: "'a hook \<Rightarrow> bytes \<Rightarrow> 'a client \<Rightarrow> 'a client outcome" where
  "handleAuthFailedMessage H block s =
     and_then (call H (VncAuthFailed (AuthBytes block)) s) (\<lambda>s. Ret (loseConnection s))"

fun as_server_init :: "pyval list \<Rightarrow> exn + int \<times> int \<times> bytes \<times> int" where
  "as_server_init [PInt w, PInt h, PBytes pf, PInt n] = Inr (w, h, pf, n)"
| "as_server_init _ = Inl ValueError"

definition handleServerInit :: "bytes \<Rightarrow> 'a client \<Rightarrow> 'a client outcome" where
  "handleServerInit block s =
     with_value (bind_sum (struct_unpack ''!HH16sI'' block) as_server_init) s (\<lambda>(w, h, pixformat, namelen).
       let s = s\<lparr>fb_width := w, fb_height := h\<rparr> in
       with_value (from_bytes pixformat) s (\<lambda>pf.
         Ret (arm (Handshake ServerName) namelen (s\<lparr>pixel_format := pf\<rparr>))))"

definition handleServerName :: "'a hook \<Rightarrow> bytes \<Rightarrow> 'a client \<Rightarrow> 'a client outcome" where
  "handleServerName H block s =
     and_then (call H VncConnectionMade (s\<lparr>server_name := block\<rparr>)) (\<lambda>s.
     Ret (arm (Message Connection) 1 s))"

fun handle_handshake ::
  "env \<Rightarrow> 'a hook \<Rightarrow> handshake_handler \<Rightarrow> bytes \<Rightarrow> 'a client \<Rightarrow> 'a client outcome" where
  "handle_handshake env H NumberSecurityTypes block s = handleNumberSecurityTypes block s"
| "handle_handshake env H SecurityTypes block s = handleSecurityTypes H block s"
| "handle_handshake env H Auth block s = handleAuth H block s"
| "handle_handshake env H ConnFailed block s = handleConnFailed block s"
| "handle_handshake env H ConnMessage block s = handleConnMessage H block s"
| "handle_handshake env H VNCAuth block s = handleVNCAuth H block s"
| "handle_handshake env H DHAuth block s = handleDHAuth block s"
| "handle_handshake env H DHAuthKey block s = handleDHAuthKey block s"
| "handle_handshake env H DHAuthCert block s = handleDHAuthCert env block s"
| "handle_handshake env H VNCAuthResult block s = handleVNCAuthResult H block s"
| "handle_handshake env H AuthFailed block s = handleAuthFailed block s"
| "handle_handshake env H AuthFailedMessage block s = handleAuthFailedMessage H block s"
| "handle_handshake env H ServerInit block s = handleServerInit block s"
| "handle_handshake env H ServerName block s = handleServerName H block s"

section \<open>The default callbacks keep the contract\<close>

lemma sendPassword_frame [framing]:
  "sendPassword env p (extend q s) = map_outcome (extend q) (sendPassword env p s)"
  by (simp add: sendPassword_def framing)

lemma base_hooks_frame:
  "base_hooks env cb (extend q s) = map_outcome (extend q) (base_hooks env cb s)"
  by (cases cb)
    (auto simp: base_hooks_def default_vncRequestPassword_def default_fillRectangle_def call_def framing
      split: option.split)

lemma base_hooks_keep: "undisturbed s (final (base_hooks env cb s))"
proof -
  have "undisturbed s (final (transport_write r s))" for r
    by (cases r) (simp_all add: transport_write_def)
  then show ?thesis
    by (cases cb)
      (simp_all add: base_hooks_def default_vncRequestPassword_def default_fillRectangle_def
        sendPassword_def call_def split: option.split)
qed

interpretation base: client_hooks "base_hooks env" for env
  using base_hooks_keep by unfold_locales (auto simp: base_hooks_frame undisturbed_def)

section \<open>Handlers and the bytes that follow\<close>

lemma doClientInitialization_frame [framing]:
  "doClientInitialization (extend q s) = map_outcome (extend q) (doClientInitialization s)"
  unfolding doClientInitialization_def by (intro frame_intros) (simp_all add: framing)

lemma encryptArd_frame [framing]:
  "encryptArd env (extend q s) = map_outcome (extend q) (encryptArd env s)"
  by (simp add: encryptArd_def framing)

lemma ardRequestCredentials_extend [simp]:
  "ardRequestCredentials env (extend q s) = extend q (ardRequestCredentials env s)"
  by (auto simp: ardRequestCredentials_def Let_def)

lemmas handshake_defs = handleNumberSecurityTypes_def handleSecurityTypes_def handleAuth_def
  handleConnFailed_def handleConnMessage_def handleVNCAuth_def handleDHAuth_def handleDHAuthKey_def
  handleDHAuthCert_def handleVNCAuthResult_def handleAuthFailed_def handleAuthFailedMessage_def
  handleServerInit_def handleServerName_def

context client_hooks
begin

lemma handleSecurityTypes_frame [framing]:
  "handleSecurityTypes H block (extend q s) = map_outcome (extend q) (handleSecurityTypes H block s)"
proof -
  have choice: "(case vt of [] \<Rightarrow> x' | t # ts \<Rightarrow> f' t ts) = map_outcome (extend q) (case vt of [] \<Rightarrow> x | t # ts \<Rightarrow> f t ts)"
    if "x' = map_outcome (extend q) x" "\<And>t ts. f' t ts = map_outcome (extend q) (f t ts)"
    for vt :: "int list" and x x' f f'
    using that by (cases vt) simp_all
  show ?thesis
    unfolding handleSecurityTypes_def Let_def
    by (intro frame_intros choice) (simp_all add: framing)
qed

lemma handshake_frame [framing]:
  "handle_handshake env H h block (extend q s) = map_outcome (extend q) (handle_handshake env H h block s)"
proof (cases h)
  case SecurityTypes
  then show ?thesis by (simp add: framing)
qed (simp only: handle_handshake.simps handshake_defs Let_def; (intro frame_intros)?; simp add: framing)+

end

section \<open>Handlers and the receive loop\<close>

lemma from_bytes_bypp:
  assumes "from_bytes bs = Inr pf"
  shows "0 \<le> pf_bypp pf"
proof -
  from assms have "length bs = 16"
    by (auto simp: from_bytes_def struct_unpack_def parse_PixelFormat_STRUCT split: if_splits)
  from from_bytes_total [OF this] assms have "wire_format pf" by auto
  then show ?thesis unfolding wire_format_def pf_bypp_def in_u8_def by linarith
qed

lemma undisturbed_ard [simp]: "undisturbed s (ardRequestCredentials env t) = undisturbed s t"
  by (simp add: ardRequestCredentials_def Let_def)

lemma unpack_HH16sI [wire]:
  "bind_sum (struct_unpack ''!HH16sI'' bs) as_server_init =
     (if length bs = 24
      then Inr (from_be (take 2 bs), from_be (take 2 (drop 2 bs)), take 16 (drop 4 bs), from_be (drop 20 bs))
      else Inl StructError)"
  by (simp add: unpack_defs)

lemma settles_same [simp]: "rank h = 0 \<Longrightarrow> settles h s e s"
  by (simp add: settles_stay)

context client_hooks
begin

lemma handshake_settles:
  "ends (settles (Handshake h) s) (handle_handshake env H h block s)"
  by (cases h)
    (auto simp: handshake_defs doClientInitialization_def Let_def encryptArd_def leaves_undisturbed
      reports_reason_def wire sized_def from_bytes_bypp split: if_splits
      intro!: ends_intros ends_call ends_refuse settles_arm settles_raise leaves_keyLen leaves_pixel_format
      intro: settles_stay)

end

section \<open>What the handshake promises\<close>

text \<open>The version the client answers with: the newest it can speak that the server
  offers, never above 3.8 whatever the server claims (Apple's 3.889, RealVNC's 4 and 5); a server
  older than 3.3 is a \<open>ValueError\<close>, raised by \<open>max\<close> of nothing.\<close>

lemma negotiate_version_spec:
  "negotiate_version v =
     (if v < (3, 3) then Inl ValueError
      else if v < (3, 7) then Inr (3, 3)
      else if v < (3, 8) then Inr (3, 7)
      else Inr (3, 8))"
  by (cases v) (auto simp: negotiate_version_def SUPPORTED_SERVER_VERSIONS_def MAX_CLIENT_VERSION_def Let_def max_def)

lemma digit_octet: "d < 10 \<Longrightarrow> (of_char (char_of (48 + d :: nat)) :: byte) = word_of_int (48 + int d)"
proof -
  have "list_all (\<lambda>d. (of_char (char_of (48 + d :: nat)) :: byte) = word_of_int (48 + int d)) [0..<10]"
    by code_simp
  then show "d < 10 \<Longrightarrow> (of_char (char_of (48 + d :: nat)) :: byte) = word_of_int (48 + int d)"
    by (simp only: list_all_iff atLeastLessThan_upt [symmetric] set_upt) simp
qed

lemma show_nat_3:
  "n < 10 \<Longrightarrow> show_nat n = [char_of (48 + n)]"
  "10 \<le> n \<Longrightarrow> n < 100 \<Longrightarrow> show_nat n = [char_of (48 + n div 10), char_of (48 + n mod 10)]"
  "100 \<le> n \<Longrightarrow> n < 1000 \<Longrightarrow> show_nat n = [char_of (48 + n div 100), char_of (48 + n div 10 mod 10), char_of (48 + n mod 10)]"
proof -
  show one: "show_nat n = [char_of (48 + n)]" if "n < 10" for n
    using that by (simp add: show_nat.simps [of n])
  show two: "show_nat n = [char_of (48 + n div 10), char_of (48 + n mod 10)]" if "10 \<le> n" "n < 100" for n
    using that one [of "n div 10"] by (simp add: show_nat.simps [of n])
  show "show_nat n = [char_of (48 + n div 100), char_of (48 + n div 10 mod 10), char_of (48 + n mod 10)]"
    if "100 \<le> n" "n < 1000"
  proof -
    have "10 \<le> n div 10" "n div 10 < 100" "n div 10 div 10 = n div 100" using that by auto
    with that two [of "n div 10"] show ?thesis by (simp add: show_nat.simps [of n])
  qed
qed

lemma format_03d_digits:
  assumes "n < 1000"
  shows "format_03d (int n) = map (\<lambda>d. word_of_int (48 + int d)) [n div 100, n div 10 mod 10, n mod 10]"
proof -
  consider "n < 10" | "10 \<le> n" "n < 100" | "100 \<le> n" by linarith
  then show ?thesis
  proof cases
    case 1
    then show ?thesis using digit_octet[of n]
      by (simp add: format_03d_def ascii_def show_nat_3 numeral_2_eq_2)
  next
    case 2
    then show ?thesis using digit_octet[of "n div 10"] digit_octet[of "n mod 10"]
      by (simp add: format_03d_def ascii_def show_nat_3)
  next
    case 3
    with assms show ?thesis
      using digit_octet[of "n div 100"] digit_octet[of "n div 10 mod 10"] digit_octet[of "n mod 10"]
      by (simp add: format_03d_def ascii_def show_nat_3)
  qed
qed

lemma digit_facts:
  assumes "d < 10"
  shows "is_digit (word_of_int (48 + int d))" "uint (word_of_int (48 + int d) :: byte) = 48 + int d"
proof -
  show u: "uint (word_of_int (48 + int d) :: byte) = 48 + int d"
    unfolding uint_word_of_int using assms by simp
  show "is_digit (word_of_int (48 + int d))"
    unfolding is_digit_def u using assms by simp
qed

lemma greeting_round_trip_nat:
  assumes "a < 1000" "b < 1000"
  shows "header_translate (format_version (int a, int b)) = HEADER \<and>
    greeting_version (format_version (int a, int b)) = (int a, int b)"
proof -
  have digits: "decimal (map (\<lambda>d. word_of_int (48 + int d)) [n div 100, n div 10 mod 10, n mod 10]) = int n"
      "header_translate (map (\<lambda>d. word_of_int (48 + int d)) [n div 100, n div 10 mod 10, n mod 10]) = [48, 48, 48]"
    if "n < 1000" for n
  proof -
    have lt: "n div 100 < 10" "n div 10 mod 10 < 10" "n mod 10 < 10" using that by auto
    have "n = n div 10 * 10 + n mod 10" "n div 10 = n div 100 * 10 + n div 10 mod 10"
      by (simp_all add: div_mult2_eq [of n 10 10, simplified])
    then have "int n = (int (n div 100) * 10 + int (n div 10 mod 10)) * 10 + int (n mod 10)"
      by (metis of_nat_add of_nat_mult of_nat_numeral)
    then show "decimal (map (\<lambda>d. word_of_int (48 + int d)) [n div 100, n div 10 mod 10, n mod 10]) = int n"
      by (simp only: decimal_def list.map foldl.simps digit_facts(2) [OF lt(1)] digit_facts(2) [OF lt(2)] digit_facts(2) [OF lt(3)]) simp
    show "header_translate (map (\<lambda>d. word_of_int (48 + int d)) [n div 100, n div 10 mod 10, n mod 10]) = [48, 48, 48]"
      by (simp only: header_translate_def list.map digit_facts(1) [OF lt(1)] digit_facts(1) [OF lt(2)] digit_facts(1) [OF lt(3)] if_True)
  qed
  have shape: "format_version (int a, int b) = ascii ''RFB '' @ map (\<lambda>d. word_of_int (48 + int d)) [a div 100, a div 10 mod 10, a mod 10]
      @ [46] @ map (\<lambda>d. word_of_int (48 + int d)) [b div 100, b div 10 mod 10, b mod 10] @ [10]"
    using assms by (simp add: format_version_def format_03d_digits)
  have "header_translate (xs @ ys) = header_translate xs @ header_translate ys" for xs ys
    by (simp add: header_translate_def)
  with digits(2) assms have "header_translate (format_version (int a, int b)) = header_translate (ascii ''RFB '') @ [48, 48, 48] @ header_translate [46] @ [48, 48, 48] @ header_translate [10]"
    unfolding shape by metis
  moreover have "header_translate (ascii ''RFB '') @ [48, 48, 48] @ header_translate [46] @ [48, 48, 48] @ header_translate [10] = HEADER"
    by code_simp
  moreover have "py_slice 4 7 (ascii ''RFB '' @ [x, y, z] @ r) = [x, y, z]"
     "py_slice 8 11 (ascii ''RFB '' @ [x, y, z] @ [46] @ [x', y', z'] @ r) = [x', y', z']" for x y z x' y' z' r
    by (simp_all add: py_slice_def ascii_def eval_nat_numeral)
  ultimately show ?thesis
    using digits(1) assms unfolding greeting_version_def shape by (simp del: ) 
qed

text \<open>The greeting the client writes is one it would read: a version of at most three digits
  a part survives \<open>format_version\<close> and the parse of \<open>_handleInitial\<close>.\<close>

lemma greeting_round_trip:
  assumes "0 \<le> a" "a < 1000" "0 \<le> b" "b < 1000"
  shows "header_translate (format_version (a, b)) = HEADER \<and> greeting_version (format_version (a, b)) = (a, b)"
  using greeting_round_trip_nat [of "nat a" "nat b"] assms by (simp add: nat_less_iff)


lemma fold_max_Max: "fold max ts (t::int) = Max (set (t # ts))"
  by (metis Max.set_eq_fold)

lemma unpack_octets:
  "length bs = n \<Longrightarrow> unpack_fields (replicate n (SInt False 1)) bs = map (\<lambda>b. PInt (uint b)) bs"
  by (induction n arbitrary: bs) (auto simp: length_Suc_conv)

lemma pack_octet: "0 \<le> v \<Longrightarrow> v < 256 \<Longrightarrow> struct_pack ''!B'' [PInt v] = Inr [word_of_int v]"
  "struct_pack ''!B'' [PBool b] = Inr [of_bool b]"
  by (simp_all add: struct_pack_def parse_format_def digit_value_def item_fields_def pack_int_def)

text \<open>Of the security types offered, the client takes the numerically greatest it supports,
  tells the server, and waits for exactly what that type sends next; type None before 3.8 has no
  result message, so the client initialises at once.\<close>

lemma security_type_choice:
  assumes "set (map uint block) \<inter> {AUTH_NONE, AUTH_VNC_AUTHENTICATION, AUTH_DIFFIE_HELLMAN} \<noteq> {}"
  shows "let t = Max (set (map uint block) \<inter> {AUTH_NONE, AUTH_VNC_AUTHENTICATION, AUTH_DIFFIE_HELLMAN});
           s' = log_io (Write [word_of_int t]) s
         in handleSecurityTypes H block s = Ret
           (if t = AUTH_DIFFIE_HELLMAN then arm (Handshake DHAuth) 4 s'
            else if t = AUTH_VNC_AUTHENTICATION then arm (Handshake VNCAuth) 16 s'
            else if rfb_version s < (3, 8)
            then arm (Handshake ServerInit) 24 (log_io (Write [of_bool (factory_shared s)]) s')
            else arm (Handshake VNCAuthResult) 4 s')"
proof -
  let ?ok = "{AUTH_NONE, AUTH_VNC_AUTHENTICATION, AUTH_DIFFIE_HELLMAN}"
  let ?valid = "filter (\<lambda>t. t \<in> set SUPPORTED_AUTHS) (map uint block)"
  let ?t = "Max (set (map uint block) \<inter> ?ok)"
  have unp: "struct_unpack (CHR ''!'' # show_nat (length block) @ ''B'') block = Inr (map (\<lambda>b. PInt (uint b)) block)"
    by (simp add: struct_unpack_def parse_counted_format unpack_octets [simplified] calcsize_def sum_list_replicate)
  have set_valid: "set ?valid = set (map uint block) \<inter> ?ok" by (auto simp: SUPPORTED_AUTHS_def)
  with assms obtain t ts where valid: "?valid = t # ts" by (cases ?valid) auto
  have fold_eq: "fold max ts t = ?t" unfolding fold_max_Max valid [symmetric] set_valid ..
  have mem: "?t \<in> ?ok" using Max_in [of "set (map uint block) \<inter> ?ok"] assms by blast
  then have pk: "struct_pack ''!B'' [PInt ?t] = Inr [word_of_int ?t]" by (intro pack_octet) auto
  have ver: "rfb_version (log_io a s) = rfb_version s" "factory_shared (log_io a s) = factory_shared s" for a
    by (simp_all add: log_io_def)
  have valid': "filter (\<lambda>t. t \<in> set SUPPORTED_AUTHS) (map pint (map (\<lambda>b. PInt (uint b)) block)) = t # ts"
    using valid by (simp add: comp_def)
  show ?thesis
    unfolding Let_def handleSecurityTypes_def unp with_value_simps valid' list.case fold_eq pk transport_write_def and_then.simps
    using mem by (auto simp: ver doClientInitialization_def transport_write_def pack_octet)
qed


lemma reverse_byte_horner:
  "reverse_byte k = horner_sum of_bool 2 (map (\<lambda>i. bit k (7 - i)) [0..<8])"
proof -
  have up: "[0..<8] = [0, 1, 2, 3, 4, 5, 6, 7 :: nat]" by (simp add: upt_rec)
  have w: "drop_bit 0 128 = (128 :: byte)" "drop_bit 1 128 = (64 :: byte)" "drop_bit 2 128 = (32 :: byte)"
    "drop_bit 3 128 = (16 :: byte)" "drop_bit 4 128 = (8 :: byte)" "drop_bit 5 128 = (4 :: byte)"
    "drop_bit 6 128 = (2 :: byte)" "drop_bit 7 128 = (1 :: byte)"
    by code_simp+
  show ?thesis
    unfolding reverse_byte_def up bit_iff_and_push_bit_not_eq_0 [symmetric] list.map w
    by (simp add: of_bool_def)
qed

lemma reverse_byte_bit: "i < 8 \<Longrightarrow> bit (reverse_byte k) i = bit k (7 - i)"
  by (simp add: reverse_byte_horner bit_horner_sum_bit_word_iff)

lemma reverse_byte_twice: "reverse_byte (reverse_byte k) = k"
  by (rule bit_word_eqI) (simp add: reverse_byte_bit)

text \<open>\<open>reverse_bits\<close> mirrors every byte of the key: bit \<open>n\<close> of the result is bit \<open>7 - n\<close>
  of the byte, so that applying it twice gives the key back.\<close>

lemma reverse_bits_mirror:
  "map (\<lambda>k. map (bit k) [0..<8]) (reverse_bits data) = map (\<lambda>k. rev (map (bit k) [0..<8])) data \<and>
   reverse_bits (reverse_bits data) = data"
  by (simp add: reverse_bits_def reverse_byte_bit reverse_byte_twice comp_def upt_rec eval_nat_numeral)

end
