(* ===== verification/Handshake_Scrubber.thy ===== *)
theory Handshake_Scrubber
  imports Rfb_Handshake
begin

text \<open>
  \<open>vncdotool/capture.py\<close>: the scrubber that follows a proxied handshake and records a synthetic
  one without authentication. Its generator \<open>_run\<close> is a state machine: a value of \<open>scrub_pc\<close> is
  the \<open>yield\<close> it is suspended at, \<open>resume\<close> is what it does with the bytes sent to it.

  The lemmas show that recording does not depend on segmentation, that nothing of an
  authentication exchange is recorded, that an exchange whose end is not known sets
  \<open>abort_reason\<close>, and that \<open>preserve_auth\<close> records the streams verbatim.
\<close>

section \<open>State\<close>

datatype tap = S2C | C2S

datatype scrub_pc =
    AwaitServerHead | AwaitClientHead | AwaitNumTypes | AwaitTypes int | AwaitSecType | AwaitAuth
  | AwaitChallenge | AwaitResponse
  | AwaitDHHead | AwaitModulus int | AwaitServerKey int | AwaitCredentials int | AwaitClientKey int
  | AwaitResult | AwaitClientInit | AwaitServerInit | AwaitName int

text \<open>Why the session cannot be stripped; the source formats these into \<open>abort_reason\<close>.\<close>

datatype give_up_reason = BadVersionReply bytes | CannotFollow int

record scrubber =
  s2c_pending :: bytes
  c2s_pending :: bytes
  preserve_auth :: bool
  protocol_version :: "int list option"
  negotiated_version :: "ver option"
  security_types :: "int list"
  security_type :: "int option"
  unstrippable_auth :: "int option"
  abort_reason :: "give_up_reason option"
  scr_width :: "int option"
  scr_height :: "int option"
  scr_gen :: "scrub_pc option"
  recording :: "bytes option"
  in_auth :: bool

definition new_scrubber :: "bool \<Rightarrow> scrubber" where
  "new_scrubber preserve = \<lparr>s2c_pending = [], c2s_pending = [], preserve_auth = preserve,
     protocol_version = None, negotiated_version = None, security_types = [], security_type = None,
     unstrippable_auth = None, abort_reason = None, scr_width = None, scr_height = None,
     scr_gen = Some AwaitServerHead, recording = None, in_auth = False\<rparr>"

definition pending :: "tap \<Rightarrow> scrubber \<Rightarrow> bytes" where
  "pending tap s = (case tap of S2C \<Rightarrow> s2c_pending s | C2S \<Rightarrow> c2s_pending s)"

definition set_pending :: "tap \<Rightarrow> bytes \<Rightarrow> scrubber \<Rightarrow> scrubber" where
  "set_pending tap buf s = (case tap of S2C \<Rightarrow> s\<lparr>s2c_pending := buf\<rparr> | C2S \<Rightarrow> s\<lparr>c2s_pending := buf\<rparr>)"

section \<open>The generator\<close>

definition ARD_CREDENTIALS_LEN :: int where
  "ARD_CREDENTIALS_LEN = 128"

fun want :: "scrub_pc \<Rightarrow> tap \<times> int" where
  "want AwaitServerHead = (S2C, 12)"
| "want AwaitClientHead = (C2S, 12)"
| "want AwaitNumTypes = (S2C, 1)"
| "want (AwaitTypes n) = (S2C, n)"
| "want AwaitSecType = (C2S, 1)"
| "want AwaitAuth = (S2C, 4)"
| "want AwaitChallenge = (S2C, 16)"
| "want AwaitResponse = (C2S, 16)"
| "want AwaitDHHead = (S2C, 4)"
| "want (AwaitModulus k) = (S2C, k)"
| "want (AwaitServerKey k) = (S2C, k)"
| "want (AwaitCredentials k) = (C2S, ARD_CREDENTIALS_LEN)"
| "want (AwaitClientKey k) = (C2S, k)"
| "want AwaitResult = (S2C, 4)"
| "want AwaitClientInit = (C2S, 1)"
| "want AwaitServerInit = (S2C, 24)"
| "want (AwaitName n) = (S2C, n)"

text \<open>\<open>bytes.decode("ascii", "replace")\<close> as code points, and \<open>str.rstrip("\n")\<close>.\<close>

definition decode_ascii_replace :: "bytes \<Rightarrow> int list" where
  "decode_ascii_replace bs = map (\<lambda>b. if uint b < 128 then uint b else 65533) bs"

definition rstrip_newlines :: "int list \<Rightarrow> int list" where
  "rstrip_newlines cs = rev (dropWhile (\<lambda>c. c = 10) (rev cs))"

text \<open>\<open>int(bs)\<close>: surrounding white space, a sign, digits with single underscores between them.\<close>

definition is_space :: "byte \<Rightarrow> bool" where
  "is_space b \<longleftrightarrow> b = 32 \<or> (9 \<le> uint b \<and> uint b \<le> 13)"

fun int_digits :: "bool \<Rightarrow> int \<Rightarrow> bytes \<Rightarrow> int option" where
  "int_digits need acc [] = (if need then None else Some acc)"
| "int_digits need acc (b # bs) =
     (if is_digit b then int_digits False (acc * 10 + (uint b - 48)) bs
      else if b = 95 \<and> \<not> need then int_digits True acc bs
      else None)"

definition py_int :: "bytes \<Rightarrow> int option" where
  "py_int bs =
     (case rev (dropWhile is_space (rev (dropWhile is_space bs))) of
        [] \<Rightarrow> None
      | b # ds \<Rightarrow>
          if b = 45 then map_option uminus (int_digits True 0 ds)
          else if b = 43 then int_digits True 0 ds
          else int_digits True 0 (b # ds))"

definition client_version :: "bytes \<Rightarrow> ver option" where
  "client_version head =
     (case py_int (py_slice 4 7 head) of
        None \<Rightarrow> None
      | Some a \<Rightarrow> map_option (Pair a) (py_int (py_slice 8 11 head)))"

definition record_bytes :: "bytes \<Rightarrow> scrubber \<Rightarrow> scrubber" where
  "record_bytes data s = s\<lparr>recording := Some data\<rparr>"

definition goto :: "scrub_pc \<Rightarrow> scrubber \<Rightarrow> scrubber" where
  "goto pc s = s\<lparr>scr_gen := Some pc\<rparr>"

definition gen_return :: "scrubber \<Rightarrow> scrubber" where
  "gen_return s = s\<lparr>scr_gen := None\<rparr>"

definition give_up :: "bytes \<Rightarrow> scrubber \<Rightarrow> scrubber" where
  "give_up head s = (if preserve_auth s then s else s\<lparr>abort_reason := Some (BadVersionReply head)\<rparr>)"

definition ver_of :: "scrubber \<Rightarrow> ver" where
  "ver_of s = (case negotiated_version s of Some v \<Rightarrow> v | None \<Rightarrow> (0, 0))"

text \<open>From the end of the authentication exchange: a SecurityResult, unless there is none.\<close>

definition after_auth :: "scrubber \<Rightarrow> scrubber" where
  "after_auth s =
     (let s = s\<lparr>in_auth := False\<rparr> in
      if \<not> (ver_of s < (3, 8) \<and> security_type s = Some AUTH_NONE) then goto AwaitResult s
      else goto AwaitClientInit s)"

definition begin_auth :: "int \<Rightarrow> scrubber \<Rightarrow> scrubber" where
  "begin_auth sectype s =
     (let s = s\<lparr>security_type := Some sectype, in_auth := True\<rparr> in
      if sectype = AUTH_VNC_AUTHENTICATION then goto AwaitChallenge s
      else if sectype = AUTH_DIFFIE_HELLMAN then goto AwaitDHHead s
      else if sectype \<noteq> AUTH_NONE \<and> sectype \<noteq> AUTH_INVALID then
        let s = s\<lparr>unstrippable_auth := Some sectype\<rparr>;
            s = (if preserve_auth s then s else s\<lparr>abort_reason := Some (CannotFollow sectype)\<rparr>)
        in gen_return s
      else after_auth s)"

text \<open>The generator from one \<open>yield\<close> to the next, or to its end.\<close>

fun resume_run :: "scrub_pc \<Rightarrow> bytes \<Rightarrow> scrubber \<Rightarrow> scrubber" where
  "resume_run AwaitServerHead sent s =
     goto AwaitClientHead (s\<lparr>protocol_version := Some (rstrip_newlines (decode_ascii_replace sent))\<rparr>)"
| "resume_run AwaitClientHead sent s =
     (case client_version sent of
        None \<Rightarrow> gen_return (give_up sent s)
      | Some negotiated \<Rightarrow>
          let s = s\<lparr>negotiated_version := Some negotiated\<rparr> in
          if negotiated \<ge> (3, 7) then goto AwaitNumTypes s else goto AwaitAuth s)"
| "resume_run AwaitNumTypes sent s =
     (let num_types = from_be (take 1 sent) in
      if num_types = 0 then gen_return s
      else goto (AwaitTypes num_types) (record_bytes [] s))"
| "resume_run (AwaitTypes n) sent s =
     goto AwaitSecType (record_bytes [1, 1] (s\<lparr>security_types := map uint sent\<rparr>))"
| "resume_run AwaitSecType sent s = begin_auth (from_be (take 1 sent)) (record_bytes [1] s)"
| "resume_run AwaitAuth sent s =
     (let sectype = from_be sent in
      if sectype = AUTH_INVALID then gen_return s
      else begin_auth sectype (record_bytes [0, 0, 0, 1] s\<lparr>security_types := [sectype]\<rparr>))"
| "resume_run AwaitChallenge sent s = goto AwaitResponse s"
| "resume_run AwaitResponse sent s = after_auth s"
| "resume_run AwaitDHHead sent s = goto (AwaitModulus (from_be (drop 2 sent))) s"
| "resume_run (AwaitModulus k) sent s = goto (AwaitServerKey k) s"
| "resume_run (AwaitServerKey k) sent s = goto (AwaitCredentials k) s"
| "resume_run (AwaitCredentials k) sent s = goto (AwaitClientKey k) s"
| "resume_run (AwaitClientKey k) sent s = after_auth s"
| "resume_run AwaitResult sent s =
     (if from_be sent \<noteq> 0 then
        gen_return (if ver_of s < (3, 8) then record_bytes [] s else s)
      else goto AwaitClientInit (record_bytes (if ver_of s \<ge> (3, 8) then [0, 0, 0, 0] else []) s))"
| "resume_run AwaitClientInit sent s = goto AwaitServerInit s"
| "resume_run AwaitServerInit sent s =
     (let s = s\<lparr>scr_width := Some (from_be (take 2 sent)), scr_height := Some (from_be (take 2 (drop 2 sent)))\<rparr>;
          name_len = from_be (take 4 (drop 20 sent))
      in if name_len \<noteq> 0 then goto (AwaitName name_len) s else gen_return s)"
| "resume_run (AwaitName n) sent s = gen_return s"

definition advance :: "bytes \<Rightarrow> scrubber \<Rightarrow> scrubber" where
  "advance sent s = (case scr_gen s of None \<Rightarrow> s | Some pc \<Rightarrow> resume_run pc sent s)"

section \<open>Feeding\<close>

definition waiting :: "scrubber \<Rightarrow> (tap \<times> int) option" where
  "waiting s = map_option want (scr_gen s)"

definition waiting_on :: "tap \<Rightarrow> scrubber \<Rightarrow> int option" where
  "waiting_on tap s = (case waiting s of None \<Rightarrow> None | Some (t, n) \<Rightarrow> if t = tap then Some n else None)"

text \<open>How many more \<open>yield\<close>s the generator can go through.\<close>

fun steps_left :: "scrub_pc \<Rightarrow> nat" where
  "steps_left AwaitServerHead = 17"
| "steps_left AwaitClientHead = 16"
| "steps_left AwaitNumTypes = 15"
| "steps_left AwaitAuth = 15"
| "steps_left (AwaitTypes n) = 14"
| "steps_left AwaitSecType = 13"
| "steps_left AwaitChallenge = 12"
| "steps_left AwaitResponse = 11"
| "steps_left AwaitDHHead = 10"
| "steps_left (AwaitModulus k) = 9"
| "steps_left (AwaitServerKey k) = 8"
| "steps_left (AwaitCredentials k) = 7"
| "steps_left (AwaitClientKey k) = 6"
| "steps_left AwaitResult = 5"
| "steps_left AwaitClientInit = 4"
| "steps_left AwaitServerInit = 3"
| "steps_left (AwaitName n) = 2"

definition gen_left :: "scrubber \<Rightarrow> nat" where
  "gen_left s = (case scr_gen s of None \<Rightarrow> 0 | Some pc \<Rightarrow> steps_left pc)"

lemmas scrub_defs = goto_def gen_return_def record_bytes_def give_up_def after_auth_def begin_auth_def Let_def

lemma resume_progress: "gen_left (resume_run pc sent s) < steps_left pc"
  by (cases pc) (simp_all add: gen_left_def scrub_defs split: option.split)

lemma pending_simps [simp]:
  "pending t (set_pending t buf s) = buf" "set_pending t b (set_pending t a s) = set_pending t b s"
  "scr_gen (set_pending t buf s) = scr_gen s" "pending t (s\<lparr>recording := r\<rparr>) = pending t s"
  "scr_gen (s\<lparr>recording := r\<rparr>) = scr_gen s"
  by (cases t; simp add: pending_def set_pending_def)+

text \<open>One chunk: what is recorded for it, and the scrubber after it.\<close>

definition scrub_chunk :: "tap \<Rightarrow> int \<Rightarrow> scrubber \<Rightarrow> bytes \<times> scrubber" where
  "scrub_chunk tap n s =
     (let chunk = take (nat n) (pending tap s);
          s = set_pending tap (drop (nat n) (pending tap s)) s;
          fail_closed_default = (if in_auth s \<and> \<not> preserve_auth s then [] else chunk);
          s = advance chunk (s\<lparr>recording := None\<rparr>)
      in (if preserve_auth s then chunk
          else case recording s of None \<Rightarrow> fail_closed_default | Some r \<Rightarrow> r, s))"

lemma scrub_chunk_progress:
  "waiting_on tap s = Some n \<Longrightarrow> gen_left (snd (scrub_chunk tap n s)) < gen_left s"
  by (cases "scr_gen s")
    (auto simp: waiting_on_def waiting_def scrub_chunk_def Let_def advance_def gen_left_def [of s] resume_progress)

function scrub_loop :: "tap \<Rightarrow> bytes \<Rightarrow> scrubber \<Rightarrow> bytes \<times> scrubber" where
  "scrub_loop tap out s =
     (case waiting_on tap s of
        None \<Rightarrow> (out, s)
      | Some n \<Rightarrow>
          if int (length (pending tap s)) < n then (out, s)
          else let (piece, s) = scrub_chunk tap n s in scrub_loop tap (out @ piece) s)"
  by pat_completeness auto

termination
  by (relation "measure (\<lambda>(_, _, s). gen_left s)") (auto simp: prod_eq_iff scrub_chunk_progress)

declare scrub_loop.simps [simp del]

definition feed :: "tap \<Rightarrow> bytes \<Rightarrow> scrubber \<Rightarrow> bytes \<times> scrubber" where
  "feed tap data s =
     (if data = [] then ([], s)
      else
        let s = set_pending tap (pending tap s @ data) s in
        if waiting_on tap s = None then (pending tap s, set_pending tap [] s)
        else
          let (out, s) = scrub_loop tap [] s in
          if pending tap s \<noteq> [] \<and> waiting_on tap s = None
          then (out @ pending tap s, set_pending tap [] s)
          else (out, s))"

definition flush :: "tap \<Rightarrow> scrubber \<Rightarrow> bytes \<times> scrubber" where
  "flush tap s =
     (let mid_rewrite = (scr_gen s \<noteq> None \<and> \<not> preserve_auth s);
          out = (if mid_rewrite \<and> pending tap s \<noteq> [] then [] else pending tap s)
      in (out, set_pending tap [] s))"

section \<open>The capture of a connection\<close>

record capture =
  cap_scrubber :: scrubber
  cap_s2c :: bytes
  cap_c2s :: bytes
  encodings_seen :: "(int \<times> int) list"

definition new_capture :: "bool \<Rightarrow> capture" where
  "new_capture preserve = \<lparr>cap_scrubber = new_scrubber preserve, cap_s2c = [], cap_c2s = [], encodings_seen = []\<rparr>"

text \<open>A dictionary in insertion order: \<open>d[k] = d.get(k, 0) + 1\<close>.\<close>

fun count_key :: "int \<Rightarrow> (int \<times> int) list \<Rightarrow> (int \<times> int) list" where
  "count_key k [] = [(k, 1)]"
| "count_key k ((k', n) # d) = (if k' = k then (k, n + 1) # d else (k', n) # count_key k d)"

definition note_encoding :: "int \<Rightarrow> capture \<Rightarrow> capture" where
  "note_encoding encoding c = c\<lparr>encodings_seen := count_key encoding (encodings_seen c)\<rparr>"

definition feed_s2c :: "bytes \<Rightarrow> capture \<Rightarrow> capture" where
  "feed_s2c data c =
     (let (out, s) = feed S2C data (cap_scrubber c) in c\<lparr>cap_s2c := cap_s2c c @ out, cap_scrubber := s\<rparr>)"

definition feed_c2s :: "bytes \<Rightarrow> capture \<Rightarrow> capture" where
  "feed_c2s data c =
     (let (out, s) = feed C2S data (cap_scrubber c) in c\<lparr>cap_c2s := cap_c2s c @ out, cap_scrubber := s\<rparr>)"

definition flush_capture :: "capture \<Rightarrow> capture" where
  "flush_capture c =
     (let (out_s, s) = flush S2C (cap_scrubber c); (out_c, s) = flush C2S s
      in c\<lparr>cap_s2c := cap_s2c c @ out_s, cap_c2s := cap_c2s c @ out_c, cap_scrubber := s\<rparr>)"

definition capture_abort_reason :: "capture \<Rightarrow> give_up_reason option" where
  "capture_abort_reason c = abort_reason (cap_scrubber c)"

text \<open>\<open>encodings_list\<close>: number, name when there is one, rectangles; by ascending number.\<close>

definition kebab :: "string \<Rightarrow> string" where
  "kebab name = map (\<lambda>c. let n = of_char c :: nat in
     if n = 95 then CHR ''-'' else if 65 \<le> n \<and> n \<le> 90 then char_of (n + 32) else c) name"

definition encodings_list :: "capture \<Rightarrow> (int \<times> string option \<times> int) list" where
  "encodings_list c =
     map (\<lambda>(e, n). (e, case Encoding_lookup e of Member name \<Rightarrow> Some (kebab name) | _ \<Rightarrow> None, n))
       (sort_key fst (encodings_seen c))"

text \<open>The proxied connection's bytes in the order the proxy sees them.\<close>

fun capture_run :: "(tap \<times> bytes) list \<Rightarrow> capture \<Rightarrow> capture" where
  "capture_run [] c = c"
| "capture_run ((S2C, d) # fs) c = capture_run fs (feed_s2c d c)"
| "capture_run ((C2S, d) # fs) c = capture_run fs (feed_c2s d c)"

definition stream :: "tap \<Rightarrow> (tap \<times> bytes) list \<Rightarrow> bytes" where
  "stream tap fs = concat (map snd (filter (\<lambda>f. fst f = tap) fs))"

section \<open>Segmentation\<close>

lemma tap_cases: "(t = S2C \<Longrightarrow> P) \<Longrightarrow> (t = C2S \<Longrightarrow> P) \<Longrightarrow> P"
  by (cases t) auto

lemma set_pending_fields [simp]:
  "preserve_auth (set_pending t buf s) = preserve_auth s" "in_auth (set_pending t buf s) = in_auth s"
  "abort_reason (set_pending t buf s) = abort_reason s" "recording (set_pending t buf s) = recording s"
  "negotiated_version (set_pending t buf s) = negotiated_version s"
  "security_type (set_pending t buf s) = security_type s" "security_types (set_pending t buf s) = security_types s"
  "waiting_on u (set_pending t buf s) = waiting_on u s"
  by (cases t; simp add: set_pending_def waiting_on_def waiting_def)+

lemma set_pending_other [simp]: "t \<noteq> u \<Longrightarrow> pending t (set_pending u buf s) = pending t s"
  by (cases t; cases u) (simp_all add: pending_def set_pending_def)

text \<open>The generator neither reads nor writes the buffers.\<close>

lemma resume_set_pending:
  "resume_run pc sent (set_pending t buf s) = set_pending t buf (resume_run pc sent s)"
  by (cases t; cases pc)
    (simp_all add: set_pending_def scrub_defs ver_of_def split: option.split)

lemma resume_keeps [simp]:
  "pending t (resume_run pc sent s) = pending t s" "preserve_auth (resume_run pc sent s) = preserve_auth s"
  by (cases t; cases pc; simp add: pending_def scrub_defs split: option.split)
    (cases pc; simp add: scrub_defs split: option.split)

definition ext :: "tap \<Rightarrow> bytes \<Rightarrow> scrubber \<Rightarrow> scrubber" where
  "ext tap b s = set_pending tap (pending tap s @ b) s"

lemma ext_fields [simp]:
  "waiting_on u (ext t b s) = waiting_on u s" "preserve_auth (ext t b s) = preserve_auth s"
  "in_auth (ext t b s) = in_auth s" "recording (ext t b s) = recording s"
  "pending t (ext t b s) = pending t s @ b" "scr_gen (ext t b s) = scr_gen s"
  by (simp_all add: ext_def)

lemma advance_set_pending: "advance sent (set_pending t buf s) = set_pending t buf (advance sent s)"
  by (simp add: advance_def resume_set_pending split: option.split)

lemma advance_keeps [simp]:
  "pending t (advance sent s) = pending t s" "preserve_auth (advance sent s) = preserve_auth s"
  by (simp_all add: advance_def split: option.split)

lemma set_pending_recording: "(set_pending t buf s)\<lparr>recording := r\<rparr> = set_pending t buf (s\<lparr>recording := r\<rparr>)"
  by (cases t) (simp_all add: set_pending_def)

lemma scrub_chunk_ext:
  assumes "nat n \<le> length (pending tap s)"
  shows "scrub_chunk tap n (ext tap b s) = (fst (scrub_chunk tap n s), ext tap b (snd (scrub_chunk tap n s)))"
  using assms
  by (auto simp: scrub_chunk_def Let_def ext_def set_pending_recording advance_set_pending)

lemma scrub_loop_ext:
  "scrub_loop tap out (ext tap b s) =
     (case scrub_loop tap out s of (o', t) \<Rightarrow> scrub_loop tap o' (ext tap b t))"
proof (induction tap out s rule: scrub_loop.induct)
  case (1 tap out s)
  show ?case
  proof (cases "\<exists>n. waiting_on tap s = Some n \<and> n \<le> int (length (pending tap s))")
    case True
    then obtain n where n: "waiting_on tap s = Some n" "n \<le> int (length (pending tap s))" by blast
    obtain piece t where ch: "scrub_chunk tap n s = (piece, t)" by fastforce
    from n ch have step: "scrub_loop tap out s = scrub_loop tap (out @ piece) t" by (simp add: scrub_loop.simps [of tap out s])
    have "scrub_loop tap out (ext tap b s) = scrub_loop tap (out @ piece) (ext tap b t)"
      using n ch scrub_chunk_ext [of n tap s b] by (simp add: scrub_loop.simps [of tap out "ext tap b s"] nat_le_iff)
    with "1.IH" n ch step show ?thesis by simp
  next
    case False
    then have "scrub_loop tap out s = (out, s)" by (auto simp: scrub_loop.simps [of tap out s] split: option.split)
    then show ?thesis by simp
  qed
qed

lemma scrub_loop_out: "scrub_loop tap (o1 @ o2) s = (case scrub_loop tap o2 s of (o', t) \<Rightarrow> (o1 @ o', t))"
proof (induction tap o2 s arbitrary: o1 rule: scrub_loop.induct)
  case (1 tap o2 s)
  then show ?case
    by (subst (1 2) scrub_loop.simps) (auto split: option.split prod.split)
qed

text \<open>Bytes are held back only in the direction that is watched.\<close>

definition held :: "scrubber \<Rightarrow> bool" where
  "held s \<longleftrightarrow> (\<forall>tap. waiting_on tap s = None \<longrightarrow> pending tap s = [])"

lemma waiting_on_other: "waiting_on tap s \<noteq> None \<Longrightarrow> t \<noteq> tap \<Longrightarrow> waiting_on t s = None"
  by (auto simp: waiting_on_def split: option.splits prod.splits if_splits)

lemma set_pending_same [simp]: "set_pending t (pending t s) s = s"
  by (cases t) (simp_all add: set_pending_def pending_def)

text \<open>The two ways a fed segment goes through.\<close>

lemma feed_unwatched:
  "waiting_on tap s = None \<Longrightarrow> held s \<Longrightarrow> feed tap data s = (data, s)"
  using set_pending_same [of tap s] by (auto simp: feed_def held_def Let_def)

definition release :: "tap \<Rightarrow> bytes \<times> scrubber \<Rightarrow> bytes \<times> scrubber" where
  "release tap r = (if waiting_on tap (snd r) = None then (fst r @ pending tap (snd r), set_pending tap [] (snd r)) else r)"

lemma feed_watched:
  assumes "waiting_on tap s \<noteq> None" "data \<noteq> []"
  shows "feed tap data s = release tap (scrub_loop tap [] (ext tap data s))"
proof -
  obtain o' t where loop: "scrub_loop tap [] (ext tap data s) = (o', t)" by fastforce
  have "set_pending tap [] t = t" if "pending tap t = []" using set_pending_same [of tap t] that by simp
  with loop assms show ?thesis by (auto simp: feed_def release_def Let_def ext_def [symmetric])
qed

lemma scrub_loop_other: "u \<noteq> tap \<Longrightarrow> pending u (snd (scrub_loop tap out s)) = pending u s"
proof (induction tap out s rule: scrub_loop.induct)
  case (1 tap out s)
  then show ?case
    by (subst scrub_loop.simps) (auto simp: scrub_chunk_def Let_def split: option.split)
qed

lemma feed_held: "held s \<Longrightarrow> held (snd (feed tap data s))"
proof (cases "waiting_on tap s = None \<or> data = []")
  case False
  assume "held s"
  with False have other: "pending u s = []" if "u \<noteq> tap" for u
    using that waiting_on_other [of tap s u] by (auto simp: held_def)
  obtain o' t where loop: "scrub_loop tap [] (ext tap data s) = (o', t)" by fastforce
  from scrub_loop_other [of _ tap "[]" "ext tap data s"] other have rest: "pending u t = []" if "u \<noteq> tap" for u
    using that loop by (metis ext_def set_pending_other snd_conv)
  have "feed tap data s = release tap (o', t)" using loop False by (simp add: feed_watched)
  moreover have "held (snd (release tap (o', t)))"
    unfolding held_def
  proof (intro allI impI)
    fix u assume "waiting_on u (snd (release tap (o', t))) = None"
    with rest show "pending u (snd (release tap (o', t))) = []"
      by (cases "u = tap") (auto simp: release_def split: if_splits)
  qed
  ultimately show ?thesis by simp
qed (auto simp: feed_unwatched, auto simp: feed_def)

lemma feed_append:
  assumes "held s"
  shows "feed tap (a @ b) s = (case feed tap a s of (o1, t) \<Rightarrow> case feed tap b t of (o2, u) \<Rightarrow> (o1 @ o2, u))"
proof -
  have nil: "feed tap [] t = ([], t)" for t by (simp add: feed_def)
  consider "a = [] \<or> b = []" | "waiting_on tap s = None" | "a \<noteq> []" "b \<noteq> []" "waiting_on tap s \<noteq> None" by blast
  then show ?thesis
  proof cases
    case 2
    with assms show ?thesis by (simp add: feed_unwatched)
  next
    case 3
    obtain o1 t where loop: "scrub_loop tap [] (ext tap a s) = (o1, t)" by fastforce
    have ext2: "ext tap (a @ b) s = ext tap b (ext tap a s)" by (simp add: ext_def)
    have joined: "feed tap (a @ b) s = release tap (scrub_loop tap o1 (ext tap b t))"
      using 3 loop scrub_loop_ext [of tap "[]" b "ext tap a s"] by (simp add: feed_watched ext2)
    have first: "feed tap a s = release tap (o1, t)" using 3 loop by (simp add: feed_watched)
    show ?thesis
    proof (cases "waiting_on tap t")
      case None
      then have stop: "scrub_loop tap o1 (ext tap b t) = (o1, ext tap b t)" by (simp add: scrub_loop.simps)
      have "held (set_pending tap [] t)" using feed_held [OF assms, of tap a] first None by (simp add: release_def)
      with None joined first stop show ?thesis
        by (simp add: release_def feed_unwatched) (simp add: ext_def)
    next
      case (Some n)
      with 3 joined first scrub_loop_out [of tap o1 "[]" "ext tap b t"] show ?thesis
        by (auto simp: release_def feed_watched split: prod.split)
    qed
  qed (auto simp: nil)
qed

text \<open>What the generator and the buffers keep, feeding keeps.\<close>

lemma scrub_chunk_invariant:
  assumes "I s" "waiting_on tap s = Some n"
    and "\<And>t pc sent. scr_gen t = Some pc \<Longrightarrow> I t \<Longrightarrow> I (resume_run pc sent (t\<lparr>recording := None\<rparr>))"
    and "\<And>t u buf. I t \<Longrightarrow> I (set_pending u buf t)"
  shows "I (snd (scrub_chunk tap n s))"
proof -
  from assms(2) obtain pc where pc: "scr_gen s = Some pc"
    by (auto simp: waiting_on_def waiting_def split: option.splits)
  let ?t = "set_pending tap (drop (nat n) (pending tap s)) s"
  have "I (resume_run pc (take (nat n) (pending tap s)) (?t\<lparr>recording := None\<rparr>))"
    using pc assms(1,4) by (intro assms(3)) simp_all
  with pc show ?thesis by (simp add: scrub_chunk_def Let_def advance_def)
qed

lemma scrub_loop_invariant:
  assumes "I s"
    and step: "\<And>t pc sent. scr_gen t = Some pc \<Longrightarrow> I t \<Longrightarrow> I (resume_run pc sent (t\<lparr>recording := None\<rparr>))"
    and buf: "\<And>t u buf. I t \<Longrightarrow> I (set_pending u buf t)"
  shows "I (snd (scrub_loop tap out s))"
  using assms(1)
proof (induction tap out s rule: scrub_loop.induct)
  case (1 tap out s)
  have "I (snd (scrub_chunk tap n s))" if "waiting_on tap s = Some n" for n
    using 1(2) that step buf by (rule scrub_chunk_invariant)
  with 1 show ?case
    by (subst scrub_loop.simps) (auto simp: prod_eq_iff split: option.split prod.split)
qed

lemma feed_invariant:
  assumes "I s"
    and step: "\<And>t pc sent. scr_gen t = Some pc \<Longrightarrow> I t \<Longrightarrow> I (resume_run pc sent (t\<lparr>recording := None\<rparr>))"
    and buf: "\<And>t u buf. I t \<Longrightarrow> I (set_pending u buf t)"
  shows "I (snd (feed tap d s))"
proof -
  have "I (snd (scrub_loop tap [] (set_pending tap (pending tap s @ d) s)))"
    using buf [OF assms(1)] step buf by (rule scrub_loop_invariant)
  with assms(1) buf show ?thesis by (auto simp: feed_def Let_def split: prod.split)
qed

section \<open>The capture as a whole\<close>

definition cap_feed :: "tap \<Rightarrow> bytes \<Rightarrow> capture \<Rightarrow> capture" where
  "cap_feed tap d c = (case tap of S2C \<Rightarrow> feed_s2c d c | C2S \<Rightarrow> feed_c2s d c)"

definition cap_out :: "tap \<Rightarrow> capture \<Rightarrow> bytes" where
  "cap_out tap c = (case tap of S2C \<Rightarrow> cap_s2c c | C2S \<Rightarrow> cap_c2s c)"

lemma capture_run_Cons: "capture_run ((tap, d) # fs) c = capture_run fs (cap_feed tap d c)"
  by (cases tap) (simp_all add: cap_feed_def)

lemma capture_run_append: "capture_run (fs @ gs) c = capture_run gs (capture_run fs c)"
  by (induction fs c rule: capture_run.induct) simp_all

lemma cap_feed_fields [simp]:
  "cap_scrubber (cap_feed tap d c) = snd (feed tap d (cap_scrubber c))"
  "cap_out u (cap_feed tap d c) = cap_out u c @ (if u = tap then fst (feed tap d (cap_scrubber c)) else [])"
  "encodings_seen (cap_feed tap d c) = encodings_seen c"
  by (cases u; cases tap; simp add: cap_feed_def cap_out_def feed_s2c_def feed_c2s_def case_prod_beta)+

lemma capture_eqI:
  "cap_scrubber c = cap_scrubber c' \<Longrightarrow> (\<And>t. cap_out t c = cap_out t c') \<Longrightarrow> encodings_seen c = encodings_seen c' \<Longrightarrow>
     (c :: capture) = c'"
proof -
  assume eq: "cap_scrubber c = cap_scrubber c'" "\<And>t. cap_out t c = cap_out t c'" "encodings_seen c = encodings_seen c'"
  from eq(2) [of S2C] eq(2) [of C2S] eq(1,3) show ?thesis by (simp add: cap_out_def)
qed

lemma capture_run_held: "held (cap_scrubber c) \<Longrightarrow> held (cap_scrubber (capture_run fs c))"
proof (induction fs arbitrary: c)
  case (Cons f fs)
  then show ?case by (cases f) (simp add: capture_run_Cons feed_held)
qed simp

lemma new_capture_held: "held (cap_scrubber (new_capture p))"
  by (auto simp: held_def new_capture_def new_scrubber_def pending_def split: tap.split)

text \<open>C40. What is recorded does not depend on how either direction is cut into segments.\<close>

theorem capture_segmentation:
  "capture_run (fs @ (tap, a) # (tap, b) # gs) (new_capture p) =
   capture_run (fs @ (tap, a @ b) # gs) (new_capture p)"
proof -
  let ?c = "capture_run fs (new_capture p)"
  have "held (cap_scrubber ?c)" by (intro capture_run_held new_capture_held)
  then have "cap_feed tap b (cap_feed tap a ?c) = cap_feed tap (a @ b) ?c"
    by (intro capture_eqI) (simp_all add: feed_append split: prod.split)
  then show ?thesis by (simp add: capture_run_append capture_run_Cons)
qed

section \<open>Preserved authentication\<close>

lemma scrub_loop_verbatim:
  "preserve_auth s \<Longrightarrow> scrub_loop tap out s = (o', t) \<Longrightarrow>
     o' @ pending tap t = out @ pending tap s \<and> preserve_auth t"
proof (induction tap out s arbitrary: o' t rule: scrub_loop.induct)
  case (1 tap out s)
  show ?case
  proof (cases "\<exists>n. waiting_on tap s = Some n \<and> n \<le> int (length (pending tap s))")
    case True
    then obtain n where n: "waiting_on tap s = Some n" "n \<le> int (length (pending tap s))" by blast
    obtain piece u where ch: "scrub_chunk tap n s = (piece, u)" by fastforce
    with "1.prems"(1) have u: "piece = take (nat n) (pending tap s)" "pending tap u = drop (nat n) (pending tap s)"
      "preserve_auth u"
      by (auto simp: scrub_chunk_def Let_def)
    from n ch "1.prems"(2) have rest: "scrub_loop tap (out @ piece) u = (o', t)" by (simp add: scrub_loop.simps [of tap out s])
    from "1.IH" [OF n(1) _ ch [symmetric] refl u(3) rest] n(2) u show ?thesis by simp
  next
    case False
    with "1.prems" show ?thesis by (auto simp: scrub_loop.simps [of tap out s] split: option.splits if_splits)
  qed
qed

lemma feed_verbatim:
  assumes "preserve_auth s" "held s" "feed tap d s = (o', t)"
  shows "o' @ pending tap t = pending tap s @ d \<and> preserve_auth t \<and> (\<forall>u. u \<noteq> tap \<longrightarrow> pending u t = pending u s)"
proof (cases "d = [] \<or> waiting_on tap s = None")
  case True
  with assms show ?thesis by (auto simp: feed_def feed_unwatched held_def split: if_splits)
next
  case False
  obtain o1 u where loop: "scrub_loop tap [] (ext tap d s) = (o1, u)" by fastforce
  with False assms(3) have "release tap (o1, u) = (o', t)" by (simp add: feed_watched)
  moreover have "o1 @ pending tap u = pending tap s @ d \<and> preserve_auth u"
    using scrub_loop_verbatim [OF _ loop] assms(1) by simp
  moreover have "pending v u = pending v s" if "v \<noteq> tap" for v
    using scrub_loop_other [OF that, of "[]" "ext tap d s"] loop that by (simp add: ext_def)
  ultimately show ?thesis by (auto simp: release_def split: if_splits)
qed

lemma capture_verbatim:
  assumes "preserve_auth (cap_scrubber c)" "held (cap_scrubber c)"
  shows "cap_out tap (capture_run fs c) @ pending tap (cap_scrubber (capture_run fs c)) =
    cap_out tap c @ pending tap (cap_scrubber c) @ stream tap fs \<and> preserve_auth (cap_scrubber (capture_run fs c))"
  using assms
proof (induction fs arbitrary: c)
  case Nil
  then show ?case by (simp add: stream_def)
next
  case (Cons f fs)
  obtain u d where f: "f = (u, d)" by fastforce
  obtain o' t where fd: "feed u d (cap_scrubber c) = (o', t)" by fastforce
  from feed_verbatim [OF Cons.prems fd] have v: "o' @ pending u t = pending u (cap_scrubber c) @ d" "preserve_auth t"
    "u \<noteq> tap \<Longrightarrow> pending tap t = pending tap (cap_scrubber c)" by auto
  have "held (cap_scrubber (cap_feed u d c))" using Cons.prems by (simp add: feed_held)
  with Cons.IH [of "cap_feed u d c"] v fd show ?case
    by (cases "u = tap") (auto simp: f capture_run_Cons stream_def)
qed

text \<open>With \<open>preserve_auth\<close> the archive holds both directions of the connection byte for byte,
  whatever they carry and wherever they end.\<close>

lemma preserve_auth_verbatim:
  "let c = flush_capture (capture_run fs (new_capture True))
   in cap_s2c c = stream S2C fs \<and> cap_c2s c = stream C2S fs"
proof -
  let ?c = "capture_run fs (new_capture True)"
  have "preserve_auth (cap_scrubber (new_capture True))" by (simp add: new_capture_def new_scrubber_def)
  note v = capture_verbatim [OF this new_capture_held, of _ fs]
  have "cap_out t (new_capture True) = []" "pending t (cap_scrubber (new_capture True)) = []" for t
    by (cases t; simp add: new_capture_def new_scrubber_def cap_out_def pending_def)+
  with v have all: "cap_out t ?c @ pending t (cap_scrubber ?c) = stream t fs" and pr: "preserve_auth (cap_scrubber ?c)" for t
    by simp_all
  from all [of S2C] all [of C2S] pr show ?thesis
    by (simp add: flush_capture_def flush_def Let_def cap_out_def split: prod.split)
qed

section \<open>Secrets\<close>

text \<open>The points at which the generator waits for a part of an authentication exchange; all but
  the sizes in the Diffie-Hellman header are secret.\<close>

fun secret_pc :: "scrub_pc \<Rightarrow> bool" where
  "secret_pc AwaitChallenge = True"
| "secret_pc AwaitResponse = True"
| "secret_pc (AwaitModulus k) = True"
| "secret_pc (AwaitServerKey k) = True"
| "secret_pc (AwaitCredentials k) = True"
| "secret_pc (AwaitClientKey k) = True"
| "secret_pc _ = False"

definition auth_pc :: "scrub_pc \<Rightarrow> bool" where
  "auth_pc pc \<longleftrightarrow> secret_pc pc \<or> pc = AwaitDHHead"

text \<open>\<open>_in_auth\<close> is set exactly there, and a scrubber that stopped following an exchange in
  the middle of it has said so.\<close>

definition phase_ok :: "scrubber \<Rightarrow> bool" where
  "phase_ok s \<longleftrightarrow> (\<forall>pc. scr_gen s = Some pc \<longrightarrow> in_auth s = auth_pc pc) \<and>
     (scr_gen s = None \<and> in_auth s \<and> \<not> preserve_auth s \<longrightarrow> abort_reason s \<noteq> None)"

lemma resume_phase_ok:
  assumes "scr_gen s = Some pc" "phase_ok s"
  shows "phase_ok (resume_run pc sent s)"
  using assms by (cases pc) (auto simp: phase_ok_def auth_pc_def scrub_defs split: option.splits)

lemma phase_ok_set_pending [simp]: "phase_ok (set_pending t buf s) = phase_ok s"
  by (simp add: phase_ok_def)

lemma phase_ok_recording [simp]: "phase_ok (s\<lparr>recording := r\<rparr>) = phase_ok s"
  by (simp add: phase_ok_def)

lemma scrub_chunk_phase_ok:
  "waiting_on tap s = Some n \<Longrightarrow> phase_ok s \<Longrightarrow> phase_ok (snd (scrub_chunk tap n s))"
  by (rule scrub_chunk_invariant) (simp_all add: resume_phase_ok)

lemma feed_phase_ok: "phase_ok s \<Longrightarrow> phase_ok (snd (feed tap d s))"
  by (rule feed_invariant) (simp_all add: resume_phase_ok)

lemma feed_preserve [simp]: "preserve_auth (snd (feed tap d s)) = preserve_auth s"
  by (rule feed_invariant [where I = "\<lambda>t. preserve_auth t = preserve_auth s"]) simp_all

lemma capture_run_phase_ok:
  assumes "phase_ok (cap_scrubber c)"
  shows "phase_ok (cap_scrubber (capture_run fs c))"
    and "preserve_auth (cap_scrubber (capture_run fs c)) = preserve_auth (cap_scrubber c)"
  using assms
proof (induction fs arbitrary: c)
  case (Cons f fs)
  obtain tap d where f: "f = (tap, d)" by fastforce
  { case 1 then show ?case by (simp add: f capture_run_Cons Cons.IH(1) feed_phase_ok) }
  { case 2 then show ?case by (simp add: f capture_run_Cons Cons.IH(2) feed_phase_ok) }
qed simp_all

lemma new_capture_phase_ok [simp]: "phase_ok (cap_scrubber (new_capture p))"
  by (simp add: phase_ok_def new_capture_def new_scrubber_def auth_pc_def)

lemma new_capture_preserve [simp]: "preserve_auth (cap_scrubber (new_capture p)) = p"
  by (simp add: new_capture_def new_scrubber_def)

text \<open>C39. The scrubber fails closed: whenever it is no longer following the handshake although an
  authentication exchange is going on, whatever has been fed to it, \<open>abort_reason\<close> is set, which is
  what makes the proxy discard the capture.\<close>

theorem scrubber_fails_closed:
  "let s = cap_scrubber (capture_run fs (new_capture False))
   in scr_gen s = None \<and> in_auth s \<longrightarrow> capture_abort_reason (capture_run fs (new_capture False)) \<noteq> None"
proof -
  let ?c = "capture_run fs (new_capture False)"
  have "phase_ok (cap_scrubber ?c)" "\<not> preserve_auth (cap_scrubber ?c)" by (simp_all add: capture_run_phase_ok)
  then show ?thesis by (auto simp: phase_ok_def capture_abort_reason_def Let_def)
qed

theorem scrubber_fails_closed_witness:
  "let fs = [(S2C, [82, 70, 66, 32, 48, 48, 51, 46, 48, 48, 56, 10]), (C2S, [82, 70, 66, 32, 48, 48, 51, 46, 48, 48, 56, 10]),
             (S2C, [1, 16]), (C2S, [16])];
       s = cap_scrubber (capture_run fs (new_capture False))
   in scr_gen s = None \<and> in_auth s \<and> capture_abort_reason (capture_run fs (new_capture False)) = Some (CannotFollow 16)"
proof -
  let ?fs = "[(S2C, [82, 70, 66, 32, 48, 48, 51, 46, 48, 48, 56, 10]), (C2S, [82, 70, 66, 32, 48, 48, 51, 46, 48, 48, 56, 10]),
             (S2C, [1, 16]), (C2S, [16])]"
  let ?s = "cap_scrubber (capture_run ?fs (new_capture False))"
  have "scr_gen ?s = None \<and> in_auth ?s" "capture_abort_reason (capture_run ?fs (new_capture False)) \<in> {None, Some (CannotFollow 16)}"
    by code_simp+
  with scrubber_fails_closed [of ?fs] show ?thesis by (auto simp: Let_def)
qed

text \<open>How many of a direction's next bytes are secret.\<close>

definition open_len :: "tap \<Rightarrow> scrubber \<Rightarrow> nat" where
  "open_len tap s = (case scr_gen s of
     Some pc \<Rightarrow> if secret_pc pc \<and> fst (want pc) = tap then nat (snd (want pc)) else 0
   | None \<Rightarrow> 0)"

text \<open>Two connections with the same segments, except that bytes of secrets may differ.\<close>

fun twin :: "scrubber \<Rightarrow> (tap \<times> bytes) list \<Rightarrow> (tap \<times> bytes) list \<Rightarrow> bool" where
  "twin s [] [] = True"
| "twin s ((tap, d) # fs) ((tap', d') # gs) \<longleftrightarrow> tap' = tap \<and> length d' = length d \<and>
     (d' = d \<or> length (pending tap s) + length d \<le> open_len tap s) \<and> twin (snd (feed tap d s)) fs gs"
| "twin s _ _ = False"

definition blank :: "scrubber \<Rightarrow> scrubber" where
  "blank s = set_pending S2C [] (set_pending C2S [] s)"

definition alike :: "scrubber \<Rightarrow> scrubber \<Rightarrow> bool" where
  "alike s t \<longleftrightarrow> blank s = blank t \<and> (\<forall>tap. length (pending tap s) = length (pending tap t) \<and>
     drop (open_len tap s) (pending tap s) = drop (open_len tap s) (pending tap t))"

lemma blank_fields [simp]:
  "scr_gen (blank s) = scr_gen s" "waiting_on tap (blank s) = waiting_on tap s" "in_auth (blank s) = in_auth s"
  "preserve_auth (blank s) = preserve_auth s" "recording (blank s) = recording s"
  by (simp_all add: blank_def)

lemma blank_set_pending [simp]: "blank (set_pending t buf s) = blank s"
  by (cases t) (simp_all add: blank_def set_pending_def)

lemma blank_resume: "blank (resume_run pc sent s) = resume_run pc sent (blank s)"
  by (simp add: blank_def resume_set_pending)

lemma blank_recording: "blank (s\<lparr>recording := r\<rparr>) = (blank s)\<lparr>recording := r\<rparr>"
  by (simp add: blank_def set_pending_recording)

lemma alike_fields:
  assumes "alike s t"
  shows "scr_gen t = scr_gen s" "waiting_on tap t = waiting_on tap s" "in_auth t = in_auth s"
    "preserve_auth t = preserve_auth s" "recording t = recording s" "open_len tap t = open_len tap s"
    "length (pending tap t) = length (pending tap s)"
proof -
  from assms have b: "blank s = blank t" and len: "length (pending tap t) = length (pending tap s)"
    by (simp_all add: alike_def)
  show "scr_gen t = scr_gen s" "waiting_on tap t = waiting_on tap s" "in_auth t = in_auth s"
    "preserve_auth t = preserve_auth s" "recording t = recording s"
    using b by (metis blank_fields)+
  then show "open_len tap t = open_len tap s" "length (pending tap t) = length (pending tap s)"
    using len by (simp_all add: open_len_def)
qed

lemma alikeI: "blank s = blank t \<Longrightarrow> (\<And>tap. pending tap s = pending tap t) \<Longrightarrow> alike s t"
  by (simp add: alike_def)

lemma resume_secret:
  "secret_pc pc \<Longrightarrow> resume_run pc sent s = resume_run pc sent' s"
  "secret_pc pc \<Longrightarrow> recording (resume_run pc sent s) = recording s"
  by (cases pc; simp add: scrub_defs)+

lemma scrub_chunk_alike:
  assumes "alike s t" "phase_ok s" "\<not> preserve_auth s" "waiting_on tap s = Some n" "n \<le> int (length (pending tap s))"
  shows "fst (scrub_chunk tap n s) = fst (scrub_chunk tap n t) \<and> alike (snd (scrub_chunk tap n s)) (snd (scrub_chunk tap n t))"
proof -
  from assms(4) obtain pc where pc: "scr_gen s = Some pc" "want pc = (tap, n)"
    by (auto simp: waiting_on_def waiting_def split: option.splits if_splits prod.splits)
  note f = alike_fields [OF assms(1)]
  have blank: "blank s = blank t" using assms(1) by (simp add: alike_def)
  let ?cs = "take (nat n) (pending tap s)" let ?ct = "take (nat n) (pending tap t)"
  have chunk: "secret_pc pc \<or> ?cs = ?ct"
    and left: "drop (nat n) (pending tap s) = drop (nat n) (pending tap t)"
    and other: "u \<noteq> tap \<Longrightarrow> pending u s = pending u t" for u
    using assms(1) pc by (auto simp: alike_def open_len_def dest: spec [of _ tap] spec [of _ u] split: if_splits)
  let ?us = "(set_pending tap (drop (nat n) (pending tap s)) s)\<lparr>recording := None\<rparr>"
  let ?ut = "(set_pending tap (drop (nat n) (pending tap t)) t)\<lparr>recording := None\<rparr>"
  have b: "blank (resume_run pc ?cs ?us) = blank (resume_run pc ?ct ?ut)"
    using chunk blank resume_secret(1) by (metis blank_resume blank_recording blank_set_pending)
  have p: "pending u (resume_run pc ?cs ?us) = pending u (resume_run pc ?ct ?ut)" for u
    using left other by (cases "u = tap") simp_all
  have "alike (resume_run pc ?cs ?us) (resume_run pc ?ct ?ut)" using b p by (rule alikeI)
  moreover have "recording (resume_run pc ?cs ?us) = recording (resume_run pc ?ct ?ut)"
    using b by (metis blank_fields(5))
  moreover have "secret_pc pc \<longrightarrow> in_auth s" using assms(2) pc by (simp add: phase_ok_def auth_pc_def)
  ultimately show ?thesis
    using pc f chunk assms(3) by (auto simp: scrub_chunk_def Let_def advance_def split: option.split)
qed

lemma scrub_loop_alike:
  assumes "alike s t" "phase_ok s" "\<not> preserve_auth s"
  shows "fst (scrub_loop tap out s) = fst (scrub_loop tap out t) \<and> alike (snd (scrub_loop tap out s)) (snd (scrub_loop tap out t))"
  using assms
proof (induction tap out s arbitrary: t rule: scrub_loop.induct)
  case (1 tap out s)
  note f = alike_fields [OF "1.prems"(1)]
  show ?case
  proof (cases "\<exists>n. waiting_on tap s = Some n \<and> n \<le> int (length (pending tap s))")
    case True
    then obtain n where n: "waiting_on tap s = Some n" "n \<le> int (length (pending tap s))" by blast
    obtain piece u where ch: "scrub_chunk tap n s = (piece, u)" by fastforce
    with scrub_chunk_alike [OF "1.prems" n] obtain v where ct: "scrub_chunk tap n t = (piece, v)" and al: "alike u v"
      by (metis fst_conv prod.collapse snd_conv)
    have u: "phase_ok u" "\<not> preserve_auth u"
      using scrub_chunk_phase_ok [OF n(1) "1.prems"(2)] ch "1.prems"(3) by (auto simp: scrub_chunk_def Let_def)
    from "1.IH" [OF n(1) _ ch [symmetric] refl al u] n f ch ct show ?thesis
      by (simp add: scrub_loop.simps [of tap out s] scrub_loop.simps [of tap out t])
  next
    case False
    with f "1.prems"(1) show ?thesis
      by (auto simp: scrub_loop.simps [of tap out s] scrub_loop.simps [of tap out t] split: option.split)
  qed
qed

lemma ext_alike:
  assumes "alike s t" "length d' = length d" "d' = d \<or> length (pending tap s) + length d \<le> open_len tap s"
  shows "alike (ext tap d s) (ext tap d' t)"
proof -
  have "open_len u (ext tap d s) = open_len u s" for u by (simp add: open_len_def)
  moreover have "pending u (ext tap d s) = (if u = tap then pending u s @ d else pending u s)" for u d s
    by (simp add: ext_def)
  moreover have "blank (ext tap d s) = blank s" for d s by (simp add: ext_def)
  ultimately show ?thesis using assms by (auto simp: alike_def)
qed

lemma feed_alike:
  assumes "alike s t" "phase_ok s" "\<not> preserve_auth s" "held s" "length d' = length d"
    "d' = d \<or> length (pending tap s) + length d \<le> open_len tap s"
  shows "fst (feed tap d s) = fst (feed tap d' t) \<and> alike (snd (feed tap d s)) (snd (feed tap d' t))"
proof -
  note f = alike_fields [OF assms(1)]
  consider "d = []" | "d \<noteq> []" "waiting_on tap s = None" | "d \<noteq> []" "waiting_on tap s \<noteq> None" by blast
  then show ?thesis
  proof cases
    case 1
    with assms show ?thesis by (simp add: feed_def)
  next
    case 2
    then have "open_len tap s = 0"
      by (auto simp: open_len_def waiting_on_def waiting_def split: option.splits prod.splits if_splits)
    with 2 assms(5,6) have "d' = d" by auto
    moreover have "held t" using assms(4) f(2,7) by (simp add: held_def flip: length_0_conv)
    ultimately show ?thesis using 2 assms(1,4) f(2) by (simp add: feed_unwatched)
  next
    case 3
    from assms(5) 3 have "d' \<noteq> []" by auto
    let ?s = "ext tap d s" let ?t = "ext tap d' t"
    note al = ext_alike [OF assms(1,5,6)]
    have ph: "phase_ok ?s" "\<not> preserve_auth ?s" using assms(2,3) by (simp_all add: ext_def)
    from scrub_loop_alike [OF al ph, of tap "[]"] have loop: "fst (scrub_loop tap [] ?s) = fst (scrub_loop tap [] ?t)"
      "alike (snd (scrub_loop tap [] ?s)) (snd (scrub_loop tap [] ?t))" by simp_all
    have "open_len tap u = 0" if "waiting_on tap u = None" for u
      using that by (auto simp: open_len_def waiting_on_def waiting_def split: option.splits prod.splits if_splits)
    moreover have "open_len u (set_pending tap [] v) = open_len u v" for u v by (simp add: open_len_def)
    ultimately have "fst (release tap r) = fst (release tap r') \<and> alike (snd (release tap r)) (snd (release tap r'))"
      if "fst r = fst r'" "alike (snd r) (snd r')" for r r' :: "bytes \<times> scrubber"
      using that alike_fields [OF that(2)]
      by (auto simp: release_def alike_def dest: spec [of _ tap]) (metis drop_0 pending_simps(1) set_pending_other)+
    with loop show ?thesis using 3 \<open>d' \<noteq> []\<close> f(2) by (simp add: feed_watched)
  qed
qed

lemma capture_run_alike:
  assumes "twin (cap_scrubber c) fs gs" "alike (cap_scrubber c) (cap_scrubber c')" "phase_ok (cap_scrubber c)"
    "\<not> preserve_auth (cap_scrubber c)" "held (cap_scrubber c)" "\<And>t. cap_out t c = cap_out t c'"
    "encodings_seen c = encodings_seen c'"
  shows "alike (cap_scrubber (capture_run fs c)) (cap_scrubber (capture_run gs c')) \<and>
    (\<forall>t. cap_out t (capture_run fs c) = cap_out t (capture_run gs c')) \<and>
    encodings_seen (capture_run fs c) = encodings_seen (capture_run gs c')"
  using assms
proof (induction fs arbitrary: gs c c')
  case Nil
  then show ?case by (cases gs) auto
next
  case (Cons f fs)
  obtain tap d where f: "f = (tap, d)" by fastforce
  with Cons.prems(1) obtain d' gs' where g: "gs = (tap, d') # gs'" "length d' = length d"
    "d' = d \<or> length (pending tap (cap_scrubber c)) + length d \<le> open_len tap (cap_scrubber c)"
    "twin (snd (feed tap d (cap_scrubber c))) fs gs'"
    by (cases gs) auto
  note step = feed_alike [OF Cons.prems(2-5) g(2,3)]
  show ?case
    unfolding f g(1) capture_run_Cons
    by (rule Cons.IH) (use g(4) step Cons.prems in \<open>simp_all add: feed_phase_ok feed_held\<close>)
qed

lemma flush_alike:
  assumes "alike s t" "\<not> preserve_auth s"
  shows "fst (flush tap s) = fst (flush tap t)"
proof (cases "scr_gen s")
  case None
  then have "open_len tap s = 0" by (simp add: open_len_def)
  with assms(1) have "pending tap s = pending tap t" by (auto simp: alike_def dest: spec [of _ tap])
  with alike_fields [OF assms(1)] show ?thesis by (simp add: flush_def Let_def)
next
  case (Some pc)
  with alike_fields [OF assms(1)] assms(2) show ?thesis by (auto simp: flush_def Let_def)
qed

lemma flush_capture_fields [simp]:
  "cap_scrubber (flush_capture c) = blank (cap_scrubber c)"
  "cap_out t (flush_capture c) = cap_out t c @ fst (flush t (cap_scrubber c))"
  "encodings_seen (flush_capture c) = encodings_seen c"
proof -
  have "set_pending C2S [] (set_pending S2C [] s) = set_pending S2C [] (set_pending C2S [] s)" for s
    by (simp add: set_pending_def)
  then show "cap_scrubber (flush_capture c) = blank (cap_scrubber c)"
    "cap_out t (flush_capture c) = cap_out t c @ fst (flush t (cap_scrubber c))"
    "encodings_seen (flush_capture c) = encodings_seen c"
    by (cases t; simp add: flush_capture_def flush_def blank_def cap_out_def Let_def)+
qed


definition vnc_login :: "bytes \<Rightarrow> bytes \<Rightarrow> (tap \<times> bytes) list" where
  "vnc_login chal resp =
     [(S2C, [82, 70, 66, 32, 48, 48, 51, 46, 48, 48, 56, 10]), (C2S, [82, 70, 66, 32, 48, 48, 51, 46, 48, 48, 56, 10]),
      (S2C, [2, 2, 30]), (C2S, [2]), (S2C, chal), (C2S, resp), (S2C, [0, 0, 0, 0]), (C2S, [1])]"


section \<open>Sizes and progress\<close>

text \<open>Only the parts of a Diffie-Hellman exchange can be announced with no bytes.\<close>

fun pc_ok :: "scrub_pc \<Rightarrow> bool" where
  "pc_ok (AwaitTypes n) = (0 < n)"
| "pc_ok (AwaitName n) = (0 < n)"
| "pc_ok (AwaitModulus k) = (0 \<le> k)"
| "pc_ok (AwaitServerKey k) = (0 \<le> k)"
| "pc_ok (AwaitCredentials k) = (0 \<le> k)"
| "pc_ok (AwaitClientKey k) = (0 \<le> k)"
| "pc_ok _ = True"

definition sizes_ok :: "scrubber \<Rightarrow> bool" where
  "sizes_ok s \<longleftrightarrow> (\<forall>pc. scr_gen s = Some pc \<longrightarrow> pc_ok pc)"

lemma new_scrubber_sizes_ok [simp]: "sizes_ok (new_scrubber p)"
  by (simp add: sizes_ok_def new_scrubber_def)

lemma from_be_pos: "from_be bs \<noteq> 0 \<Longrightarrow> 0 < from_be bs"
  using from_be_nonneg [of bs] by linarith

lemma resume_sizes_ok: "pc_ok pc \<Longrightarrow> sizes_ok (resume_run pc sent s)"
  by (cases pc) (auto simp: sizes_ok_def scrub_defs from_be_pos split: option.splits)

lemma feed_sizes_ok: "sizes_ok s \<Longrightarrow> sizes_ok (snd (feed tap d s))"
proof (rule feed_invariant)
  fix t pc sent assume "scr_gen t = Some pc" "sizes_ok t"
  then have "pc_ok pc" by (simp add: sizes_ok_def)
  then show "sizes_ok (resume_run pc sent (t\<lparr>recording := None\<rparr>))" by (rule resume_sizes_ok)
qed (simp_all add: sizes_ok_def)

lemma waiting_nonneg: "sizes_ok s \<Longrightarrow> waiting s = Some (tap, n) \<Longrightarrow> 0 \<le> n"
  by (cases "scr_gen s"; cases "the (scr_gen s)") (auto simp: sizes_ok_def waiting_def ARD_CREDENTIALS_LEN_def)

lemma waiting_zero:
  "sizes_ok s \<Longrightarrow> waiting s = Some (tap, 0) \<longleftrightarrow>
     (scr_gen s \<in> {Some (AwaitModulus 0), Some (AwaitServerKey 0)} \<and> tap = S2C) \<or> (scr_gen s = Some (AwaitClientKey 0) \<and> tap = C2S)"
  by (cases "scr_gen s"; cases "the (scr_gen s)") (auto simp: sizes_ok_def waiting_def ARD_CREDENTIALS_LEN_def)

lemma waiting_on_iff: "waiting_on tap s = Some n \<longleftrightarrow> waiting s = Some (tap, n)"
  by (auto simp: waiting_on_def split: option.splits)

lemma scrub_loop_no_more: "gen_left (snd (scrub_loop tap out s)) \<le> gen_left s"
proof (induction tap out s rule: scrub_loop.induct)
  case (1 tap out s)
  show ?case
  proof (cases "\<exists>n. waiting_on tap s = Some n \<and> n \<le> int (length (pending tap s))")
    case True
    then obtain n where n: "waiting_on tap s = Some n" "n \<le> int (length (pending tap s))" by blast
    obtain piece t where ch: "scrub_chunk tap n s = (piece, t)" by fastforce
    from "1.IH" [OF n(1) _ ch [symmetric] refl] n scrub_chunk_progress [OF n(1)] ch
    show ?thesis by (simp add: scrub_loop.simps [of tap out s])
  next
    case False
    then show ?thesis by (auto simp: scrub_loop.simps [of tap out s] split: option.split)
  qed
qed

lemma feed_progress:
  assumes "waiting s = Some (tap, n)" "d \<noteq> []" "n \<le> int (length d)"
  shows "gen_left (snd (feed tap d s)) < gen_left s"
proof -
  let ?s = "ext tap d s"
  have w: "waiting_on tap ?s = Some n" using assms(1) by (simp add: waiting_on_iff)
  obtain piece t where ch: "scrub_chunk tap n ?s = (piece, t)" by fastforce
  have "gen_left (snd (scrub_loop tap [] ?s)) \<le> gen_left t"
    using w ch assms(3) scrub_loop_no_more [of tap piece t] by (simp add: scrub_loop.simps [of tap "[]" ?s])
  moreover have "gen_left t < gen_left s"
    using scrub_chunk_progress [OF w] ch by (simp add: gen_left_def)
  moreover have "feed tap d s = release tap (scrub_loop tap [] ?s)"
    using w assms(2) by (simp add: feed_watched)
  moreover have "gen_left (snd (release tap r)) = gen_left (snd r)" for r
    by (simp add: release_def gen_left_def)
  ultimately show ?thesis by simp
qed

text \<open>A message of no bytes is read as soon as it is due: no one ever waits for it.\<close>

definition no_empty_wait :: "scrubber \<Rightarrow> bool" where
  "no_empty_wait s \<longleftrightarrow> (\<forall>tap. waiting s \<noteq> Some (tap, 0))"

lemma resume_empty_wait: "pc_ok pc \<Longrightarrow> waiting (resume_run pc sent s) = Some (t, 0) \<Longrightarrow> t = fst (want pc)"
  by (cases pc) (auto simp: waiting_def scrub_defs ARD_CREDENTIALS_LEN_def from_be_pos split: option.splits if_splits)

lemma scrub_loop_no_empty_wait:
  "sizes_ok s \<Longrightarrow> (\<And>t. waiting s = Some (t, 0) \<Longrightarrow> t = tap) \<Longrightarrow> no_empty_wait (snd (scrub_loop tap out s))"
proof (induction tap out s rule: scrub_loop.induct)
  case (1 tap out s)
  show ?case
  proof (cases "\<exists>n. waiting_on tap s = Some n \<and> n \<le> int (length (pending tap s))")
    case True
    then obtain n where n: "waiting_on tap s = Some n" "n \<le> int (length (pending tap s))" by blast
    then obtain pc where pc: "scr_gen s = Some pc" "want pc = (tap, n)" by (auto simp: waiting_on_iff waiting_def)
    obtain piece u where ch: "scrub_chunk tap n s = (piece, u)" by fastforce
    with pc obtain sent v where u: "u = resume_run pc sent v" by (auto simp: scrub_chunk_def Let_def advance_def)
    have "pc_ok pc" using "1.prems"(1) pc by (simp add: sizes_ok_def)
    with pc(2) have "sizes_ok u" "\<And>t. waiting u = Some (t, 0) \<Longrightarrow> t = tap"
      unfolding u by (auto simp: resume_sizes_ok dest: resume_empty_wait)
    from "1.IH" [OF n(1) _ ch [symmetric] refl this] n ch show ?thesis by (simp add: scrub_loop.simps [of tap out s])
  next
    case False
    with "1.prems" show ?thesis
      by (auto simp: scrub_loop.simps [of tap out s] no_empty_wait_def waiting_on_def split: option.splits prod.splits if_splits)
  qed
qed

lemma feed_no_empty_wait:
  assumes "sizes_ok s" "no_empty_wait s"
  shows "no_empty_wait (snd (feed tap d s))"
proof -
  have [simp]: "no_empty_wait (set_pending t buf u) = no_empty_wait u" for t buf u
    by (simp add: no_empty_wait_def waiting_def)
  have "no_empty_wait (snd (scrub_loop tap [] (set_pending tap (pending tap s @ d) s)))"
    using assms by (intro scrub_loop_no_empty_wait) (auto simp: sizes_ok_def no_empty_wait_def waiting_def)
  with assms show ?thesis by (auto simp: feed_def Let_def split: prod.split)
qed

end
