(* ===== verification/Capture_Archive.thy ===== *)
theory Capture_Archive
  imports Handshake_Scrubber
begin

text \<open>
  The archive a capture is kept in: \<open>CaptureWriter.meta\<close>, \<open>CaptureWriter.write_archive\<close> and
  \<open>check_capture_target\<close> of \<open>capture.py\<close>, and \<open>load_capture\<close> of \<open>replay.py\<close>.

  A zip file is the list of its members and whether its directory has been written; a member is
  raw bytes or the JSON document it holds. The writer is a sequence of file operations any of
  which may raise and leave a torn file behind. The lemmas show that the target name only ever
  holds its old content or the whole archive, and that a written archive loads back.
\<close>

section \<open>The metadata\<close>

record meta =
  m_server :: string
  m_vncdotool_version :: string
  m_timestamp :: string
  m_protocol_version :: "int list option"
  m_negotiated :: "ver option"
  m_security_types :: "int list"
  m_security_type :: "int option"
  m_auth :: string
  m_encodings :: "(int \<times> string option \<times> int) list"
  m_geometry :: "(int \<times> int) option"

definition capture_meta :: "string \<Rightarrow> string \<Rightarrow> string \<Rightarrow> capture \<Rightarrow> meta" where
  "capture_meta server timestamp vncdotool_version c =
     (let s = cap_scrubber c in
      \<lparr>m_server = server, m_vncdotool_version = vncdotool_version, m_timestamp = timestamp,
       m_protocol_version = protocol_version s, m_negotiated = negotiated_version s,
       m_security_types = security_types s, m_security_type = security_type s,
       m_auth = (if preserve_auth s then ''preserved'' else ''stripped''),
       m_encodings = encodings_list c,
       m_geometry = (case (scr_width s, scr_height s) of (Some w, Some h) \<Rightarrow> Some (w, h) | _ \<Rightarrow> None)\<rparr>)"

section \<open>Files\<close>

datatype member = Octets bytes | Document meta

datatype disk_file = Zip "(string \<times> member) list" bool | NotZip

type_synonym files = "string \<rightharpoonup> disk_file"

text \<open>What \<open>write_archive\<close> does to the file system, one call after another. \<open>fault\<close> is the call
  that raises, with what it leaves under the temporary name; \<open>os.replace\<close> is atomic.\<close>

datatype file_op = OpenZip | WriteMember string member | CloseZip | ReplaceFile

definition partial_name :: "string \<Rightarrow> string" where
  "partial_name path = path @ ''.part''"

fun perform :: "string \<Rightarrow> file_op \<Rightarrow> files \<Rightarrow> files" where
  "perform path OpenZip fs = fs(partial_name path \<mapsto> Zip [] False)"
| "perform path (WriteMember name d) fs =
     (case fs (partial_name path) of
        Some (Zip ms done) \<Rightarrow> fs(partial_name path \<mapsto> Zip (ms @ [(name, d)]) done)
      | _ \<Rightarrow> fs)"
| "perform path CloseZip fs =
     (case fs (partial_name path) of
        Some (Zip ms done) \<Rightarrow> fs(partial_name path \<mapsto> Zip ms True)
      | _ \<Rightarrow> fs)"
| "perform path ReplaceFile fs = fs(path := fs (partial_name path), partial_name path := None)"

fun torn :: "string \<Rightarrow> file_op \<Rightarrow> disk_file option \<Rightarrow> files \<Rightarrow> files" where
  "torn path ReplaceFile junk fs = fs"
| "torn path _ junk fs = fs(partial_name path := junk)"

definition unlink_partial :: "string \<Rightarrow> files \<Rightarrow> files" where
  "unlink_partial path fs = fs(partial_name path := None)"

text \<open>The states the file system goes through, and whether the exception was raised.\<close>

fun perform_all :: "string \<Rightarrow> (nat \<times> disk_file option) option \<Rightarrow> file_op list \<Rightarrow> files \<Rightarrow> files list \<times> bool" where
  "perform_all path fault [] fs = ([fs], False)"
| "perform_all path (Some (0, junk)) (a # as) fs =
     ([fs, torn path a junk fs, unlink_partial path (torn path a junk fs)], True)"
| "perform_all path (Some (Suc k, junk)) (a # as) fs =
     (case perform_all path (Some (k, junk)) as (perform path a fs) of (states, raised) \<Rightarrow> (fs # states, raised))"
| "perform_all path None (a # as) fs =
     (case perform_all path None as (perform path a fs) of (states, raised) \<Rightarrow> (fs # states, raised))"

definition archive_members :: "capture \<Rightarrow> meta \<Rightarrow> bytes \<Rightarrow> (string \<times> member) list" where
  "archive_members c m session_vdo =
     [(''s2c.bin'', Octets (cap_s2c c)), (''c2s.bin'', Octets (cap_c2s c)),
      (''session.vdo'', Octets session_vdo), (''meta.json'', Document m)]"

definition write_archive ::
  "(nat \<times> disk_file option) option \<Rightarrow> string \<Rightarrow> meta \<Rightarrow> bytes \<Rightarrow> capture \<Rightarrow> files \<Rightarrow> capture \<times> files list \<times> bool" where
  "write_archive fault path m session_vdo c fs =
     (let c = flush_capture c in
      (c, perform_all path fault
        ([OpenZip] @ map (\<lambda>(name, d). WriteMember name d) (archive_members c m session_vdo)
          @ [CloseZip, ReplaceFile]) fs))"

section \<open>Loading\<close>

record archive =
  ar_s2c :: bytes
  ar_session_vdo :: bytes
  ar_meta :: "meta option"

definition auth_preserved :: "archive \<Rightarrow> bool" where
  "auth_preserved a = (case ar_meta a of None \<Rightarrow> False | Some m \<Rightarrow> m_auth m = ''preserved'')"

definition archived_version :: "archive \<Rightarrow> ver option" where
  "archived_version a = (case ar_meta a of None \<Rightarrow> None | Some m \<Rightarrow> m_negotiated m)"

text \<open>\<open>archive.read\<close>: of members with one name, the last.\<close>

definition read_member :: "string \<Rightarrow> (string \<times> member) list \<Rightarrow> member option" where
  "read_member name ms = map_of (rev ms) name"

fun member_octets :: "member \<Rightarrow> bytes" where
  "member_octets (Octets bs) = bs"
| "member_octets (Document m) = []"

definition load_capture :: "string \<Rightarrow> files \<Rightarrow> exn + archive" where
  "load_capture path fs =
     (case fs path of
        Some (Zip ms True) \<Rightarrow>
          (case read_member ''s2c.bin'' ms of
             None \<Rightarrow> Inl ValueError
           | Some d \<Rightarrow> Inr
               \<lparr>ar_s2c = member_octets d,
                ar_session_vdo = (case read_member ''session.vdo'' ms of None \<Rightarrow> [] | Some v \<Rightarrow> member_octets v),
                ar_meta = (case read_member ''meta.json'' ms of Some (Document m) \<Rightarrow> Some m | _ \<Rightarrow> None)\<rparr>)
      | _ \<Rightarrow> Inl ValueError)"

section \<open>The target name\<close>

text \<open>\<open>posixpath\<close>: \<open>normpath\<close> and \<open>abspath\<close>, \<open>dirname\<close>.\<close>

fun intercalate :: "string \<Rightarrow> string list \<Rightarrow> string" where
  "intercalate sep [] = []"
| "intercalate sep [w] = w"
| "intercalate sep (w # ws) = w @ sep @ intercalate sep ws"

text \<open>\<open>startswith\<close> and \<open>endswith\<close>.\<close>

definition starts_with :: "string \<Rightarrow> string \<Rightarrow> bool" where
  "starts_with p cs \<longleftrightarrow> take (length p) cs = p"

definition ends_with :: "string \<Rightarrow> string \<Rightarrow> bool" where
  "ends_with p cs \<longleftrightarrow> starts_with (rev p) (rev cs)"

fun norm_components :: "bool \<Rightarrow> string list \<Rightarrow> string list \<Rightarrow> string list" where
  "norm_components rooted acc [] = rev acc"
| "norm_components rooted acc (w # ws) =
     (if w = [] \<or> w = ''.'' then norm_components rooted acc ws
      else if w \<noteq> ''..'' \<or> (\<not> rooted \<and> acc = []) \<or> (acc \<noteq> [] \<and> hd acc = ''..'')
      then norm_components rooted (w # acc) ws
      else norm_components rooted (tl acc) ws)"

definition normpath :: "string \<Rightarrow> string" where
  "normpath path =
     (if path = [] then ''.'' else
      let slashes = (if starts_with ''//'' path \<and> \<not> starts_with ''///'' path then ''//''
                     else if starts_with ''/'' path then ''/'' else []);
          r = slashes @ intercalate ''/'' (norm_components (slashes \<noteq> []) [] (split_on (CHR ''/'') path))
      in if r = [] then ''.'' else r)"

definition join_path :: "string \<Rightarrow> string \<Rightarrow> string" where
  "join_path dir path =
     (if starts_with ''/'' path then path
      else if dir = [] \<or> ends_with ''/'' dir then dir @ path
      else dir @ ''/'' @ path)"

definition abspath :: "string \<Rightarrow> string \<Rightarrow> string" where
  "abspath cwd path = normpath (join_path cwd path)"

definition dirname :: "string \<Rightarrow> string" where
  "dirname path =
     (let head = rev (dropWhile (\<lambda>c. c \<noteq> CHR ''/'') (rev path))
      in if list_all (\<lambda>c. c = CHR ''/'') head then head
         else rev (dropWhile (\<lambda>c. c = CHR ''/'') (rev head)))"

text \<open>A directory tree without links: what exists at an absolute name, and the working directory.\<close>

record tree =
  tr_files :: files
  tr_dirs :: "string \<Rightarrow> bool"
  tr_cwd :: string

definition path_exists :: "tree \<Rightarrow> string \<Rightarrow> bool" where
  "path_exists t path \<longleftrightarrow> (let p = abspath (tr_cwd t) path in tr_files t p \<noteq> None \<or> tr_dirs t p)"

definition check_capture_target :: "tree \<Rightarrow> string \<Rightarrow> exn + unit" where
  "check_capture_target t path =
     (if \<not> ends_with ''.zip'' path then Inl ValueError
      else if path_exists t path then Inl ValueError
      else if \<not> tr_dirs t (dirname (abspath (tr_cwd t) path)) then Inl ValueError
      else Inr ())"

section \<open>Facts\<close>

lemma partial_name_neq [simp]: "partial_name path \<noteq> path" "path \<noteq> partial_name path"
  by (simp_all add: partial_name_def)

lemma perform_other: "p \<noteq> path \<Longrightarrow> p \<noteq> partial_name path \<Longrightarrow> perform path a fs p = fs p"
  by (cases a) (auto split: option.split disk_file.split)

lemma perform_path: "a \<noteq> ReplaceFile \<Longrightarrow> perform path a fs path = fs path"
  by (cases a) (auto split: option.split disk_file.split)

lemma torn_other: "p \<noteq> partial_name path \<Longrightarrow> torn path a junk fs p = fs p"
  by (cases a) simp_all

lemma perform_all_other:
  "p \<noteq> path \<Longrightarrow> p \<noteq> partial_name path \<Longrightarrow> s \<in> set (fst (perform_all path fault as fs)) \<Longrightarrow> s p = fs p"
  by (induction path fault as fs rule: perform_all.induct)
    (auto simp: perform_other torn_other unlink_partial_def split: prod.splits)

lemma perform_all_nonempty [simp]: "fst (perform_all path fault as fs) \<noteq> []"
  by (induction path fault as fs rule: perform_all.induct) (auto split: prod.split)

lemma perform_all_raised:
  "snd (perform_all path fault as fs) \<longleftrightarrow> (\<exists>k junk. fault = Some (k, junk) \<and> k < length as)"
  by (induction path fault as fs rule: perform_all.induct) (auto split: prod.split)

text \<open>Until the last call the target is untouched; a fault leaves it so.\<close>

lemma perform_all_target:
  "ReplaceFile \<notin> set as \<Longrightarrow> s \<in> set (fst (perform_all path fault (as @ [ReplaceFile]) fs)) \<Longrightarrow>
     s path = fs path \<or> s path = fold (perform path) as fs (partial_name path)"
proof (induction as arbitrary: fault fs)
  case Nil
  then show ?case by (cases fault rule: option.exhaust; (cases "the fault" rule: prod.exhaust; cases "fst (the fault)")?)
      (auto simp: unlink_partial_def)
next
  case (Cons a as)
  have a: "ReplaceFile \<notin> set as" "perform path a fs path = fs path"
    using Cons.prems(1) perform_path [of a path fs] by auto
  have IH: "s path = fs path \<or> s path = fold (perform path) (a # as) fs (partial_name path)"
    if "s \<in> set (fst (perform_all path f' (as @ [ReplaceFile]) (perform path a fs)))" for f'
    using Cons.IH [OF a(1) that] a(2) by simp
  show ?case
  proof (cases fault)
    case None
    with Cons.prems IH [of None] show ?thesis by (auto split: prod.splits)
  next
    case (Some f)
    then obtain k junk where f: "fault = Some (k, junk)" by (cases f) auto
    with Cons.prems IH [of "Some (k - 1, junk)"] show ?thesis
      by (cases k) (auto simp: torn_other unlink_partial_def split: prod.splits)
  qed
qed

lemma perform_members:
  "fs (partial_name path) = Some (Zip ms b) \<Longrightarrow>
     fold (perform path) (map (\<lambda>(name, d). WriteMember name d) ds) fs = fs(partial_name path \<mapsto> Zip (ms @ ds) b)"
proof (induction ds arbitrary: fs ms)
  case (Cons d ds)
  obtain name x where d: "d = (name, x)" by fastforce
  have step: "perform path (WriteMember name x) fs = fs(partial_name path \<mapsto> Zip (ms @ [d]) b)"
    using Cons.prems by (simp add: d)
  have "fold (perform path) (map (\<lambda>(name, d). WriteMember name d) ds) (fs(partial_name path \<mapsto> Zip (ms @ [d]) b)) =
      fs(partial_name path \<mapsto> Zip (ms @ [d]) b, partial_name path \<mapsto> Zip ((ms @ [d]) @ ds) b)"
    by (rule Cons.IH) simp
  also have "\<dots> = fs(partial_name path \<mapsto> Zip (ms @ d # ds) b)" by (simp only: fun_upd_upd append.simps append_assoc)
  finally show ?case by (simp only: list.map d prod.case fold.simps comp_apply step [unfolded d])
qed (simp add: fun_upd_idem)

definition archive_ops :: "(string \<times> member) list \<Rightarrow> file_op list" where
  "archive_ops ds = [OpenZip] @ map (\<lambda>(name, d). WriteMember name d) ds @ [CloseZip]"

lemma archive_ops_no_replace: "ReplaceFile \<notin> set (archive_ops ds)"
  by (auto simp: archive_ops_def)

lemma archive_ops_result: "fold (perform path) (archive_ops ds) fs (partial_name path) = Some (Zip ds True)"
proof -
  have "fold (perform path) (map (\<lambda>(name, d). WriteMember name d) ds) (perform path OpenZip fs) (partial_name path) = Some (Zip ds False)"
    by (subst perform_members [where ms = "[]" and b = False]) simp_all
  then show ?thesis by (simp add: archive_ops_def)
qed

lemma perform_all_None_last: "last (fst (perform_all path None as fs)) = fold (perform path) as fs"
proof (induction as arbitrary: fs)
  case (Cons a as)
  from Cons.IH [of "perform path a fs"] show ?case
    using perform_all_nonempty [of path None as "perform path a fs"] by (auto split: prod.split simp del: perform_all_nonempty)
qed simp

lemma perform_all_late:
  "length as \<le> k \<Longrightarrow> perform_all path (Some (k, junk)) as fs = perform_all path None as fs"
proof (induction as arbitrary: k fs)
  case (Cons a as)
  then obtain k' where "k = Suc k'" "length as \<le> k'" by (cases k) auto
  with Cons.IH show ?case by simp
qed simp

lemma perform_all_raised_last:
  "snd (perform_all path fault as fs) \<Longrightarrow> last (fst (perform_all path fault as fs)) (partial_name path) = None"
proof (induction path fault as fs rule: perform_all.induct)
  case (3 path k junk a as fs)
  then show ?case using perform_all_nonempty [of path "Some (k, junk)" as "perform path a fs"]
    by (auto split: prod.splits simp del: perform_all_nonempty)
next
  case (4 path a as fs)
  then show ?case using perform_all_nonempty [of path None as "perform path a fs"]
    by (auto split: prod.splits simp del: perform_all_nonempty)
qed (auto simp: unlink_partial_def)

lemma write_archive_each:
  assumes "s \<in> set (fst (snd (write_archive fault path m vdo c fs)))"
  shows "s path \<in> {fs path, Some (Zip (archive_members (flush_capture c) m vdo) True)} \<and>
    (\<forall>p. p \<in> {path, partial_name path} \<or> s p = fs p)"
proof -
  let ?ops = "archive_ops (archive_members (flush_capture c) m vdo) @ [ReplaceFile]"
  have s: "s \<in> set (fst (perform_all path fault ?ops fs))"
    using assms by (simp add: write_archive_def archive_ops_def Let_def)
  show ?thesis
    using perform_all_target [OF archive_ops_no_replace s] perform_all_other [OF _ _ s]
    by (auto simp: archive_ops_result)
qed

lemma write_archive_last:
  "last (fst (snd (write_archive fault path m vdo c fs))) path
     \<in> {fs path, Some (Zip (archive_members (flush_capture c) m vdo) True)}"
  "p \<noteq> path \<Longrightarrow> p \<noteq> partial_name path \<Longrightarrow> last (fst (snd (write_archive fault path m vdo c fs))) p = fs p"
proof -
  have "last (fst (snd (write_archive fault path m vdo c fs))) \<in> set (fst (snd (write_archive fault path m vdo c fs)))"
    by (rule last_in_set) (simp add: write_archive_def Let_def)
  from write_archive_each [OF this] show
    "last (fst (snd (write_archive fault path m vdo c fs))) path
       \<in> {fs path, Some (Zip (archive_members (flush_capture c) m vdo) True)}"
    "p \<noteq> path \<Longrightarrow> p \<noteq> partial_name path \<Longrightarrow> last (fst (snd (write_archive fault path m vdo c fs))) p = fs p"
    by auto
qed

lemma write_archive_partial: "last (fst (snd (write_archive fault path m vdo c fs))) (partial_name path) = None"
  and write_archive_done: "\<not> snd (snd (write_archive fault path m vdo c fs)) \<Longrightarrow>
    last (fst (snd (write_archive fault path m vdo c fs))) path = Some (Zip (archive_members (flush_capture c) m vdo) True)"
proof -
  let ?ds = "archive_members (flush_capture c) m vdo"
  let ?r = "perform_all path fault (archive_ops ?ds @ [ReplaceFile]) fs"
  have r: "snd (write_archive fault path m vdo c fs) = ?r"
    by (simp add: write_archive_def archive_ops_def Let_def)
  have "last (fst ?r) (partial_name path) = None \<and> (snd ?r \<or> last (fst ?r) path = Some (Zip ?ds True))"
  proof (cases "snd ?r")
    case True
    then show ?thesis by (simp add: perform_all_raised_last)
  next
    case False
    then have "fault = None \<or> (\<exists>k junk. fault = Some (k, junk) \<and> length (archive_ops ?ds @ [ReplaceFile]) \<le> k)"
      by (cases fault) (auto simp: perform_all_raised not_less)
    then have "?r = perform_all path None (archive_ops ?ds @ [ReplaceFile]) fs"
      by (auto simp: perform_all_late)
    then show ?thesis by (simp add: perform_all_None_last archive_ops_result)
  qed
  then show "last (fst (snd (write_archive fault path m vdo c fs))) (partial_name path) = None"
    "\<not> snd (snd (write_archive fault path m vdo c fs)) \<Longrightarrow>
      last (fst (snd (write_archive fault path m vdo c fs))) path = Some (Zip ?ds True)"
    by (simp_all add: r)
qed


lemma load_written:
  "load_capture path (last (fst (snd (write_archive None path m vdo c fs)))) =
     Inr \<lparr>ar_s2c = cap_s2c (flush_capture c), ar_session_vdo = vdo, ar_meta = Some m\<rparr>"
proof -
  let ?ds = "archive_members (flush_capture c) m vdo"
  have "last (fst (snd (write_archive None path m vdo c fs))) path = Some (Zip ?ds True)"
    using perform_all_None_last [of path "archive_ops ?ds @ [ReplaceFile]" fs]
    by (simp add: write_archive_def archive_ops_def [symmetric] Let_def archive_ops_result)
      (simp add: archive_ops_def archive_ops_result [unfolded archive_ops_def, simplified])
  then show ?thesis by (simp add: load_capture_def read_member_def archive_members_def)
qed

text \<open>A capture that was written can be replayed as it was recorded: the archive, once written under
  a name, loads back from it as the flushed stream, the session log and the metadata, from which
  replay reads the same negotiated version and whether authentication was preserved.\<close>

lemma archive_round_trip:
  "let m = capture_meta server timestamp version c
   in case load_capture path (last (fst (snd (write_archive None path m vdo c fs)))) of
        Inl e \<Rightarrow> False
      | Inr a \<Rightarrow> ar_s2c a = cap_s2c (flush_capture c) \<and> ar_session_vdo a = vdo \<and>
          archived_version a = negotiated_version (cap_scrubber c) \<and>
          auth_preserved a = preserve_auth (cap_scrubber c)"
  by (simp add: load_written archived_version_def auth_preserved_def capture_meta_def Let_def)

end
