(* ===== verification/Rfb_Messages.thy ===== *)
theory Rfb_Messages
  imports Rfb_State
begin

text \<open>
  The client-to-server messages of \<open>rfb.RFBClient\<close>, from \<open>setPixelFormat\<close> to
  \<open>clientCutText\<close>, packed with the source's own format strings.

  \<open>client_msg\<close> and \<open>msg_bytes\<close> restate section 7.5 of RFC 6143: the messages as data and
  their octets. The lemmas show that each method writes the octets of its message, and raises
  exactly when a field does not fit; the replay and logging servers, which read these
  messages, are verified against \<open>msg_bytes\<close>.
\<close>

section \<open>The methods\<close>

definition setPixelFormat :: "PixelFormat \<Rightarrow> 'a client \<Rightarrow> 'a client outcome" where
  "setPixelFormat pf s =
     with_value (to_bytes pf) s (\<lambda>pixformat.
       and_then (transport_write (struct_pack ''!Bxxx16s'' [PInt C2S_SET_PIXEL_FORMAT, PBytes pixformat]) s)
         (\<lambda>s. Ret (s\<lparr>pixel_format := pf\<rparr>)))"

fun offer_encodings :: "int list \<Rightarrow> 'a client \<Rightarrow> 'a client outcome" where
  "offer_encodings [] s = Ret s"
| "offer_encodings (e # es) s =
     and_then (transport_write (struct_pack ''!i'' [PInt e]) s) (offer_encodings es)"

definition setEncodings :: "int list \<Rightarrow> 'a client \<Rightarrow> 'a client outcome" where
  "setEncodings es s =
     and_then (transport_write (struct_pack ''!BxH'' [PInt C2S_SET_ENCODING, PInt (int (length es))]) s)
       (offer_encodings es)"

definition framebufferUpdateRequest ::
  "int \<Rightarrow> int \<Rightarrow> int option \<Rightarrow> int option \<Rightarrow> bool \<Rightarrow> 'a client \<Rightarrow> 'a client outcome" where
  "framebufferUpdateRequest x y width height incremental s =
     (let width = (case width of None \<Rightarrow> fb_width s - x | Some w \<Rightarrow> w);
          height = (case height of None \<Rightarrow> fb_height s - y | Some h \<Rightarrow> h)
      in transport_write (struct_pack ''!BBHHHH''
           [PInt C2S_FRAMEBUFFER_UPDATE_REQUEST, PBool incremental, PInt x, PInt y, PInt width, PInt height]) s)"

definition keyEvent :: "int \<Rightarrow> bool \<Rightarrow> 'a client \<Rightarrow> 'a client outcome" where
  "keyEvent key down s =
     transport_write (struct_pack ''!BBxxI'' [PInt C2S_KEY_EVENT, PBool down, PInt key]) s"

definition pointerEvent :: "int \<Rightarrow> int \<Rightarrow> int \<Rightarrow> 'a client \<Rightarrow> 'a client outcome" where
  "pointerEvent x y buttonmask s =
     transport_write (struct_pack ''!BBHH'' [PInt C2S_POINTER_EVENT, PInt buttonmask, PInt x, PInt y]) s"

text \<open>\<open>str.encode("iso-8859-1")\<close> on a string given by its code points.\<close>

definition encode_latin1 :: "int list \<Rightarrow> exn + bytes" where
  "encode_latin1 cs = (if \<forall>c \<in> set cs. 0 \<le> c \<and> c < 256 then Inr (map word_of_int cs) else Inl UnicodeError)"

definition clientCutText :: "int list \<Rightarrow> 'a client \<Rightarrow> 'a client outcome" where
  "clientCutText text s =
     with_value (encode_latin1 text) s (\<lambda>data.
       transport_write (bind_sum (struct_pack ''!BxxxI'' [PInt C2S_CLIENT_CUT_TEXT, PInt (int (length data))])
         (\<lambda>head. Inr (head @ data))) s)"

section \<open>The messages of the standard\<close>

datatype client_msg =
    MsgPixelFormat PixelFormat
  | MsgEncodings "int list"
  | MsgUpdateRequest bool int int int int
  | MsgKey bool int
  | MsgPointer int int int
  | MsgCutText bytes

abbreviation u8 :: "int \<Rightarrow> bool" where "u8 v \<equiv> 0 \<le> v \<and> v < 256"
abbreviation u16 :: "int \<Rightarrow> bool" where "u16 v \<equiv> 0 \<le> v \<and> v < 65536"
abbreviation u32 :: "int \<Rightarrow> bool" where "u32 v \<equiv> 0 \<le> v \<and> v < 4294967296"
abbreviation i32 :: "int \<Rightarrow> bool" where "i32 v \<equiv> - 2147483648 \<le> v \<and> v < 2147483648"

fun msg_ok :: "client_msg \<Rightarrow> bool" where
  "msg_ok (MsgPixelFormat pf) = wire_format pf"
| "msg_ok (MsgEncodings es) = (length es < 65536 \<and> (\<forall>e \<in> set es. i32 e))"
| "msg_ok (MsgUpdateRequest inc x y w h) = (u16 x \<and> u16 y \<and> u16 w \<and> u16 h)"
| "msg_ok (MsgKey down key) = u32 key"
| "msg_ok (MsgPointer buttons x y) = (u8 buttons \<and> u16 x \<and> u16 y)"
| "msg_ok (MsgCutText data) = (length data < 4294967296)"

definition pf_octets :: "PixelFormat \<Rightarrow> bytes" where
  "pf_octets pf = (case to_bytes pf of Inr bs \<Rightarrow> bs | Inl e \<Rightarrow> [])"

fun msg_bytes :: "client_msg \<Rightarrow> bytes" where
  "msg_bytes (MsgPixelFormat pf) = [0, 0, 0, 0] @ pf_octets pf"
| "msg_bytes (MsgEncodings es) =
     [2, 0] @ to_be 2 (int (length es)) @ concat (map (\<lambda>e. to_be 4 (e mod 4294967296)) es)"
| "msg_bytes (MsgUpdateRequest inc x y w h) =
     [3, of_bool inc] @ to_be 2 x @ to_be 2 y @ to_be 2 w @ to_be 2 h"
| "msg_bytes (MsgKey down key) = [4, of_bool down, 0, 0] @ to_be 4 key"
| "msg_bytes (MsgPointer buttons x y) = [5, word_of_int buttons] @ to_be 2 x @ to_be 2 y"
| "msg_bytes (MsgCutText data) = [6, 0, 0, 0] @ to_be 4 (int (length data)) @ data"

section \<open>What each method writes\<close>

lemmas pack_defs = struct_pack_def parse_format_def digit_value_def item_fields_def pack_int_def

lemma one_octet: "to_be 1 v = [word_of_int v]" "to_be (Suc 0) v = [word_of_int v]"
  by simp_all

lemma pack_messages [wire]:
  "length bs = 16 \<Longrightarrow> struct_pack ''!Bxxx16s'' [PInt C2S_SET_PIXEL_FORMAT, PBytes bs] = Inr ([0, 0, 0, 0] @ bs)"
  "struct_pack ''!BxH'' [PInt C2S_SET_ENCODING, PInt n] = (if u16 n then Inr ([2, 0] @ to_be 2 n) else Inl StructError)"
  "struct_pack ''!i'' [PInt e] = (if i32 e then Inr (to_be 4 (e mod 4294967296)) else Inl StructError)"
  "struct_pack ''!BBHHHH'' [PInt C2S_FRAMEBUFFER_UPDATE_REQUEST, PBool inc, PInt x, PInt y, PInt w, PInt h] =
     (if u16 x \<and> u16 y \<and> u16 w \<and> u16 h then Inr (msg_bytes (MsgUpdateRequest inc x y w h)) else Inl StructError)"
  "struct_pack ''!BBxxI'' [PInt C2S_KEY_EVENT, PBool down, PInt key] =
     (if u32 key then Inr (msg_bytes (MsgKey down key)) else Inl StructError)"
  "struct_pack ''!BBHH'' [PInt C2S_POINTER_EVENT, PInt b, PInt x, PInt y] =
     (if u8 b \<and> u16 x \<and> u16 y then Inr (msg_bytes (MsgPointer b x y)) else Inl StructError)"
  "struct_pack ''!BxxxI'' [PInt C2S_CLIENT_CUT_TEXT, PInt n] =
     (if u32 n then Inr ([6, 0, 0, 0] @ to_be 4 n) else Inl StructError)"
  by (simp_all add: pack_defs one_octet del: to_be.simps)

text \<open>The bytes a trace puts on the wire, in order.\<close>

fun written :: "io list \<Rightarrow> bytes" where
  "written [] = []"
| "written (Write bs # t) = bs @ written t"
| "written (_ # t) = written t"

lemma written_append [simp]: "written (t @ u) = written t @ written u"
  by (induction t rule: written.induct) simp_all

lemma pack_fields_error: "pack_fields fs vs = Inl e \<Longrightarrow> e = StructError"
proof (induction fs vs rule: pack_fields.induct)
  case (4 sg k fs v vs)
  then show ?case
    by (cases v; cases "pack_fields fs vs") (auto simp: pack_int_def split: if_splits)
next
  case (3 fs vs)
  then show ?case by (cases "pack_fields fs vs") simp_all
next
  case (5 fs v vs)
  then show ?case by (cases "pack_fields fs vs") simp_all
next
  case (6 n fs bs vs)
  then show ?case by (cases "pack_fields fs vs") simp_all
qed auto

lemma to_bytes_cases: "to_bytes pf = (if wire_format pf then Inr (pf_octets pf) else Inl StructError)"
proof (cases "wire_format pf")
  case True
  then show ?thesis using to_bytes_iff [of pf] by (auto simp: pf_octets_def)
next
  case False
  then obtain e where e: "to_bytes pf = Inl e" using to_bytes_iff [of pf] by (cases "to_bytes pf") auto
  then have "e = StructError"
    by (auto simp: to_bytes_def struct_pack_def parse_PixelFormat_STRUCT dest: pack_fields_error)
  with False e show ?thesis by simp
qed

lemma length_pf_octets [simp]: "wire_format pf \<Longrightarrow> length (pf_octets pf) = 16"
  using to_from_bytes(2) [of pf "pf_octets pf"] by (simp add: to_bytes_cases)

lemma from_pf_octets [simp]: "wire_format pf \<Longrightarrow> from_bytes (pf_octets pf) = Inr pf"
  using to_from_bytes(1) [of pf "pf_octets pf"] by (simp add: to_bytes_cases)

definition encoding_octets :: "int \<Rightarrow> bytes" where
  "encoding_octets e = to_be 4 (e mod 4294967296)"

lemma offer_encodings_writes:
  "offer_encodings es s =
     (let t = s\<lparr>trace := trace s @ map (\<lambda>e. Write (encoding_octets e)) (takeWhile i32 es)\<rparr>
      in if list_all i32 es then Ret t else Raise StructError t)"
proof (induction es arbitrary: s)
  case (Cons e es)
  then show ?case
    by (auto simp: transport_write_def wire log_io_def encoding_octets_def Let_def)
qed simp

text \<open>The outcome of each method. A failed \<open>setEncodings\<close> leaves a message cut short behind, since
  it writes in pieces; the others write nothing when they raise.\<close>

lemma message_writes:
  "setPixelFormat pf s =
     (if wire_format pf then Ret ((log_io (Write (msg_bytes (MsgPixelFormat pf))) s)\<lparr>pixel_format := pf\<rparr>)
      else Raise StructError s)"
  "setEncodings es s =
     (if length es < 65536 then
        let t = s\<lparr>trace := trace s @ Write ([2, 0] @ to_be 2 (int (length es)))
                    # map (\<lambda>e. Write (encoding_octets e)) (takeWhile i32 es)\<rparr>
        in if list_all i32 es then Ret t else Raise StructError t
      else Raise StructError s)"
  "framebufferUpdateRequest x y w' h' inc s =
     (let w = case_option (fb_width s - x) id w'; h = case_option (fb_height s - y) id h'; m = MsgUpdateRequest inc x y w h
      in if msg_ok m then Ret (log_io (Write (msg_bytes m)) s) else Raise StructError s)"
  "keyEvent key down s =
     (if msg_ok (MsgKey down key) then Ret (log_io (Write (msg_bytes (MsgKey down key))) s) else Raise StructError s)"
  "pointerEvent x y b s =
     (if msg_ok (MsgPointer b x y) then Ret (log_io (Write (msg_bytes (MsgPointer b x y))) s) else Raise StructError s)"
  "clientCutText text s =
     (if \<not> list_all u8 text then Raise UnicodeError s
      else if length text < 4294967296
      then Ret (log_io (Write (msg_bytes (MsgCutText (map word_of_int text)))) s) else Raise StructError s)"
  by (simp_all add: setPixelFormat_def to_bytes_cases transport_write_def wire setEncodings_def offer_encodings_writes
      log_io_def framebufferUpdateRequest_def keyEvent_def pointerEvent_def clientCutText_def encode_latin1_def
      list_all_iff Let_def del: to_be.simps split: option.split)

fun send :: "client_msg \<Rightarrow> 'a client \<Rightarrow> 'a client outcome" where
  "send (MsgPixelFormat pf) s = setPixelFormat pf s"
| "send (MsgEncodings es) s = setEncodings es s"
| "send (MsgUpdateRequest inc x y w h) s = framebufferUpdateRequest x y (Some w) (Some h) inc s"
| "send (MsgKey down key) s = keyEvent key down s"
| "send (MsgPointer b x y) s = pointerEvent x y b s"
| "send (MsgCutText data) s = clientCutText (map uint data) s"

lemma written_offers:
  "written (map (\<lambda>e. Write (encoding_octets e)) es) = concat (map encoding_octets es)"
  by (induction es) simp_all


end
