(* ===== verification/Tile_Codec.thy ===== *)
theory Tile_Codec
  imports Prelude
begin

text \<open>
  The pure part of the tiled encodings of \<open>rfb.py\<close>: the scan of tiles that Hextile (16 pixels)
  and ZRLE (64 pixels) share, and ZRLE's tile decoder, which reads an iterator over the
  decompressed bytes; an iterator is the list of bytes it has left. \<open>next\<close> on an exhausted one
  raises \<open>StopIteration\<close>, and inside a generator that becomes a \<open>RuntimeError\<close>.
\<close>

unbundle bit_operations_syntax

section \<open>The scan of tiles\<close>

text \<open>Tile size at \<open>t\<close> in an axis that ends at \<open>tile_end\<close>.\<close>

definition tile_extent :: "int \<Rightarrow> int \<Rightarrow> int \<Rightarrow> int" where
  "tile_extent full tile_end t = (if tile_end - t < full then tile_end - t else full)"

definition next_tile :: "int \<Rightarrow> int \<Rightarrow> int \<Rightarrow> int \<times> int \<Rightarrow> int \<times> int" where
  "next_tile full x width = (\<lambda>(tx, ty).
     let tx = tx + full in if tx \<ge> x + width then (x, ty + full) else (tx, ty))"

section \<open>ZRLE\<close>

definition next_byte :: "bytes \<Rightarrow> exn + byte \<times> bytes" where
  "next_byte it = (case it of [] \<Rightarrow> Inl StopIteration | b # it \<Rightarrow> Inr (b, it))"

definition cpixel :: "bytes \<Rightarrow> exn + bytes \<times> bytes" where
  "cpixel it = (case it of a # b # c # it \<Rightarrow> Inr ([a, b, c, 0xFF], it) | _ \<Rightarrow> Inl StopIteration)"

text \<open>\<open>[cpixel(it) for _ in range(n)]\<close>.\<close>

primrec cpixels :: "nat \<Rightarrow> bytes \<Rightarrow> exn + bytes list \<times> bytes" where
  "cpixels 0 it = Inr ([], it)"
| "cpixels (Suc n) it = bind_sum (cpixel it) (\<lambda>(p, it). bind_sum (cpixels n it) (\<lambda>(ps, it). Inr (p # ps, it)))"

text \<open>The body of \<open>do_rle\<close>: the run length, then the pixels it adds.\<close>

fun rle_length :: "int \<Rightarrow> bytes \<Rightarrow> exn + int \<times> bytes" where
  "rle_length acc [] = Inl StopIteration"
| "rle_length acc (b # it) = (if uint b = 255 then rle_length (acc + 255) it else Inr (acc + uint b, it))"

definition do_rle :: "bytes \<Rightarrow> bytes \<Rightarrow> exn + bytes \<times> int \<times> bytes" where
  "do_rle pixel it = bind_sum (rle_length 0 it) (\<lambda>(run_length, it).
     Inr (py_repeat pixel (run_length + 1), run_length + 1, it))"

lemma bind_sum_cong [fundef_cong]:
  "r = r' \<Longrightarrow> (\<And>v. r' = Inr v \<Longrightarrow> f v = f' v) \<Longrightarrow> bind_sum r f = bind_sum r' f'"
  by (cases r') simp_all

lemma cpixel_shorter: "cpixel it = Inr (p, it') \<Longrightarrow> length it = length it' + 3"
  by (auto simp: cpixel_def split: list.splits)

lemma cpixels_shorter: "cpixels n it = Inr (ps, it') \<Longrightarrow> length it = length it' + 3 * n \<and> length ps = n"
  by (induction n arbitrary: it ps) (auto simp: bind_sum_Inr_iff dest!: cpixel_shorter)

lemma rle_length_shorter: "rle_length acc it = Inr (n, it') \<Longrightarrow> length it' < length it"
  by (induction acc it rule: rle_length.induct) (auto split: if_splits)

lemma do_rle_shorter: "do_rle p it = Inr (r, n, it') \<Longrightarrow> length it' < length it"
  by (auto simp: do_rle_def bind_sum_Inr_iff dest: rle_length_shorter)

lemma next_byte_shorter: "next_byte it = Inr (b, it') \<Longrightarrow> length it = Suc (length it')"
  by (auto simp: next_byte_def split: list.splits)

function plain_rle :: "int \<Rightarrow> int \<Rightarrow> bytes \<Rightarrow> bytes \<Rightarrow> exn + bytes \<times> bytes" where
  "plain_rle pixels_in_tile num_pixels pixel_data it =
     (if num_pixels < pixels_in_tile then
        bind_sum (cpixel it) (\<lambda>(color, it).
        bind_sum (do_rle color it) (\<lambda>(run, n, it).
          plain_rle pixels_in_tile (num_pixels + n) (pixel_data @ run) it))
      else if num_pixels \<noteq> pixels_in_tile then Inl ValueError
      else Inr (pixel_data, it))"
  by pat_completeness auto
termination
  by (relation "measure (\<lambda>(_, _, _, it). length it)") (auto dest!: cpixel_shorter do_rle_shorter)

function palette_rle :: "bytes list \<Rightarrow> int \<Rightarrow> int \<Rightarrow> bytes \<Rightarrow> bytes \<Rightarrow> exn + bytes \<times> bytes" where
  "palette_rle palette pixels_in_tile num_pixels pixel_data it =
     (if num_pixels < pixels_in_tile then
        bind_sum (next_byte it) (\<lambda>(b, it).
        bind_sum (py_index palette (uint b AND 0x7F)) (\<lambda>pixel.
          if uint b AND 0x80 \<noteq> 0 then
            bind_sum (do_rle pixel it) (\<lambda>(run, n, it).
              palette_rle palette pixels_in_tile (num_pixels + n) (pixel_data @ run) it)
          else palette_rle palette pixels_in_tile (num_pixels + 1) (pixel_data @ pixel) it))
      else if num_pixels \<noteq> pixels_in_tile then Inl ValueError
      else Inr (pixel_data, it))"
  by pat_completeness auto
termination
  by (relation "measure (\<lambda>(_, _, _, _, it). length it)") (auto dest!: next_byte_shorter do_rle_shorter)

declare plain_rle.simps [simp del] palette_rle.simps [simp del]

text \<open>
  \<open>_zrle_next_bit\<close>, \<open>_zrle_next_dibit\<close>, \<open>_zrle_next_nibble\<close>: the indices of one byte, most
  significant first.
\<close>

definition zrle_next_bit :: "byte \<Rightarrow> int list" where
  "zrle_next_bit b = map (\<lambda>n. drop_bit (7 - n) (uint b) AND 1) [0, 1, 2, 3, 4, 5, 6, 7]"

definition zrle_next_dibit :: "byte \<Rightarrow> int list" where
  "zrle_next_dibit b = map (\<lambda>n. drop_bit (6 - n) (uint b) AND 3) [0, 2, 4, 6]"

definition zrle_next_nibble :: "byte \<Rightarrow> int list" where
  "zrle_next_nibble b = map (\<lambda>n. drop_bit (4 - n) (uint b) AND 15) [0, 4]"

text \<open>
  The loop \<open>for palette_index in next_index\<close> over such a generator: an index is looked up before
  the generator resumes, counts it and stops at \<open>pixels_in_tile\<close> (\<open>None\<close> as the count).
\<close>

fun packed_indices ::
  "bytes list \<Rightarrow> int \<Rightarrow> int \<Rightarrow> bytes \<Rightarrow> int list \<Rightarrow> exn + int option \<times> bytes" where
  "packed_indices palette pixels_in_tile num_pixels pixel_data [] = Inr (Some num_pixels, pixel_data)"
| "packed_indices palette pixels_in_tile num_pixels pixel_data (i # is) =
     bind_sum (py_index palette i) (\<lambda>pixel.
       let pixel_data = pixel_data @ pixel; num_pixels = num_pixels + 1 in
       if num_pixels = pixels_in_tile then Inr (None, pixel_data)
       else packed_indices palette pixels_in_tile num_pixels pixel_data is)"

fun packed_palette ::
  "(byte \<Rightarrow> int list) \<Rightarrow> bytes list \<Rightarrow> int \<Rightarrow> int \<Rightarrow> bytes \<Rightarrow> bytes \<Rightarrow> exn + bytes \<times> bytes" where
  "packed_palette indices palette pixels_in_tile num_pixels pixel_data [] = Inl RuntimeError"
| "packed_palette indices palette pixels_in_tile num_pixels pixel_data (b # it) =
     bind_sum (packed_indices palette pixels_in_tile num_pixels pixel_data (indices b)) (\<lambda>(count, pixel_data).
       case count of
         None \<Rightarrow> Inr (pixel_data, it)
       | Some num_pixels \<Rightarrow> packed_palette indices palette pixels_in_tile num_pixels pixel_data it)"

definition packing :: "int \<Rightarrow> byte \<Rightarrow> int list" where
  "packing palette_size =
     (if palette_size = 2 then zrle_next_bit
      else if palette_size = 3 \<or> palette_size = 4 then zrle_next_dibit
      else zrle_next_nibble)"

datatype tile = TileData bytes | TileFill bytes

definition zrle_tile :: "int \<Rightarrow> int \<Rightarrow> bytes \<Rightarrow> exn + tile \<times> bytes" where
  "zrle_tile subencoding pixels_in_tile it =
     (let palette_size = subencoding AND 127 in
      if subencoding AND 0x80 \<noteq> 0 then
        if palette_size = 0 then
          bind_sum (plain_rle pixels_in_tile 0 [] it) (\<lambda>(d, it). Inr (TileData d, it))
        else
          bind_sum (cpixels (nat palette_size) it) (\<lambda>(palette, it).
          bind_sum (palette_rle palette pixels_in_tile 0 [] it) (\<lambda>(d, it). Inr (TileData d, it)))
      else if palette_size = 0 then
        bind_sum (cpixels (nat pixels_in_tile) it) (\<lambda>(ps, it). Inr (TileData (concat ps), it))
      else if palette_size = 1 then
        bind_sum (cpixel it) (\<lambda>(color, it). Inr (TileFill color, it))
      else if palette_size > 16 then Inl ValueError
      else
        bind_sum (cpixels (nat palette_size) it) (\<lambda>(palette, it).
        bind_sum (packed_palette (packing palette_size) palette pixels_in_tile 0 [] it) (\<lambda>(d, it).
          Inr (TileData d, it))))"

text \<open>One round of each loop.\<close>

lemma plain_rle_Inr:
  "plain_rle tot n acc it = Inr (d, it') \<longleftrightarrow>
     (if n < tot then \<exists>c it1 run k it2. cpixel it = Inr (c, it1) \<and> do_rle c it1 = Inr (run, k, it2) \<and>
        plain_rle tot (n + k) (acc @ run) it2 = Inr (d, it')
      else n = tot \<and> d = acc \<and> it' = it)"
  by (subst plain_rle.simps) (auto simp: bind_sum_Inr_iff)

lemma palette_rle_Inr:
  "palette_rle palette tot n acc it = Inr (d, it') \<longleftrightarrow>
     (if n < tot then \<exists>b it1 pixel. next_byte it = Inr (b, it1) \<and> py_index palette (uint b AND 0x7F) = Inr pixel \<and>
        (if uint b AND 0x80 \<noteq> 0 then \<exists>run k it2. do_rle pixel it1 = Inr (run, k, it2) \<and>
           palette_rle palette tot (n + k) (acc @ run) it2 = Inr (d, it')
         else palette_rle palette tot (n + 1) (acc @ pixel) it1 = Inr (d, it'))
      else n = tot \<and> d = acc \<and> it' = it)"
  by (subst palette_rle.simps) (auto simp: bind_sum_Inr_iff)

lemma plain_rle_shorter: "plain_rle tot n acc it = Inr (d, it') \<Longrightarrow> length it' \<le> length it"
proof (induction "length it" arbitrary: n acc it rule: less_induct)
  case less
  show ?case
  proof (cases "n < tot")
    case True
    with less.prems obtain c it1 run k it2 where c: "cpixel it = Inr (c, it1)"
      and run: "do_rle c it1 = Inr (run, k, it2)" and rest: "plain_rle tot (n + k) (acc @ run) it2 = Inr (d, it')"
      by (auto simp: plain_rle_Inr [of tot n acc])
    from cpixel_shorter [OF c] do_rle_shorter [OF run] have "length it2 < length it" by linarith
    with less.hyps rest show ?thesis by fastforce
  next
    case False
    with less.prems show ?thesis by (simp add: plain_rle_Inr [of tot n acc])
  qed
qed

lemma palette_rle_shorter: "palette_rle palette tot n acc it = Inr (d, it') \<Longrightarrow> length it' \<le> length it"
proof (induction "length it" arbitrary: n acc it rule: less_induct)
  case less
  show ?case
  proof (cases "n < tot")
    case True
    with less.prems obtain b it1 pixel where b: "next_byte it = Inr (b, it1)"
      and body: "if uint b AND 0x80 \<noteq> 0 then \<exists>run k it2. do_rle pixel it1 = Inr (run, k, it2) \<and>
           palette_rle palette tot (n + k) (acc @ run) it2 = Inr (d, it')
         else palette_rle palette tot (n + 1) (acc @ pixel) it1 = Inr (d, it')"
      by (auto simp only: palette_rle_Inr [of palette tot n acc] if_True)
    from body obtain it2 n' acc' where le: "length it2 \<le> length it1"
      and rest: "palette_rle palette tot n' acc' it2 = Inr (d, it')"
      by (metis do_rle_shorter less_imp_le order_refl)
    from next_byte_shorter [OF b] le have "length it2 < length it" by linarith
    with less.hyps rest show ?thesis by fastforce
  next
    case False
    with less.prems show ?thesis by (simp add: palette_rle_Inr [of palette tot n acc])
  qed
qed

lemma packed_palette_shorter:
  "packed_palette indices palette tot n acc it = Inr (d, it') \<Longrightarrow> length it' \<le> length it"
  by (induction it arbitrary: n acc) (fastforce simp: bind_sum_Inr_iff split: option.splits)+

lemma zrle_tile_shorter: "zrle_tile sub tot it = Inr (t, it') \<Longrightarrow> length it' \<le> length it"
  by (fastforce simp: zrle_tile_def Let_def bind_sum_Inr_iff split: if_splits
      dest: cpixel_shorter cpixels_shorter plain_rle_shorter palette_rle_shorter packed_palette_shorter)

text \<open>
  The tile loop of \<open>_handleDecodeZRLEdata\<close>: the tiles it decodes, each with its place, and the
  exception that stops it, if any. It runs to the end of the data, not of the rectangle.
\<close>

type_synonym placed_tile = "int \<times> int \<times> int \<times> int \<times> tile"

function zrle_tiles ::
  "int \<Rightarrow> int \<Rightarrow> int \<Rightarrow> int \<Rightarrow> int \<times> int \<Rightarrow> bytes \<Rightarrow> placed_tile list \<times> exn option" where
  "zrle_tiles x y width height pos [] = ([], None)"
| "zrle_tiles x y width height pos (b # it) =
     (let tw = tile_extent 64 (x + width) (fst pos); th = tile_extent 64 (y + height) (snd pos) in
      case zrle_tile (uint b) (tw * th) it of
        Inl e \<Rightarrow> ([], Some e)
      | Inr (t, it) \<Rightarrow>
          let (ts, e) = zrle_tiles x y width height (next_tile 64 x width pos) it
          in ((fst pos, snd pos, tw, th, t) # ts, e))"
  by pat_completeness auto
termination
  by (relation "measure (\<lambda>(_, _, _, _, _, it). length it)") (auto dest: zrle_tile_shorter)

end
