(* ===== verification/Rfb_Encodings.thy ===== *)
theory Rfb_Encodings
  imports Rfb_Handshake Tile_Codec
begin

text \<open>
  Server-to-client messages after the handshake (\<open>rfb.py\<close>): framebuffer updates and the
  decoders of their rectangles (Raw and CopyRect through the generator pump of
  \<open>decoders/\<close>, RRE, CoRRE, Hextile, ZRLE, the pseudo encodings), colour map, bell and cut
  text; and the client-to-server messages.
\<close>

unbundle bit_operations_syntax

section \<open>Loops\<close>

primrec for_each :: "('x \<Rightarrow> 's \<Rightarrow> 's outcome) \<Rightarrow> 'x list \<Rightarrow> 's \<Rightarrow> 's outcome" where
  "for_each f [] s = Ret s"
| "for_each f (x # xs) s = and_then (f x s) (for_each f xs)"

text \<open>The slices \<open>block[pos:pos+n]\<close> of \<open>while pos < end\<close>, with the last one short when the
  length does not divide. Sizes are at least 2 in every use.\<close>

fun chunks :: "nat \<Rightarrow> 'a list \<Rightarrow> 'a list list" where
  "chunks n xs = (if xs = [] then [] else take n xs # (if n = 0 then [] else chunks n (drop n xs)))"

declare chunks.simps [simp del]

section \<open>End of a rectangle\<close>

definition doConnection :: "'a hook \<Rightarrow> 'a client \<Rightarrow> 'a client outcome" where
  "doConnection H s =
     (if rectangles s \<noteq> 0 then Ret (arm (Message RectangleHeader) 12 s)
      else and_then (call H (CommitUpdate (rectanglePos s)) s) (\<lambda>s.
           Ret (arm (Message Connection) 1 s)))"

section \<open>The decoder pump\<close>

datatype decoder = RawDecoder | CopyRectDecoder

text \<open>\<open>decoders.for_connection\<close>.\<close>

definition for_connection :: "int \<Rightarrow> decoder option" where
  "for_connection encoding =
     (if encoding = ENC_RAW then Some RawDecoder
      else if encoding = ENC_COPY_RECTANGLE then Some CopyRectDecoder
      else None)"

definition MAX_DESKTOP_SIZE :: int where
  "MAX_DESKTOP_SIZE = 0x10000"

text \<open>What \<open>generator.send\<close> ends with. A decoder that returns hands back the buffer it
  filled; one that lets a \<open>StopIteration\<close> out of its body is a \<open>RuntimeError\<close>.\<close>

datatype 's sent = Yields int gen 's | Stops "RectBuffer option" 's | Fails exn 's

definition from_generator :: "exn \<Rightarrow> exn" where
  "from_generator e = (if e = StopIteration then RuntimeError else e)"

definition raw_send :: "RectBuffer \<Rightarrow> bytes \<Rightarrow> 'a client \<Rightarrow> 'a client sent" where
  "raw_send target data s =
     (case blit target 0 0 (rb_width target) (rb_height target) data of
        Inl e \<Rightarrow> Fails e s
      | Inr target \<Rightarrow> Stops (Some target) (s\<lparr>rect_backing := rb_backing target\<rparr>))"

definition copyrect_send :: "'a hook \<Rightarrow> rect \<Rightarrow> bytes \<Rightarrow> 'a client \<Rightarrow> 'a client sent" where
  "copyrect_send H rect block s =
     (case unpack2 ''!HH'' block of
        Inl e \<Rightarrow> Fails e s
      | Inr (srcx, srcy) \<Rightarrow>
          (case rect of (x, y, width, height) \<Rightarrow>
             case call H (CopyRectangle srcx srcy x y width height) s of
               Ret s \<Rightarrow> Stops None s
             | Raise e s \<Rightarrow> Fails (from_generator e) s))"

fun gen_send :: "'a hook \<Rightarrow> gen \<Rightarrow> bytes \<Rightarrow> 'a client \<Rightarrow> 'a client sent" where
  "gen_send H (RawStart target) block s =
     Yields (rb_width target * rb_height target * rb_bypp target) (RawData target) s"
| "gen_send H (RawData target) block s = raw_send target block s"
| "gen_send H (CopyRectStart rect) block s = Yields 4 (CopyRectData rect) s"
| "gen_send H (CopyRectData rect) block s = copyrect_send H rect block s"

definition finishRectangle :: "'a hook \<Rightarrow> RectBuffer \<Rightarrow> rect \<Rightarrow> 'a client \<Rightarrow> 'a client outcome" where
  "finishRectangle H target rect s =
     (case rect of (x, y, width, height) \<Rightarrow>
        call H (UpdateRectangle x y width height (tobytes target) (pixel_format s)) s)"

text \<open>The block is \<open>None\<close> for the first \<open>send\<close>, which the generators ignore; \<open>MemoryError\<close>
  is not modelled.\<close>

definition pumpBlock ::
  "'a hook \<Rightarrow> bytes \<Rightarrow> gen \<Rightarrow> rect option \<Rightarrow> 'a client \<Rightarrow> 'a client outcome" where
  "pumpBlock H block g finish s =
     (case gen_send H g block s of
        Stops target s \<Rightarrow>
          and_then
            (case finish of
               None \<Rightarrow> Ret s
             | Some rect \<Rightarrow> (case target of None \<Rightarrow> Ret s | Some rb \<Rightarrow> finishRectangle H rb rect s))
            (doConnection H)
      | Fails e s \<Rightarrow>
          if e = DecodeError \<or> e = StructError \<or> e = ZlibError
          then abortConnection H (CannotDecode e) s
          else Raise e s
      | Yields n g s \<Rightarrow>
          if n < 0 then abortConnection H (NegativeRequest n) s
          else Ret (arm (PumpBlock g finish) n s))"

definition size_limit :: "int \<Rightarrow> int" where
  "size_limit n = (if n \<noteq> 0 then n else MAX_DESKTOP_SIZE)"

definition rectBuffer ::
  "'a hook \<Rightarrow> int \<Rightarrow> int \<Rightarrow> 'a client \<Rightarrow> RectBuffer option \<times> 'a client outcome" where
  "rectBuffer H width height s =
     (let limit_w = size_limit (fb_width s); limit_h = size_limit (fb_height s) in
      if \<not> (0 \<le> width \<and> width \<le> limit_w \<and> 0 \<le> height \<and> height \<le> limit_h)
      then (None, abortConnection H (RectTooBig width height limit_w limit_h) s)
      else
        let needed = width * height * client_bypp s;
            s = (if int (length (rect_backing s)) < needed
                 then s\<lparr>rect_backing := replicate (nat needed) 0\<rparr> else s)
        in case RectBuffer_init width height (client_bypp s) (Some (rect_backing s)) of
             Inl e \<Rightarrow> (None, Raise e s)
           | Inr target \<Rightarrow> (Some target, Ret s))"

definition pumpPixels :: "'a hook \<Rightarrow> int \<Rightarrow> int \<Rightarrow> int \<Rightarrow> int \<Rightarrow> 'a client \<Rightarrow> 'a client outcome" where
  "pumpPixels H x y width height s =
     (case rectBuffer H width height s of
        (None, r) \<Rightarrow> r
      | (Some target, r) \<Rightarrow> and_then r (pumpBlock H [] (RawStart target) (Some (x, y, width, height))))"

definition pumpForClient :: "'a hook \<Rightarrow> int \<Rightarrow> int \<Rightarrow> int \<Rightarrow> int \<Rightarrow> 'a client \<Rightarrow> 'a client outcome" where
  "pumpForClient H x y width height s = pumpBlock H [] (CopyRectStart (x, y, width, height)) None s"

section \<open>RRE\<close>

fun as_subrect :: "pyval list \<Rightarrow> exn + bytes \<times> int \<times> int \<times> int \<times> int" where
  "as_subrect [PBytes c, PInt x, PInt y, PInt w, PInt h] = Inr (c, x, y, w, h)"
| "as_subrect _ = Inl ValueError"

definition handleDecodeRRE ::
  "'a hook \<Rightarrow> bytes \<Rightarrow> int \<Rightarrow> int \<Rightarrow> int \<Rightarrow> int \<Rightarrow> 'a client \<Rightarrow> 'a client outcome" where
  "handleDecodeRRE H block x y width height s =
     with_value (unpack1 ''!I'' (take 4 block)) s (\<lambda>subrects.
       let color = drop 4 block in
       and_then (call H (FillRectangle x y width height (Some color)) s) (\<lambda>s.
         if subrects \<noteq> 0
         then Ret (arm (Rectangle (RRESubRectangles x y)) ((8 + client_bypp s) * subrects) s)
         else doConnection H s))"

definition fill_subrect ::
  "'a hook \<Rightarrow> string \<Rightarrow> int \<Rightarrow> int \<Rightarrow> bytes \<Rightarrow> 'a client \<Rightarrow> 'a client outcome" where
  "fill_subrect H format topx topy chunk s =
     with_value (bind_sum (struct_unpack format chunk) as_subrect) s (\<lambda>(color, x, y, width, height).
       call H (FillRectangle (topx + x) (topy + y) width height (Some color)) s)"

definition handleRRESubRectangles ::
  "'a hook \<Rightarrow> bytes \<Rightarrow> int \<Rightarrow> int \<Rightarrow> 'a client \<Rightarrow> 'a client outcome" where
  "handleRRESubRectangles H block topx topy s =
     (let sz = client_bypp s + 8; format = CHR ''!'' # show_nat (nat (client_bypp s)) @ ''sHHHH'' in
      and_then (for_each (fill_subrect H format topx topy) (chunks (nat sz) block) s) (doConnection H))"

section \<open>CoRRE\<close>

definition handleDecodeCORRE ::
  "'a hook \<Rightarrow> bytes \<Rightarrow> int \<Rightarrow> int \<Rightarrow> int \<Rightarrow> int \<Rightarrow> 'a client \<Rightarrow> 'a client outcome" where
  "handleDecodeCORRE H block x y width height s =
     with_value (unpack1 ''!I'' (take 4 block)) s (\<lambda>subrects.
       let color = drop 4 block in
       and_then (call H (FillRectangle x y width height (Some color)) s) (\<lambda>s.
         if subrects \<noteq> 0
         then Ret (arm (Rectangle (DecodeCORRERectangles x y)) ((4 + client_bypp s) * subrects) s)
         else doConnection H s))"

text \<open>The loop is \<open>while pos < sz\<close>, so at most one round, and the format string lacks
  the \<open>f\<close> that would substitute the size.\<close>

definition handleDecodeCORRERectangles ::
  "'a hook \<Rightarrow> bytes \<Rightarrow> int \<Rightarrow> int \<Rightarrow> 'a client \<Rightarrow> 'a client outcome" where
  "handleDecodeCORRERectangles H block topx topy s =
     (let sz = client_bypp s + 4; format = ''!{self.bypp}sBBBB'' in
      and_then
        (if 0 < sz then fill_subrect H format topx topy (py_slice 0 sz block) s else Ret s)
        (doConnection H))"

section \<open>Hextile\<close>

definition doNextHextileSubrect ::
  "'a hook \<Rightarrow> hextile \<Rightarrow> (int \<times> int) option \<Rightarrow> 'a client \<Rightarrow> 'a client outcome" where
  "doNextHextileSubrect H hx pos s =
     (let (tx, ty) = (case pos of Some p \<Rightarrow> next_tile 16 (hx_x hx) (hx_width hx) p | None \<Rightarrow> (hx_x hx, hx_y hx))
      in if ty \<ge> hx_y hx + hx_height hx then doConnection H s
         else Ret (arm (Hextile (DecodeHextile hx tx ty)) 1 s))"

definition has_flag :: "int \<Rightarrow> int \<Rightarrow> bool" where
  "has_flag subencoding flag \<longleftrightarrow> subencoding AND flag \<noteq> 0"

abbreviation (input) HEX_RAW :: int where "HEX_RAW \<equiv> 1"
abbreviation (input) HEX_BACKGROUND_SPECIFIED :: int where "HEX_BACKGROUND_SPECIFIED \<equiv> 2"
abbreviation (input) HEX_FOREGROUND_SPECIFIED :: int where "HEX_FOREGROUND_SPECIFIED \<equiv> 4"
abbreviation (input) HEX_ANY_SUBRECTS :: int where "HEX_ANY_SUBRECTS \<equiv> 8"
abbreviation (input) HEX_SUBRECTS_COLORED :: int where "HEX_SUBRECTS_COLORED \<equiv> 16"

definition handleDecodeHextile ::
  "'a hook \<Rightarrow> bytes \<Rightarrow> hextile \<Rightarrow> int \<Rightarrow> int \<Rightarrow> 'a client \<Rightarrow> 'a client outcome" where
  "handleDecodeHextile H block hx tx ty s =
     with_value (py_index block 0) s (\<lambda>b.
       let subencoding = uint b;
           tw = tile_extent 16 (hx_x hx + hx_width hx) tx;
           th = tile_extent 16 (hx_y hx + hx_height hx) ty
       in if has_flag subencoding HEX_RAW
          then Ret (arm (Hextile (DecodeHextileRAW hx tx ty tw th)) (tw * th * client_bypp s) s)
          else
            let numbytes = (if has_flag subencoding HEX_BACKGROUND_SPECIFIED then client_bypp s else 0)
                  + (if has_flag subencoding HEX_FOREGROUND_SPECIFIED then client_bypp s else 0)
                  + (if has_flag subencoding HEX_ANY_SUBRECTS then 1 else 0)
            in if numbytes \<noteq> 0
               then Ret (arm (Hextile (DecodeHextileSubrect subencoding hx tx ty tw th)) numbytes s)
               else and_then (call H (FillRectangle tx ty tw th (hx_bg hx)) s)
                      (doNextHextileSubrect H hx (Some (tx, ty))))"

definition handleDecodeHextileSubrect ::
  "'a hook \<Rightarrow> bytes \<Rightarrow> int \<Rightarrow> hextile \<Rightarrow> int \<Rightarrow> int \<Rightarrow> int \<Rightarrow> int \<Rightarrow> 'a client \<Rightarrow> 'a client outcome" where
  "handleDecodeHextileSubrect H block subencoding hx tx ty tw th s =
     (let (bg, pos) = (if has_flag subencoding HEX_BACKGROUND_SPECIFIED
                       then (Some (py_prefix (client_bypp s) block), client_bypp s) else (hx_bg hx, 0));
          hx = hx\<lparr>hx_bg := bg\<rparr>
      in and_then (call H (FillRectangle tx ty tw th bg) s) (\<lambda>s.
         let (color, pos) = (if has_flag subencoding HEX_FOREGROUND_SPECIFIED
                             then (Some (py_slice pos (pos + client_bypp s) block), pos + client_bypp s)
                             else (hx_color hx, pos));
             hx = hx\<lparr>hx_color := color\<rparr>
         in with_value (if has_flag subencoding HEX_ANY_SUBRECTS
                        then bind_sum (py_index block pos) (\<lambda>b. Inr (uint b)) else Inr 0) s (\<lambda>subrects.
              if subrects \<noteq> 0 then
                if has_flag subencoding HEX_SUBRECTS_COLORED
                then Ret (arm (Hextile (DecodeHextileSubrectsColoured subrects hx tx ty tw th))
                            ((client_bypp s + 2) * subrects) s)
                else Ret (arm (Hextile (DecodeHextileSubrectsFG subrects hx tx ty tw th)) (2 * subrects) s)
              else doNextHextileSubrect H hx (Some (tx, ty)) s)))"

definition handleDecodeHextileRAW ::
  "'a hook \<Rightarrow> bytes \<Rightarrow> hextile \<Rightarrow> int \<Rightarrow> int \<Rightarrow> int \<Rightarrow> int \<Rightarrow> 'a client \<Rightarrow> 'a client outcome" where
  "handleDecodeHextileRAW H block hx tx ty tw th s =
     and_then (call H (UpdateRectangle tx ty tw th block (pixel_format s)) s)
       (doNextHextileSubrect H hx (Some (tx, ty)))"

text \<open>One subrectangle: two bytes of nibbles \<open>x y\<close> and \<open>w-1 h-1\<close>, found at \<open>off\<close>.\<close>

definition hextile_fill ::
  "'a hook \<Rightarrow> bytes \<Rightarrow> int \<Rightarrow> pixel \<Rightarrow> int \<Rightarrow> int \<Rightarrow> 'a client \<Rightarrow> 'a client outcome" where
  "hextile_fill H chunk off color tx ty s =
     with_value (py_index chunk off) s (\<lambda>xy. with_value (py_index chunk (off + 1)) s (\<lambda>wh.
       let sx = drop_bit 4 (uint xy); sy = uint xy AND 0xF;
           sw = drop_bit 4 (uint wh) + 1; sh = (uint wh AND 0xF) + 1
       in call H (FillRectangle (tx + sx) (ty + sy) sw sh color) s))"

text \<open>The loop rebinds \<open>color\<close>, so the last subrectangle's colour goes on to the next tile.
  \<open>self.bypp\<close> is read once: no callback of the program changes the pixel format in an update.\<close>

definition handleDecodeHextileSubrectsColoured ::
  "'a hook \<Rightarrow> bytes \<Rightarrow> hextile \<Rightarrow> int \<Rightarrow> int \<Rightarrow> 'a client \<Rightarrow> 'a client outcome" where
  "handleDecodeHextileSubrectsColoured H block hx tx ty s =
     (let bypp = client_bypp s; cs = chunks (nat (bypp + 2)) block;
          hx' = (if cs = [] then hx else hx\<lparr>hx_color := Some (py_slice 0 bypp (last cs))\<rparr>)
      in and_then
           (for_each (\<lambda>chunk. hextile_fill H chunk bypp (Some (py_slice 0 bypp chunk)) tx ty) cs s)
           (doNextHextileSubrect H hx' (Some (tx, ty))))"

definition handleDecodeHextileSubrectsFG ::
  "'a hook \<Rightarrow> bytes \<Rightarrow> hextile \<Rightarrow> int \<Rightarrow> int \<Rightarrow> 'a client \<Rightarrow> 'a client outcome" where
  "handleDecodeHextileSubrectsFG H block hx tx ty s =
     and_then
       (for_each (\<lambda>chunk. hextile_fill H chunk 0 (hx_color hx) tx ty) (chunks 2 block) s)
       (doNextHextileSubrect H hx (Some (tx, ty)))"

section \<open>ZRLE\<close>

definition handleDecodeZRLE ::
  "bytes \<Rightarrow> int \<Rightarrow> int \<Rightarrow> int \<Rightarrow> int \<Rightarrow> 'a client \<Rightarrow> 'a client outcome" where
  "handleDecodeZRLE block x y width height s =
     with_value (unpack1 ''!L'' block) s (\<lambda>compressed_bytes.
       Ret (arm (Rectangle (DecodeZRLEdata x y width height)) compressed_bytes s))"

definition show_tile :: "'a hook \<Rightarrow> placed_tile \<Rightarrow> 'a client \<Rightarrow> 'a client outcome" where
  "show_tile H = (\<lambda>(tx, ty, tw, th, t) s.
     call H (case t of TileData d \<Rightarrow> UpdateRectangle tx ty tw th d (pixel_format s)
             | TileFill c \<Rightarrow> FillRectangle tx ty tw th (Some c)) s)"

definition handleDecodeZRLEdata ::
  "env \<Rightarrow> 'a hook \<Rightarrow> bytes \<Rightarrow> int \<Rightarrow> int \<Rightarrow> int \<Rightarrow> int \<Rightarrow> 'a client \<Rightarrow> 'a client outcome" where
  "handleDecodeZRLEdata env H block x y width height s =
     with_value (inflate env (zlib_stream s) block) s (\<lambda>data.
       let s = s\<lparr>zlib_stream := zlib_stream s @ [block]\<rparr>;
           (tiles, failure) = zrle_tiles x y width height (x, y) data
       in and_then (for_each (show_tile H) tiles s) (\<lambda>s.
          case failure of Some e \<Rightarrow> Raise e s | None \<Rightarrow> doConnection H s))"

section \<open>Pseudo encodings\<close>

definition handleDecodePsuedoCursor ::
  "'a hook \<Rightarrow> bytes \<Rightarrow> int \<Rightarrow> int \<Rightarrow> int \<Rightarrow> int \<Rightarrow> 'a client \<Rightarrow> 'a client outcome" where
  "handleDecodePsuedoCursor H block x y width height s =
     (let split = width * height * client_bypp s in
      and_then (call H (UpdateCursor x y width height (py_prefix split block) (py_suffix split block)) s)
        (doConnection H))"

definition handleDecodeDesktopSize :: "'a hook \<Rightarrow> int \<Rightarrow> int \<Rightarrow> 'a client \<Rightarrow> 'a client outcome" where
  "handleDecodeDesktopSize H width height s =
     and_then (call H (UpdateDesktopSize width height) s) (doConnection H)"

section \<open>Messages\<close>

definition handleConnection :: "'a hook \<Rightarrow> bytes \<Rightarrow> 'a client \<Rightarrow> 'a client outcome" where
  "handleConnection H block s =
     with_value (unpack1 ''!B'' block) s (\<lambda>msgid.
       if msgid = S2C_FRAMEBUFFER_UPDATE then Ret (arm (Message FramebufferUpdate) 3 s)
       else if msgid = S2C_SET_COLOUR_MAP_ENTRIES then Ret (arm (Message ColourMapEntries) 5 s)
       else if msgid = S2C_BELL then
         and_then (call H Bell s) (\<lambda>s. Ret (arm (Message Connection) 1 s))
       else if msgid = S2C_SERVER_CUT_TEXT then Ret (arm (Message ServerCutText) 7 s)
       else refuse H (UnknownMessage msgid) s)"

definition handleFramebufferUpdate :: "'a hook \<Rightarrow> bytes \<Rightarrow> 'a client \<Rightarrow> 'a client outcome" where
  "handleFramebufferUpdate H block s =
     with_value (unpack1 ''!xH'' block) s (\<lambda>n.
       and_then (call H BeginUpdate (s\<lparr>rectangles := n, rectanglePos := []\<rparr>)) (doConnection H))"

definition cursor_length :: "int \<Rightarrow> int \<Rightarrow> int \<Rightarrow> int" where
  "cursor_length width height bypp = width * height * bypp + ((width + 7) div 8) * height"

text \<open>The decoder of one rectangle, once it is counted and its place is noted.\<close>

definition decode_rectangle ::
  "'a hook \<Rightarrow> int \<Rightarrow> int \<Rightarrow> int \<Rightarrow> int \<Rightarrow> int \<Rightarrow> 'a client \<Rightarrow> 'a client outcome" where
  "decode_rectangle H x y width height encoding s =
     (case for_connection encoding of
        Some RawDecoder \<Rightarrow> pumpPixels H x y width height s
      | Some CopyRectDecoder \<Rightarrow> pumpForClient H x y width height s
      | None \<Rightarrow>
          if encoding = ENC_HEXTILE then
            doNextHextileSubrect H
              \<lparr>hx_bg = None, hx_color = None, hx_x = x, hx_y = y, hx_width = width, hx_height = height\<rparr> None s
          else if encoding = ENC_CORRE then
            Ret (arm (Rectangle (DecodeCORRE x y width height)) (4 + client_bypp s) s)
          else if encoding = ENC_RRE then
            Ret (arm (Rectangle (DecodeRRE x y width height)) (4 + client_bypp s) s)
          else if encoding = ENC_ZRLE then
            Ret (arm (Rectangle (DecodeZRLE x y width height)) 4 s)
          else if encoding = ENC_PSEUDO_CURSOR then
            Ret (arm (Rectangle (DecodePsuedoCursor x y width height))
                   (cursor_length width height (client_bypp s)) s)
          else if encoding = ENC_PSEUDO_DESKTOP_SIZE then
            handleDecodeDesktopSize H width height (s\<lparr>rectanglePos := butlast (rectanglePos s)\<rparr>)
          else if encoding = ENC_PSEUDO_QEMU_EXTENDED_KEY_EVENT then
            doConnection H (s\<lparr>negotiated_encodings := insert ENC_PSEUDO_QEMU_EXTENDED_KEY_EVENT (negotiated_encodings s),
                              rectanglePos := butlast (rectanglePos s)\<rparr>)
          else refuse H (UnknownEncoding encoding) s)"

definition handleRectangle :: "'a hook \<Rightarrow> bytes \<Rightarrow> 'a client \<Rightarrow> 'a client outcome" where
  "handleRectangle H block s =
     with_value (unpack5 ''!HHHHi'' block) s (\<lambda>(x, y, width, height, encoding).
       let s = (if encoding = ENC_PSEUDO_LAST_RECT then s\<lparr>rectangles := 0\<rparr> else s) in
       if rectangles s \<noteq> 0 then
         decode_rectangle H x y width height encoding
           (s\<lparr>rectangles := rectangles s - 1, rectanglePos := rectanglePos s @ [(x, y, width, height)]\<rparr>)
       else doConnection H s)"

definition handleColourMapEntries :: "bytes \<Rightarrow> 'a client \<Rightarrow> 'a client outcome" where
  "handleColourMapEntries block s =
     with_value (unpack2 ''!xHH'' block) s (\<lambda>(first_color, number_of_colors).
       Ret (arm (Message (ColourMapEntriesValue first_color)) (6 * number_of_colors) s))"

text \<open>\<open>[unpack_from("!HHH", block, offset) for offset in range(0, len(block), 6)]\<close>.\<close>

fun colour_entries :: "bytes list \<Rightarrow> exn + (int \<times> int \<times> int) list" where
  "colour_entries [] = Inr []"
| "colour_entries (c # cs) =
     bind_sum (bind_sum (struct_unpack_from ''!HHH'' c) as_int3) (\<lambda>rgb.
     bind_sum (colour_entries cs) (\<lambda>rest. Inr (rgb # rest)))"

definition handleColourMapEntriesValue :: "'a hook \<Rightarrow> bytes \<Rightarrow> int \<Rightarrow> 'a client \<Rightarrow> 'a client outcome" where
  "handleColourMapEntriesValue H block first_color s =
     with_value (colour_entries (chunks 6 block)) s (\<lambda>colors.
       and_then (call H (SetColorMap first_color colors) s) (\<lambda>s. Ret (arm (Message Connection) 1 s)))"

definition handleServerCutText :: "bytes \<Rightarrow> 'a client \<Rightarrow> 'a client outcome" where
  "handleServerCutText block s =
     with_value (unpack1 ''!xxxI'' block) s (\<lambda>len. Ret (arm (Message ServerCutTextValue) len s))"

definition decode_latin1 :: "bytes \<Rightarrow> string" where
  "decode_latin1 bs = map (\<lambda>b. char_of (uint b)) bs"

definition handleServerCutTextValue :: "'a hook \<Rightarrow> bytes \<Rightarrow> 'a client \<Rightarrow> 'a client outcome" where
  "handleServerCutTextValue H block s =
     and_then (call H (CopyText (decode_latin1 block)) s) (\<lambda>s. Ret (arm (Message Connection) 1 s))"

section \<open>Running a parked handler\<close>

fun handle_message :: "'a hook \<Rightarrow> message_handler \<Rightarrow> bytes \<Rightarrow> 'a client \<Rightarrow> 'a client outcome" where
  "handle_message H Connection block s = handleConnection H block s"
| "handle_message H FramebufferUpdate block s = handleFramebufferUpdate H block s"
| "handle_message H RectangleHeader block s = handleRectangle H block s"
| "handle_message H ColourMapEntries block s = handleColourMapEntries block s"
| "handle_message H (ColourMapEntriesValue first_color) block s = handleColourMapEntriesValue H block first_color s"
| "handle_message H ServerCutText block s = handleServerCutText block s"
| "handle_message H ServerCutTextValue block s = handleServerCutTextValue H block s"

fun handle_rect :: "env \<Rightarrow> 'a hook \<Rightarrow> rect_handler \<Rightarrow> bytes \<Rightarrow> 'a client \<Rightarrow> 'a client outcome" where
  "handle_rect env H (DecodeRRE x y w h) block s = handleDecodeRRE H block x y w h s"
| "handle_rect env H (RRESubRectangles x y) block s = handleRRESubRectangles H block x y s"
| "handle_rect env H (DecodeCORRE x y w h) block s = handleDecodeCORRE H block x y w h s"
| "handle_rect env H (DecodeCORRERectangles x y) block s = handleDecodeCORRERectangles H block x y s"
| "handle_rect env H (DecodeZRLE x y w h) block s = handleDecodeZRLE block x y w h s"
| "handle_rect env H (DecodeZRLEdata x y w h) block s = handleDecodeZRLEdata env H block x y w h s"
| "handle_rect env H (DecodePsuedoCursor x y w h) block s = handleDecodePsuedoCursor H block x y w h s"

fun handle_hextile :: "'a hook \<Rightarrow> hextile_handler \<Rightarrow> bytes \<Rightarrow> 'a client \<Rightarrow> 'a client outcome" where
  "handle_hextile H (DecodeHextile hx tx ty) block s = handleDecodeHextile H block hx tx ty s"
| "handle_hextile H (DecodeHextileSubrect sub hx tx ty tw th) block s =
     handleDecodeHextileSubrect H block sub hx tx ty tw th s"
| "handle_hextile H (DecodeHextileRAW hx tx ty tw th) block s = handleDecodeHextileRAW H block hx tx ty tw th s"
| "handle_hextile H (DecodeHextileSubrectsColoured n hx tx ty tw th) block s =
     handleDecodeHextileSubrectsColoured H block hx tx ty s"
| "handle_hextile H (DecodeHextileSubrectsFG n hx tx ty tw th) block s =
     handleDecodeHextileSubrectsFG H block hx tx ty s"

fun dispatch :: "env \<Rightarrow> 'a hook \<Rightarrow> handler \<Rightarrow> bytes \<Rightarrow> 'a client \<Rightarrow> 'a client outcome" where
  "dispatch env H (Handshake h) block s = handle_handshake env H h block s"
| "dispatch env H (Message h) block s = handle_message H h block s"
| "dispatch env H (Rectangle h) block s = handle_rect env H h block s"
| "dispatch env H (Hextile h) block s = handle_hextile H h block s"
| "dispatch env H (PumpBlock g finish) block s = pumpBlock H block g finish s"

section \<open>Handlers and the bytes that follow\<close>

lemma for_each_frame [framing]:
  assumes "\<And>x s. x \<in> set xs \<Longrightarrow> f x (extend q s) = map_outcome (extend q) (f x s)"
  shows "for_each f xs (extend q s) = map_outcome (extend q) (for_each f xs s)"
  using assms by (induction xs arbitrary: s) (auto intro!: and_then_frame)

lemmas hextile_defs = handleDecodeHextile_def handleDecodeHextileSubrect_def handleDecodeHextileRAW_def
  handleDecodeHextileSubrectsColoured_def handleDecodeHextileSubrectsFG_def

lemmas rect_defs = handleDecodeRRE_def handleRRESubRectangles_def handleDecodeCORRE_def
  handleDecodeCORRERectangles_def handleDecodeZRLE_def handleDecodeZRLEdata_def
  handleDecodePsuedoCursor_def

lemmas message_defs = handleConnection_def handleFramebufferUpdate_def handleRectangle_def
  handleColourMapEntries_def handleColourMapEntriesValue_def handleServerCutText_def
  handleServerCutTextValue_def

context client_hooks
begin

lemma doConnection_frame [framing]:
  "doConnection H (extend q s) = map_outcome (extend q) (doConnection H s)"
  unfolding doConnection_def by (intro frame_intros) (simp_all add: framing)

lemma fill_subrect_frame [framing]:
  "fill_subrect H format topx topy chunk (extend q s) = map_outcome (extend q) (fill_subrect H format topx topy chunk s)"
  unfolding fill_subrect_def by (intro frame_intros) (simp_all add: framing)

lemma show_tile_frame [framing]:
  "show_tile H t (extend q s) = map_outcome (extend q) (show_tile H t s)"
  by (simp add: show_tile_def framing split: prod.split tile.split)

lemma finishRectangle_frame [framing]:
  "finishRectangle H rb rect (extend q s) = map_outcome (extend q) (finishRectangle H rb rect s)"
  by (simp add: finishRectangle_def framing split: prod.split)

lemma gen_send_frame:
  "gen_send H g block (extend q s) = map_sent (extend q) (gen_send H g block s)"
proof (cases g)
  case (CopyRectData rect)
  obtain x y w h where rect: "rect = (x, y, w, h)" by (cases rect) auto
  show ?thesis
  proof (cases "unpack2 ''!HH'' block")
    case (Inr v)
    then show ?thesis
      by (cases "call H (CopyRectangle (fst v) (snd v) x y w h) s")
        (auto simp: CopyRectData copyrect_send_def rect call_frame split: prod.split)
  qed (simp add: CopyRectData copyrect_send_def)
qed (auto simp: raw_send_def split: sum.split)

lemma pumpBlock_frame [framing]:
  "pumpBlock H block g finish (extend q s) = map_outcome (extend q) (pumpBlock H block g finish s)"
  unfolding pumpBlock_def gen_send_frame
  by (cases "gen_send H g block s") (auto intro!: frame_intros simp: framing)

lemma rectBuffer_frame:
  "rectBuffer H w h (extend q s) = (fst (rectBuffer H w h s), map_outcome (extend q) (snd (rectBuffer H w h s)))"
  by (auto simp: rectBuffer_def Let_def framing split: sum.split)

lemma pumpPixels_frame [framing]:
  "pumpPixels H x y w h (extend q s) = map_outcome (extend q) (pumpPixels H x y w h s)"
  unfolding pumpPixels_def rectBuffer_frame
  by (auto intro!: and_then_frame simp: framing split: option.split prod.split)

lemma pumpForClient_frame [framing]:
  "pumpForClient H x y w h (extend q s) = map_outcome (extend q) (pumpForClient H x y w h s)"
  by (simp add: pumpForClient_def framing)

lemma doNextHextileSubrect_frame [framing]:
  "doNextHextileSubrect H hx pos (extend q s) = map_outcome (extend q) (doNextHextileSubrect H hx pos s)"
  unfolding doNextHextileSubrect_def Let_def by (intro frame_intros) (simp_all add: framing)

lemma handleDecodeDesktopSize_frame [framing]:
  "handleDecodeDesktopSize H w h (extend q s) = map_outcome (extend q) (handleDecodeDesktopSize H w h s)"
  unfolding handleDecodeDesktopSize_def by (intro frame_intros) (simp_all add: framing)

lemma decode_rectangle_frame [framing]:
  "decode_rectangle H x y w h enc (extend q s) = map_outcome (extend q) (decode_rectangle H x y w h enc s)"
proof (cases "for_connection enc")
  case (Some d)
  then show ?thesis by (cases d) (simp_all add: decode_rectangle_def framing)
next
  case None
  show ?thesis
    unfolding decode_rectangle_def None option.case by (intro if_frame) (simp_all add: framing)
qed

lemma hextile_fill_frame [framing]:
  "hextile_fill H chunk off color tx ty (extend q s) = map_outcome (extend q) (hextile_fill H chunk off color tx ty s)"
  unfolding hextile_fill_def Let_def by (intro frame_intros) (simp_all add: framing)

lemma hextile_frame [framing]:
  "handle_hextile H h block (extend q s) = map_outcome (extend q) (handle_hextile H h block s)"
  by (cases h; simp only: handle_hextile.simps hextile_defs Let_def; (intro frame_intros)?; simp add: framing)

lemma rect_frame [framing]:
  "handle_rect env H h block (extend q s) = map_outcome (extend q) (handle_rect env H h block s)"
  by (cases h; simp only: handle_rect.simps rect_defs Let_def; (intro frame_intros)?; simp add: framing)

lemma message_frame [framing]:
  "handle_message H h block (extend q s) = map_outcome (extend q) (handle_message H h block s)"
  by (cases h; simp only: handle_message.simps message_defs Let_def; (intro frame_intros)?; simp add: framing)

lemma dispatch_frame [framing]:
  "dispatch env H h block (extend q s) = map_outcome (extend q) (dispatch env H h block s)"
  by (cases h) (simp_all add: framing)

end

section \<open>Handlers and the receive loop\<close>

lemma sized_leaves: "leaves s t \<Longrightarrow> sized s \<Longrightarrow> 0 \<le> client_bypp t"
  by (simp add: leaves_def keeps_stream_def sized_def)

lemma sized_undisturbed: "undisturbed s t \<Longrightarrow> sized s \<Longrightarrow> 0 \<le> client_bypp t"
  by (simp add: undisturbed_def sized_def)

lemma ends_for_each:
  assumes "\<And>x t. x \<in> set xs \<Longrightarrow> undisturbed s t \<Longrightarrow> ends (\<lambda>e u. undisturbed s u) (f x t)" "undisturbed s t"
  shows "ends (\<lambda>e u. undisturbed s u) (for_each f xs t)"
  using assms
proof (induction xs arbitrary: t)
  case (Cons x xs)
  have "ends (\<lambda>e u. undisturbed s u) (f x t)" using Cons.prems by simp
  then have "ends (\<lambda>e u. if e = None then ends (\<lambda>e u. undisturbed s u) (for_each f xs u) else undisturbed s u) (f x t)"
    by (rule ends_weaken) (auto intro!: Cons.IH Cons.prems(1))
  then show ?case by (auto intro: ends_and_then)
qed simp

context client_hooks
begin

lemma doConnection_settles: "leaves s t \<Longrightarrow> ends (settles h s) (doConnection H t)"
  unfolding doConnection_def
  by (intro ends_intros ends_call)
    (auto intro!: settles_arm settles_raise intro: leaves_trans leaves_undisturbed)

lemma doNextHextileSubrect_settles:
  assumes "leaves s t" "0 \<le> hx_width hx"
  shows "ends (settles h s) (doNextHextileSubrect H hx pos t)"
  using assms
  by (auto simp: doNextHextileSubrect_def Let_def tile_ok_def next_tile_def
      intro!: doConnection_settles settles_arm split: option.split prod.split)

lemma fills_undisturbed:
  "undisturbed s t \<Longrightarrow> ends (\<lambda>e u. undisturbed s u) (fill_subrect H format topx topy chunk t)"
  "undisturbed s t \<Longrightarrow> ends (\<lambda>e u. undisturbed s u) (hextile_fill H chunk off color tx ty t)"
  "undisturbed s t \<Longrightarrow> ends (\<lambda>e u. undisturbed s u) (show_tile H pt t)"
  by (auto simp: fill_subrect_def hextile_fill_def show_tile_def Let_def split: prod.split
      intro!: ends_intros ends_call intro: undisturbed_trans)

lemma undisturbed_then:
  assumes "ends (\<lambda>e u. undisturbed s u) r" "\<And>u. undisturbed s u \<Longrightarrow> ends (settles h s) (k u)"
  shows "ends (settles h s) (and_then r k)"
  using assms by (intro ends_and_then) (auto intro: ends_weaken leaves_undisturbed settles_raise)

lemma for_each_undisturbed:
  "undisturbed s t \<Longrightarrow> ends (\<lambda>e u. undisturbed s u) (for_each (fill_subrect H format topx topy) xs t)"
  "undisturbed s t \<Longrightarrow> ends (\<lambda>e u. undisturbed s u) (for_each (\<lambda>c. hextile_fill H c off (col c) tx ty) xs t)"
  "undisturbed s t \<Longrightarrow> ends (\<lambda>e u. undisturbed s u) (for_each (show_tile H) ts t)"
  by (rule ends_for_each; simp add: fills_undisturbed)+

lemma call_undisturbed: "undisturbed s t \<Longrightarrow> ends (\<lambda>e u. undisturbed s u) (call H cb t)"
  by (rule ends_call) (rule undisturbed_trans)

lemma sized_lengths:
  assumes "undisturbed s t" "sized s" "0 \<le> n" "n \<noteq> 0"
  shows "0 < (8 + client_bypp t) * n" "0 < (4 + client_bypp t) * n" "0 < (client_bypp t + 2) * n"
  using sized_undisturbed [OF assms(1,2)] assms(3,4) by (simp_all add: zero_less_mult_iff)

lemma settles_arm_pos:
  "leaves s t \<Longrightarrow> handler_ok h' \<Longrightarrow> (sized s \<Longrightarrow> 0 < n) \<Longrightarrow> (0 < rank h \<Longrightarrow> rank h' < rank h) \<Longrightarrow>
     (session h \<Longrightarrow> session h') \<Longrightarrow> settles h s None (arm h' n t)"
  by (rule settles_arm) force+

lemma uint_pos: "uint (b :: byte) \<noteq> 0 \<Longrightarrow> 0 < uint b"
  by (simp add: order_less_le)

lemma hextile_settles:
  assumes "handler_ok (Hextile h)"
  shows "ends (settles (Hextile h) s) (handle_hextile H h block s)"
proof (cases h)
  case (DecodeHextile hx tx ty)
  with assms have "0 \<le> tile_extent 16 (hx_x hx + hx_width hx) tx" "0 \<le> tile_extent 16 (hx_y hx + hx_height hx) ty"
    "0 \<le> hx_width hx"
    by (auto simp: tile_ok_def tile_extent_def)
  with DecodeHextile show ?thesis
    by (auto simp: handleDecodeHextile_def Let_def leaves_undisturbed sized_def
        intro!: ends_with_value ends_if ends_Ret settles_arm settles_raise undisturbed_then call_undisturbed
          doNextHextileSubrect_settles)
next
  case (DecodeHextileSubrect sub hx tx ty tw th)
  with assms show ?thesis
    by (auto simp: handleDecodeHextileSubrect_def Let_def leaves_undisturbed bind_sum_Inr_iff
        intro!: ends_with_value ends_if ends_Ret settles_arm_pos sized_lengths uint_pos settles_raise
          undisturbed_then call_undisturbed
          doNextHextileSubrect_settles)
next
  case (DecodeHextileRAW hx tx ty tw th)
  with assms show ?thesis
    by (auto simp: handleDecodeHextileRAW_def leaves_undisturbed
        intro!: undisturbed_then call_undisturbed doNextHextileSubrect_settles)
next
  case (DecodeHextileSubrectsColoured n hx tx ty tw th)
  with assms show ?thesis
    by (auto simp: handleDecodeHextileSubrectsColoured_def Let_def leaves_undisturbed
        intro!: undisturbed_then for_each_undisturbed doNextHextileSubrect_settles)
next
  case (DecodeHextileSubrectsFG n hx tx ty tw th)
  with assms show ?thesis
    by (auto simp: handleDecodeHextileSubrectsFG_def leaves_undisturbed
        intro!: undisturbed_then for_each_undisturbed doNextHextileSubrect_settles)
qed

lemma rect_settles: "ends (settles (Rectangle h) s) (handle_rect env H h block s)"
proof (cases h)
  case (DecodeRRE x y w hh)
  then show ?thesis
    by (auto simp: handleDecodeRRE_def Let_def leaves_undisturbed wire split: if_splits
        intro!: ends_with_value undisturbed_then call_undisturbed doConnection_settles settles_arm_pos
          sized_lengths settles_raise ends_if ends_Ret)
next
  case (DecodeCORRE x y w hh)
  then show ?thesis
    by (auto simp: handleDecodeCORRE_def Let_def leaves_undisturbed wire split: if_splits
        intro!: ends_with_value undisturbed_then call_undisturbed doConnection_settles settles_arm_pos
          sized_lengths settles_raise ends_if ends_Ret)
next
  case (DecodeCORRERectangles x y)
  then show ?thesis
    by (auto simp: handleDecodeCORRERectangles_def Let_def leaves_undisturbed
        intro!: undisturbed_then fills_undisturbed doConnection_settles)
next
  case (DecodeZRLEdata x y w hh)
  then show ?thesis
    by (auto simp: handleDecodeZRLEdata_def Let_def leaves_undisturbed split: prod.split option.split
        intro!: ends_with_value settles_raise undisturbed_then for_each_undisturbed doConnection_settles)
qed (auto simp: rect_defs Let_def leaves_undisturbed wire
  intro!: ends_with_value undisturbed_then call_undisturbed for_each_undisturbed doConnection_settles
    settles_arm settles_raise split: if_splits)

lemma leaves_then:
  assumes "ends (\<lambda>e u. leaves s u) r" "\<And>u. leaves s u \<Longrightarrow> ends (settles h s) (k u)"
  shows "ends (settles h s) (and_then r k)"
  using assms by (intro ends_and_then) (auto intro: ends_weaken settles_raise)

lemma call_leaves: "leaves s t \<Longrightarrow> ends (\<lambda>e u. leaves s u) (call H cb t)"
  by (rule ends_call) (auto intro: leaves_trans leaves_undisturbed)

lemma abortConnection_settles: "leaves s t \<Longrightarrow> ends (settles h s) (abortConnection H r t)"
  by (rule ends_abortConnection) (auto simp: settles_def leaves_def keeps_stream_def)

lemma leaves_backing [simp]: "leaves s (t\<lparr>rect_backing := bs\<rparr>) = leaves s t"
  by (simp add: leaves_def keeps_stream_def sized_def client_bypp_def)

lemma pump_stops_settles:
  assumes "leaves s t"
  shows "ends (settles h s) (and_then
    (case finish of None \<Rightarrow> Ret t | Some rect \<Rightarrow> (case target of None \<Rightarrow> Ret t | Some rb \<Rightarrow> finishRectangle H rb rect t))
    (doConnection H))"
  using assms
  by (intro leaves_then doConnection_settles)
    (auto simp: finishRectangle_def intro!: call_leaves split: option.split prod.split)

lemma pump_fails_settles:
  assumes "leaves s t"
  shows "ends (settles h s) (if e = DecodeError \<or> e = StructError \<or> e = ZlibError
     then abortConnection H (CannotDecode e) t else Raise e t)"
  using assms by (auto intro: abortConnection_settles settles_raise)

lemma pumpBlock_settles:
  assumes "handler_ok (PumpBlock g finish)" "leaves s t"
  shows "ends (settles h s) (pumpBlock H block g finish t)"
proof (cases g)
  case (RawData rb)
  with assms(2) show ?thesis
    by (auto simp: pumpBlock_def raw_send_def split: sum.split
        intro!: pump_stops_settles abortConnection_settles settles_raise)
next
  case (CopyRectData rect)
  obtain x y w hh where rect: "rect = (x, y, w, hh)" by (cases rect) auto
  show ?thesis
  proof (cases "unpack2 ''!HH'' block")
    case (Inl e)
    with CopyRectData assms(2) show ?thesis
      by (auto simp: pumpBlock_def copyrect_send_def intro: abortConnection_settles settles_raise)
  next
    case (Inr v)
    have "ends (\<lambda>e u. leaves s u) (call H (CopyRectangle (fst v) (snd v) x y w hh) t)"
      using assms(2) by (rule call_leaves)
    with CopyRectData Inr rect show ?thesis
      by (cases v; cases "call H (CopyRectangle (fst v) (snd v) x y w hh) t")
        (simp_all add: pumpBlock_def copyrect_send_def pump_stops_settles pump_fails_settles del: if_split)
  qed
qed (use assms in auto)

lemma pump_start_settles:
  assumes "leaves s t" "rank h = 0"
  shows "ends (settles h s) (pumpForClient H x y w hh t)" "ends (settles h s) (pumpPixels H x y w hh t)"
proof -
  show "ends (settles h s) (pumpForClient H x y w hh t)"
    using assms by (auto simp: pumpForClient_def pumpBlock_def intro!: settles_arm)
  have start: "ends (settles h s) (pumpBlock H [] (RawStart rb) finish u)" if "leaves s u" for rb finish u
    using that assms(2) by (auto simp: pumpBlock_def intro!: settles_arm abortConnection_settles)
  show "ends (settles h s) (pumpPixels H x y w hh t)"
    using assms(1)
    by (auto simp: pumpPixels_def rectBuffer_def Let_def split: sum.split
        intro!: abortConnection_settles settles_raise start)
qed

lemma cursor_length_nonneg: "0 \<le> w \<Longrightarrow> 0 \<le> h \<Longrightarrow> 0 \<le> b \<Longrightarrow> 0 \<le> cursor_length w h b"
  by (simp add: cursor_length_def)

lemma refuse_settles:
  assumes "leaves s t" "expected_handler t = expected_handler s" "expected_len t = expected_len s" "rank h = 0"
  shows "ends (settles h s) (refuse H r t)"
proof (rule ends_refuse)
  fix e u assume u: "undisturbed t u"
  with assms(1) have "leaves s u" by (blast intro: leaves_trans leaves_undisturbed)
  with u assms(2-) show "settles h s e u"
    by (simp add: settles_def leaves_def stays_def undisturbed_def parser_state_def)
qed

lemma handleDecodeDesktopSize_settles:
  "leaves s t \<Longrightarrow> ends (settles h s) (handleDecodeDesktopSize H w hh t)"
  unfolding handleDecodeDesktopSize_def by (intro leaves_then call_leaves doConnection_settles)

lemma decode_rectangle_settles:
  assumes "leaves s t" "0 \<le> w" "0 \<le> hh"
    and "expected_handler t = expected_handler s" "expected_len t = expected_len s"
  shows "ends (settles (Message RectangleHeader) s) (decode_rectangle H x y w hh enc t)"
proof (cases "for_connection enc")
  case (Some d)
  with assms(1) show ?thesis by (cases d) (simp_all add: decode_rectangle_def pump_start_settles)
next
  case None
  have enc: "leaves s (t\<lparr>negotiated_encodings := es\<rparr>) = leaves s t" for es
    by (simp add: leaves_def keeps_stream_def sized_def client_bypp_def)
  have "sized s \<Longrightarrow> 0 \<le> client_bypp t" using assms(1) by (rule sized_leaves)
  with assms enc show ?thesis
    unfolding decode_rectangle_def None option.case
    by (intro ends_if ends_Ret settles_arm settles_arm_pos doNextHextileSubrect_settles doConnection_settles
        handleDecodeDesktopSize_settles refuse_settles) (simp_all add: cursor_length_nonneg)
qed

lemma message_settles: "ends (settles (Message h) s) (handle_message H h block s)"
proof (cases h)
  case RectangleHeader
  have same: "leaves s s" by (simp add: leaves_undisturbed)
  show ?thesis
    unfolding RectangleHeader handle_message.simps handleRectangle_def Let_def
    by (intro ends_with_value settles_raise same ends_case_prod)
      (auto simp: wire same split: if_splits intro!: decode_rectangle_settles doConnection_settles)
next
  case FramebufferUpdate
  then show ?thesis
    by (auto simp: handleFramebufferUpdate_def wire leaves_undisturbed split: if_splits
        intro!: leaves_then call_leaves doConnection_settles)
qed (auto simp: message_defs wire leaves_undisturbed split: if_splits
  intro!: ends_with_value ends_case_prod ends_if ends_Ret settles_raise settles_arm undisturbed_then
    call_undisturbed refuse_settles)

lemma dispatch_settles:
  assumes "handler_ok h"
  shows "ends (settles h s) (dispatch env H h block s)"
proof (cases h)
  case (PumpBlock g finish)
  with assms show ?thesis by (auto intro!: pumpBlock_settles leaves_undisturbed)
qed (use assms in \<open>auto intro: handshake_settles message_settles rect_settles hextile_settles\<close>)

end

end
