(* ===== verification/Rfb_Protocol.thy ===== *)
theory Rfb_Protocol
  imports Rfb_Encodings
begin

text \<open>
  \<open>RFBClient\<close>'s receive side (\<open>dataReceived\<close>, \<open>_handleInitial\<close>, \<open>_handleExpected\<close>,
  \<open>expect\<close>). The loop may run forever, so it is a partial function: \<open>None\<close> is a call that
  never returns. The lemmas show that it does not depend on how the stream is cut into
  segments, exactly when it returns, and that nothing is parsed after an abort.
\<close>

section \<open>The receive loop\<close>

text \<open>One round of \<open>_handleExpected\<close>'s loop.\<close>

definition consume :: "env \<Rightarrow> 'a hook \<Rightarrow> 'a client \<Rightarrow> 'a client outcome" where
  "consume env H s =
     dispatch env H (expected_handler s) (py_prefix (expected_len s) (packet s))
       (s\<lparr>already_expecting := True, packet := py_suffix (expected_len s) (packet s)\<rparr>)"

definition has_block :: "'a client \<Rightarrow> bool" where
  "has_block s \<longleftrightarrow> expected_len s \<le> int (length (packet s)) \<and> \<not> aborted s"

partial_function (option) run_loop :: "env \<Rightarrow> 'a hook \<Rightarrow> 'a client \<Rightarrow> 'a client outcome option" where
  "run_loop env H s =
     (if has_block s then
        (case consume env H s of
           Raise e t \<Rightarrow> Some (Raise e t)
         | Ret t \<Rightarrow> run_loop env H t)
      else Some (Ret (s\<lparr>already_expecting := False\<rparr>)))"

definition handleExpected :: "env \<Rightarrow> 'a hook \<Rightarrow> 'a client \<Rightarrow> 'a client outcome option" where
  "handleExpected env H s =
     (if expected_len s \<le> int (length (packet s)) then run_loop env H s else Some (Ret s))"

definition expect :: "env \<Rightarrow> 'a hook \<Rightarrow> handler \<Rightarrow> int \<Rightarrow> 'a client \<Rightarrow> 'a client outcome option" where
  "expect env H h n s =
     (let s = arm h n s in
      if \<not> already_expecting s then handleExpected env H s else Some (Ret s))"

definition greeting_prefix :: "bytes \<Rightarrow> bool" where
  "greeting_prefix norm \<longleftrightarrow> take (length norm) HEADER = norm"

definition handleInitial :: "env \<Rightarrow> 'a hook \<Rightarrow> 'a client \<Rightarrow> 'a client outcome option" where
  "handleInitial env H s =
     (let head = take 12 (packet s); norm = header_translate head in
      if norm = HEADER then
        let sv = greeting_version head in
        (case negotiate_version sv of
           Inl e \<Rightarrow> Some (Raise e s)
         | Inr version \<Rightarrow>
             let s = log_io (Write (format_version version)) (s\<lparr>packet := drop 12 (packet s)\<rparr>);
                 s = s\<lparr>top := HandleExpected, rfb_version := version, version_server := sv\<rparr>
             in if version < (3, 7) then expect env H (Handshake Auth) 4 s
                else expect env H (Handshake NumberSecurityTypes) 1 s)
      else if \<not> greeting_prefix norm then Some (refuse H (InvalidGreeting head) s)
      else Some (Ret s))"

definition dataReceived :: "env \<Rightarrow> 'a hook \<Rightarrow> bytes \<Rightarrow> 'a client \<Rightarrow> 'a client outcome option" where
  "dataReceived env H data s =
     (if aborted s then Some (Ret s)
      else
        let s = s\<lparr>packet := packet s @ data\<rparr> in
        case top s of HandleInitial \<Rightarrow> handleInitial env H s | HandleExpected \<Rightarrow> handleExpected env H s)"

text \<open>Inside a handler \<open>expect\<close> is only its assignments.\<close>

lemma expect_in_handler: "already_expecting s \<Longrightarrow> expect env H h n s = Some (Ret (arm h n s))"
  by (simp add: expect_def arm_def)

text \<open>A stream in segments; a call that raises ends it, as Twisted drops the connection.\<close>

fun deliver :: "env \<Rightarrow> 'a hook \<Rightarrow> bytes list \<Rightarrow> 'a client \<Rightarrow> 'a client outcome option" where
  "deliver env H [] s = Some (Ret s)"
| "deliver env H (d # ds) s =
     (case dataReceived env H d s of
        None \<Rightarrow> None
      | Some (Raise e t) \<Rightarrow> Some (Raise e t)
      | Some (Ret t) \<Rightarrow> deliver env H ds t)"

section \<open>The loop's invariant\<close>

definition good :: "'a client \<Rightarrow> bool" where
  "good s \<longleftrightarrow> sized s \<and> (aborted s \<or> armed s)"

lemma sized_simps [simp]:
  "sized (s\<lparr>already_expecting := b\<rparr>) = sized s" "sized (s\<lparr>packet := p\<rparr>) = sized s"
  "sized (s\<lparr>top := tp\<rparr>) = sized s" "sized (s\<lparr>rfb_version := v\<rparr>) = sized s"
  "sized (s\<lparr>version_server := v\<rparr>) = sized s" "sized (log_io a s) = sized s" "sized (arm h n s) = sized s"
  "sized (s\<lparr>trace := tr\<rparr>) = sized s" "sized (s\<lparr>expected_handler := h\<rparr>) = sized s"
  "sized (s\<lparr>expected_len := n\<rparr>) = sized s" "sized (extend q s) = sized s"
  by (simp_all add: sized_def client_bypp_def log_io_def arm_def)

lemma armed_simps [simp]:
  "armed (s\<lparr>already_expecting := b\<rparr>) = armed s" "armed (s\<lparr>packet := p\<rparr>) = armed s"
  "armed (extend q s) = armed s"
  by (simp_all add: armed_def)

lemma good_simps [simp]: "good (s\<lparr>already_expecting := b\<rparr>) = good s"
  by (simp add: good_def)

lemma good_extend [simp]: "good (extend q s) = good s"
  by (simp add: good_def extend_def)

lemma has_block_flag [simp]: "has_block (s\<lparr>already_expecting := b\<rparr>) = has_block s"
  by (simp add: has_block_def)

lemma consume_flag [simp]: "consume env H (s\<lparr>already_expecting := b\<rparr>) = consume env H s"
  by (simp add: consume_def)

lemma run_loop_flag: "run_loop env H (s\<lparr>already_expecting := b\<rparr>) = run_loop env H s"
  by (subst (1 2) run_loop.simps) simp

context client_hooks
begin

lemma consume_settles:
  assumes "handler_ok (expected_handler s)"
  shows "ends (settles (expected_handler s)
    (s\<lparr>already_expecting := True, packet := py_suffix (expected_len s) (packet s)\<rparr>)) (consume env H s)"
  unfolding consume_def using assms by (rule dispatch_settles)

lemma consume_good:
  assumes "good s" "has_block s" "consume env H s = Ret t"
  shows "good t \<and> already_expecting t"
proof -
  let ?u = "s\<lparr>already_expecting := True, packet := py_suffix (expected_len s) (packet s)\<rparr>"
  from assms(1,2) have s: "sized s" "armed s" by (auto simp: good_def has_block_def)
  then have "handler_ok (expected_handler s)" by (simp add: armed_def)
  from consume_settles [OF this, of env] assms(3)
  have "settles (expected_handler s) ?u None t" by simp
  with s show ?thesis
    by (auto simp: settles_def leaves_def keeps_stream_def good_def stays_def moves_def armed_def)
qed

lemma consume_extend:
  assumes "good s" "has_block s"
  shows "consume env H (extend q s) = map_outcome (extend q) (consume env H s)"
proof -
  from assms have len: "0 \<le> expected_len s" "nat (expected_len s) \<le> length (packet s)" and "\<not> aborted s"
    by (auto simp: good_def has_block_def armed_def nat_le_iff)
  then have "(extend q s)\<lparr>already_expecting := True, packet := py_suffix (expected_len s) (packet (extend q s))\<rparr>
      = extend q (s\<lparr>already_expecting := True, packet := py_suffix (expected_len s) (packet s)\<rparr>)"
    "py_prefix (expected_len s) (packet (extend q s)) = py_prefix (expected_len s) (packet s)"
    by (simp_all add: extend_def)
  then show ?thesis by (simp add: consume_def framing)
qed

end

section \<open>Counting rounds\<close>

primrec loop_fuel :: "nat \<Rightarrow> env \<Rightarrow> 'a hook \<Rightarrow> 'a client \<Rightarrow> 'a client outcome option" where
  "loop_fuel 0 env H s = None"
| "loop_fuel (Suc n) env H s =
     (if has_block s then
        (case consume env H s of
           Raise e t \<Rightarrow> Some (Raise e t)
         | Ret t \<Rightarrow> loop_fuel n env H t)
      else Some (Ret (s\<lparr>already_expecting := False\<rparr>)))"

lemma loop_fuel_run: "loop_fuel n env H s = Some r \<Longrightarrow> run_loop env H s = Some r"
proof (induction n arbitrary: s)
  case (Suc n)
  then show ?case by (subst run_loop.simps) (simp split: outcome.splits if_splits)
qed simp

lemma run_loop_fuel:
  assumes "run_loop env H s = Some r"
  shows "\<exists>n. loop_fuel n env H s = Some r"
proof (rule run_loop.raw_induct [where P = "\<lambda>env H s r. \<exists>n. loop_fuel n env H s = Some r", OF _ assms])
  fix loop env H s r
  assume IH: "\<And>env H s r. loop env H s = Some r \<Longrightarrow> \<exists>n. loop_fuel n env H s = Some r"
    and body: "(if has_block s then case consume env H s of Ret t \<Rightarrow> loop env H t | Raise e t \<Rightarrow> Some (Raise e t)
      else Some (Ret (s\<lparr>already_expecting := False\<rparr>))) = Some r"
  show "\<exists>n. loop_fuel n env H s = Some r"
  proof (cases "\<exists>t. has_block s \<and> consume env H s = Ret t")
    case True
    then obtain t where t: "has_block s" "consume env H s = Ret t" by blast
    with body have "loop env H t = Some r" by simp
    then obtain n where "loop_fuel n env H t = Some r" using IH by blast
    with t have "loop_fuel (Suc n) env H s = Some r" by simp
    then show ?thesis by blast
  next
    case False
    with body have "loop_fuel (Suc 0) env H s = Some r" by (simp split: outcome.splits if_splits)
    then show ?thesis by blast
  qed
qed

lemma run_loop_returns: "(\<exists>n r. loop_fuel n env H s = Some r) \<longleftrightarrow> run_loop env H s \<noteq> None"
  using loop_fuel_run run_loop_fuel by (metis not_None_eq)

section \<open>Segmentation\<close>

text \<open>The rest of the stream, after a first call that left the client in \<open>r\<close>.\<close>

definition resume ::
  "('a client \<Rightarrow> 'a client outcome option) \<Rightarrow> bytes \<Rightarrow> 'a client outcome option \<Rightarrow> 'a client outcome option" where
  "resume f q r =
     (case r of None \<Rightarrow> None | Some (Raise e t) \<Rightarrow> Some (Raise e (extend q t)) | Some (Ret t) \<Rightarrow> f t)"

lemma run_loop_unfold:
  "has_block s \<Longrightarrow> consume env H s = Ret t \<Longrightarrow> run_loop env H s = run_loop env H t"
  "has_block s \<Longrightarrow> consume env H s = Raise e t \<Longrightarrow> run_loop env H s = Some (Raise e t)"
  "\<not> has_block s \<Longrightarrow> run_loop env H s = Some (Ret (s\<lparr>already_expecting := False\<rparr>))"
  by (subst run_loop.simps; simp)+

lemma has_block_extend: "has_block s \<Longrightarrow> has_block (extend q s)"
  by (simp add: has_block_def extend_def)

context client_hooks
begin

lemma run_loop_extend_Some:
  "loop_fuel n env H s = Some r \<Longrightarrow> good s \<Longrightarrow>
     run_loop env H (extend q s) = resume (\<lambda>t. run_loop env H (extend q t)) q (Some r)"
proof (induction n arbitrary: s)
  case (Suc n)
  show ?case
  proof (cases "has_block s")
    case True
    then have ext: "has_block (extend q s)" "consume env H (extend q s) = map_outcome (extend q) (consume env H s)"
      using Suc.prems(2) by (simp_all add: has_block_extend consume_extend)
    show ?thesis
    proof (cases "consume env H s")
      case (Ret t)
      with Suc.prems True have "good t" "loop_fuel n env H t = Some r" by (auto dest: consume_good)
      with Suc.IH ext Ret show ?thesis by (simp add: run_loop_unfold(1))
    next
      case (Raise e t)
      with Suc.prems(1) True have "r = Raise e t" by simp
      with Raise ext show ?thesis by (simp add: run_loop_unfold(2) resume_def)
    qed
  next
    case False
    with Suc.prems(1) have "r = Ret (s\<lparr>already_expecting := False\<rparr>)" by simp
    moreover have "extend q (s\<lparr>already_expecting := False\<rparr>) = (extend q s)\<lparr>already_expecting := False\<rparr>"
      by (simp add: extend_def)
    ultimately show ?thesis by (simp add: resume_def run_loop_flag del: extend_updates)
  qed
qed simp

lemma run_loop_extend_None:
  "loop_fuel n env H (extend q s) = Some r \<Longrightarrow> good s \<Longrightarrow> run_loop env H s \<noteq> None"
proof (induction n arbitrary: s)
  case (Suc n)
  show ?case
  proof (cases "has_block s")
    case True
    with Suc.prems(2) have "consume env H (extend q s) = map_outcome (extend q) (consume env H s)"
      by (simp add: consume_extend)
    with True Suc show ?thesis
      by (cases "consume env H s") (auto simp: run_loop_unfold has_block_extend dest: consume_good)
  qed (simp add: run_loop_unfold)
qed simp

lemma run_loop_extend:
  assumes "good s"
  shows "run_loop env H (extend q s) = resume (\<lambda>t. run_loop env H (extend q t)) q (run_loop env H s)"
proof (cases "run_loop env H s")
  case None
  then have "run_loop env H (extend q s) = None"
    using run_loop_extend_None [OF _ assms] run_loop_fuel by (metis not_None_eq)
  with None show ?thesis by (simp add: resume_def)
next
  case (Some r)
  with run_loop_fuel run_loop_extend_Some assms show ?thesis by metis
qed

lemma consume_top:
  assumes "good s" "has_block s" "consume env H s = Ret t"
  shows "top t = top s"
proof -
  from assms(1,2) have "handler_ok (expected_handler s)" by (auto simp: good_def has_block_def armed_def)
  from consume_settles [OF this, of env] assms(3) show ?thesis by (simp add: settles_def leaves_def keeps_stream_def)
qed

lemma run_loop_result:
  assumes "run_loop env H s = Some (Ret t)" "good s"
  shows "\<not> has_block t \<and> \<not> already_expecting t \<and> good t \<and> top t = top s"
proof -
  have "loop_fuel n env H s = Some (Ret t) \<Longrightarrow> good s \<Longrightarrow>
      \<not> has_block t \<and> \<not> already_expecting t \<and> good t \<and> top t = top s" for n
  proof (induction n arbitrary: s)
    case (Suc n)
    show ?case
    proof (cases "has_block s")
      case True
      with Suc.prems obtain u where u: "consume env H s = Ret u" "loop_fuel n env H u = Some (Ret t)"
        by (auto split: outcome.splits)
      with Suc True have "good u" "top u = top s" by (auto dest: consume_good consume_top)
      with Suc.IH u show ?thesis by auto
    qed (use Suc.prems in auto)
  qed simp
  with assms run_loop_fuel show ?thesis by blast
qed

end

section \<open>The client's invariant\<close>

definition client_inv :: "'a client \<Rightarrow> bool" where
  "client_inv s \<longleftrightarrow> sized s \<and>
     (case top s of HandleInitial \<Rightarrow> \<not> already_expecting s | HandleExpected \<Rightarrow> aborted s \<or> armed s)"

text \<open>The bytes received so far may still become a greeting.\<close>

definition greeting_ok :: "'a client \<Rightarrow> bytes \<Rightarrow> bool" where
  "greeting_ok s data \<longleftrightarrow> (top s = HandleInitial \<longrightarrow>
     aborted s \<or> greeting_prefix (header_translate (take 12 (packet s @ data))))"

lemma greeting_prefix_take: "greeting_prefix norm \<Longrightarrow> greeting_prefix (take n norm)"
  unfolding greeting_prefix_def by (metis length_take min.commute take_take)

lemma greeting_ok_prefix: "greeting_ok s (a @ b) \<Longrightarrow> greeting_ok s a"
proof -
  have "take 12 (packet s @ a) = take (length (packet s @ a)) (take 12 (packet s @ a @ b))"
    by (auto simp: min_def)
  then have "header_translate (take 12 (packet s @ a)) =
      take (length (packet s @ a)) (header_translate (take 12 (packet s @ a @ b)))"
    by (simp only: header_translate_def take_map)
  then show "greeting_ok s (a @ b) \<Longrightarrow> greeting_ok s a"
    by (auto simp: greeting_ok_def intro: greeting_prefix_take)
qed

lemma extend_live: "\<not> aborted s \<Longrightarrow> s\<lparr>packet := packet s @ q\<rparr> = extend q s"
  by (simp add: extend_def)

context client_hooks
begin

lemma handleExpected_extend:
  assumes "good u" "top u = HandleExpected" "\<not> aborted u"
  shows "handleExpected env H (extend b u) = resume (dataReceived env H b) b (handleExpected env H u)"
proof (cases "expected_len u \<le> int (length (packet u))")
  case True
  have rest: "run_loop env H (extend b t) = dataReceived env H b t" if "run_loop env H u = Some (Ret t)" for t
  proof -
    from run_loop_result [OF that assms(1)] assms(2)
    have t: "\<not> has_block t" "\<not> already_expecting t" "top t = HandleExpected" by simp_all
    have flag: "v\<lparr>already_expecting := False\<rparr> = v" if "\<not> already_expecting v" for v :: "'a client" using that by simp
    have "run_loop env H (extend b t) = Some (Ret (extend b t))" if "\<not> has_block (extend b t)"
      using that t flag [of "extend b t"] by (simp add: run_loop_unfold(3) del: extend_updates)
    with t show ?thesis
      by (cases "aborted t") (auto simp: dataReceived_def Let_def extend_live handleExpected_def has_block_def)
  qed
  from True assms(3) have "handleExpected env H (extend b u) = run_loop env H (extend b u)"
    by (simp add: handleExpected_def extend_def)
  also have "\<dots> = resume (dataReceived env H b) b (run_loop env H u)"
    unfolding run_loop_extend [OF assms(1)]
    by (auto simp: resume_def rest split: option.split outcome.split)
  finally show ?thesis using True by (simp add: handleExpected_def)
next
  case False
  with assms show ?thesis
    by (simp add: handleExpected_def [of _ _ u] resume_def dataReceived_def Let_def extend_live)
qed

lemma expect_extend:
  assumes "sized s" "handler_ok h" "0 < n" "top s = HandleExpected" "\<not> aborted s" "\<not> already_expecting s"
  shows "expect env H h n (extend b s) = resume (dataReceived env H b) b (expect env H h n s)"
proof -
  have "good (arm h n s)" "top (arm h n s) = HandleExpected" "\<not> aborted (arm h n s)"
    "\<not> already_expecting (arm h n s)"
    using assms by (simp_all add: good_def armed_def arm_def)
  then show ?thesis
    by (simp add: expect_def Let_def handleExpected_extend)
qed

lemma handleInitial_extend:
  assumes "sized u" "\<not> aborted u" "\<not> already_expecting u" "top u = HandleInitial"
    and "greeting_prefix (header_translate (take 12 (packet u)))"
  shows "handleInitial env H (extend b u) = resume (dataReceived env H b) b (handleInitial env H u)"
proof (cases "header_translate (take 12 (packet u)) = HEADER")
  case True
  have "length (header_translate (take 12 (packet u))) = 12" unfolding True by (simp add: HEADER_def ascii_def)
  then have len: "12 \<le> length (packet u)" by (simp add: header_translate_def)
  let ?next = "\<lambda>v s. (log_io (Write (format_version v)) (s\<lparr>packet := drop 12 (packet s)\<rparr>))
    \<lparr>top := HandleExpected, rfb_version := v, version_server := greeting_version (take 12 (packet u))\<rparr>"
  have head: "take 12 (packet (extend b u)) = take 12 (packet u)"
    and nxt: "?next v (extend b u) = extend b (?next v u)" for v
    using len assms(2) by (simp_all add: extend_def log_io_def)
  have args: "sized (?next v u)" "top (?next v u) = HandleExpected" "\<not> aborted (?next v u)"
    "\<not> already_expecting (?next v u)" for v
    using assms by (simp_all add: log_io_def)
  show ?thesis
    unfolding handleInitial_def Let_def head True nxt
    using args by (auto simp: expect_extend resume_def split: sum.split)
next
  case False
  with assms have "handleInitial env H u = Some (Ret u)" by (simp add: handleInitial_def Let_def)
  with assms(2,4) show ?thesis by (simp add: resume_def dataReceived_def Let_def extend_live)
qed

lemma dataReceived_append:
  assumes "client_inv s" "greeting_ok s a"
  shows "dataReceived env H (a @ b) s = resume (dataReceived env H b) b (dataReceived env H a s)"
proof (cases "aborted s")
  case True
  then show ?thesis by (simp add: dataReceived_def resume_def)
next
  case False
  have ext: "s\<lparr>packet := packet s @ a @ b\<rparr> = extend b (extend a s)" "s\<lparr>packet := packet s @ a\<rparr> = extend a s"
    using False by (simp_all add: extend_def)
  show ?thesis
  proof (cases "top s")
    case HandleInitial
    with assms False show ?thesis
      by (simp add: dataReceived_def [of _ _ _ s] ext Let_def del: extend_extend)
        (intro handleInitial_extend; simp add: client_inv_def greeting_ok_def extend_live [symmetric])
  next
    case HandleExpected
    with assms False have "good (extend a s)" by (simp add: good_def client_inv_def)
    with HandleExpected False show ?thesis
      by (simp add: dataReceived_def [of _ _ _ s] ext Let_def handleExpected_extend del: extend_extend)
  qed
qed

text \<open>What a call that returned leaves behind.\<close>

lemma handleExpected_result:
  assumes "handleExpected env H u = Some (Ret t)" "good u" "top u = HandleExpected"
  shows "client_inv t \<and> top t = HandleExpected"
proof (cases "expected_len u \<le> int (length (packet u))")
  case True
  with assms(1) have "run_loop env H u = Some (Ret t)" by (simp add: handleExpected_def)
  with run_loop_result [OF this assms(2)] assms(3) show ?thesis by (simp add: client_inv_def good_def)
next
  case False
  with assms show ?thesis by (auto simp: handleExpected_def client_inv_def good_def)
qed

lemma dataReceived_result:
  assumes "client_inv s" "greeting_ok s (a @ b)" "dataReceived env H a s = Some (Ret t)"
  shows "client_inv t \<and> greeting_ok t b"
proof (cases "aborted s")
  case True
  with assms show ?thesis by (auto simp: dataReceived_def greeting_ok_def)
next
  case False
  let ?u = "s\<lparr>packet := packet s @ a\<rparr>"
  show ?thesis
  proof (cases "top s")
    case HandleExpected
    with assms False handleExpected_result [of env ?u t] show ?thesis
      by (simp add: dataReceived_def Let_def client_inv_def [of s] good_def greeting_ok_def)
  next
    case HandleInitial
    let ?norm = "header_translate (take 12 (packet ?u))"
    from HandleInitial False assms(3) have init: "handleInitial env H ?u = Some (Ret t)"
      by (simp add: dataReceived_def)
    from HandleInitial False greeting_ok_prefix [OF assms(2)] have pre: "greeting_prefix ?norm"
      by (simp add: greeting_ok_def)
    show ?thesis
    proof (cases "?norm = HEADER")
      case False
      with init pre have "t = ?u" by (simp add: handleInitial_def Let_def)
      with HandleInitial \<open>\<not> aborted s\<close> assms(1,2) show ?thesis by (simp add: client_inv_def greeting_ok_def)
    next
      case True
      with init HandleInitial False assms(1) obtain w where "handleExpected env H w = Some (Ret t)" "good w" "top w = HandleExpected"
        by (auto simp: handleInitial_def Let_def expect_def client_inv_def good_def armed_def arm_def log_io_def
            split: sum.splits if_splits)
      with handleExpected_result show ?thesis by (metis greeting_ok_def top_handler.distinct(1))
    qed
  qed
qed

end

section \<open>Segmentation invariance\<close>

text \<open>The result of a call, with the bytes that were never read dropped when it raised.\<close>

fun visible :: "'a client outcome \<Rightarrow> 'a client outcome" where
  "visible (Ret t) = Ret t"
| "visible (Raise e t) = Raise e (t\<lparr>packet := []\<rparr>)"

context client_hooks
begin

lemma deliver_concat:
  assumes "client_inv s" "greeting_ok s (concat (d # ds))"
  shows "map_option visible (deliver env H (d # ds) s) = map_option visible (dataReceived env H (concat (d # ds)) s)"
  using assms
proof (induction ds arbitrary: d s)
  case Nil
  then show ?case by (simp split: option.split outcome.split)
next
  case (Cons d' ds)
  have rest: "dataReceived env H (concat (d # d' # ds)) s =
      resume (dataReceived env H (concat (d' # ds))) (concat (d' # ds)) (dataReceived env H d s)"
    using Cons.prems dataReceived_append [of s d env "concat (d' # ds)"] greeting_ok_prefix by auto
  show ?case
  proof (cases "dataReceived env H d s")
    case None
    with rest show ?thesis by (simp add: resume_def)
  next
    case (Some r)
    then show ?thesis
    proof (cases r)
      case (Ret t)
      with Some Cons.prems have "client_inv t" "greeting_ok t (concat (d' # ds))"
        using dataReceived_result [of s d "concat (d' # ds)" env t] by auto
      from Cons.IH [OF this] rest Some Ret show ?thesis by (simp add: resume_def)
    next
      case (Raise e t)
      then show ?thesis using rest Some by (simp add: resume_def extend_def)
    qed
  qed
qed

end

section \<open>When the loop returns\<close>

text \<open>The states the loop goes through.\<close>

inductive reaches :: "env \<Rightarrow> 'a hook \<Rightarrow> 'a client \<Rightarrow> 'a client \<Rightarrow> bool" for env H where
  here: "reaches env H s s"
| later: "has_block s \<Longrightarrow> consume env H s = Ret t \<Longrightarrow> reaches env H t u \<Longrightarrow> reaches env H s u"

inductive_cases reachesE: "reaches env H s t"

text \<open>Parked on an empty reason for a refusal: the handler takes nothing and never re-arms.\<close>

definition zero_reason :: "'a client \<Rightarrow> bool" where
  "zero_reason s \<longleftrightarrow> reports_reason (expected_handler s) \<and> expected_len s = 0 \<and> \<not> aborted s"

definition loop_measure :: "'a client \<Rightarrow> nat \<times> nat" where
  "loop_measure s = (length (packet s), rank (expected_handler s))"

context client_hooks
begin

lemma consume_step:
  assumes "good s" "has_block s" "consume env H s = Ret t" "\<not> aborted t"
  shows "packet t = py_suffix (expected_len s) (packet s)"
    and "stays (expected_handler s) s t \<or> moves (expected_handler s) t"
proof -
  let ?u = "s\<lparr>already_expecting := True, packet := py_suffix (expected_len s) (packet s)\<rparr>"
  from assms(1,2) have s: "sized s" "handler_ok (expected_handler s)"
    by (auto simp: good_def has_block_def armed_def)
  from consume_settles [OF s(2), of env] assms(3)
  have "settles (expected_handler s) ?u None t" by simp
  with s assms(4) show "packet t = py_suffix (expected_len s) (packet s)"
    "stays (expected_handler s) s t \<or> moves (expected_handler s) t"
    by (auto simp: settles_def leaves_def keeps_stream_def stays_def)
qed

lemma consume_decreases:
  assumes "good s" "has_block s" "consume env H s = Ret t" "\<not> aborted t" "\<not> zero_reason s"
  shows "(loop_measure t, loop_measure s) \<in> less_than <*lex*> less_than"
proof (cases "expected_len s = 0")
  case True
  with assms(1,2) have rk: "0 < rank (expected_handler s)" and live: "\<not> aborted s"
    by (auto simp: good_def has_block_def armed_def)
  with assms(5) True have "\<not> stays (expected_handler s) s t" by (simp add: zero_reason_def stays_def)
  with consume_step [OF assms(1-4)] True rk show ?thesis by (simp add: moves_def loop_measure_def)
next
  case False
  with assms(1,2) have "0 < expected_len s" "nat (expected_len s) \<le> length (packet s)"
    by (auto simp: good_def has_block_def armed_def nat_le_iff)
  then have "length (packet s) - nat (expected_len s) < length (packet s)" by linarith
  with consume_step(1) [OF assms(1-4)] \<open>0 < expected_len s\<close> show ?thesis by (simp add: loop_measure_def)
qed

lemma run_loop_total:
  assumes "good s" "\<And>t. reaches env H s t \<Longrightarrow> \<not> zero_reason t"
  shows "\<exists>r. run_loop env H s = Some r"
  using assms
proof (induction "loop_measure s" arbitrary: s rule: wf_induct_rule [OF wf_lex_prod [OF wf_less_than wf_less_than]])
  case (1 s)
  show ?case
  proof (cases "\<exists>t. has_block s \<and> consume env H s = Ret t")
    case True
    then obtain t where t: "has_block s" "consume env H s = Ret t" by blast
    note eq = run_loop_unfold(1) [OF t]
    show ?thesis
    proof (cases "aborted t")
      case True
      then have "\<not> has_block t" by (simp add: has_block_def)
      with eq show ?thesis by (simp add: run_loop_unfold(3))
    next
      case False
      have "good t" using "1.prems"(1) t by (blast dest: consume_good)
      moreover have "\<And>u. reaches env H t u \<Longrightarrow> \<not> zero_reason u"
        using "1.prems"(2) t by (blast intro: later)
      moreover have "(loop_measure t, loop_measure s) \<in> less_than <*lex*> less_than"
        using "1.prems" t False by (intro consume_decreases) (auto intro: here)
      ultimately show ?thesis using "1.hyps" eq by simp
    qed
  next
    case False
    then show ?thesis by (cases "has_block s"; cases "consume env H s") (auto simp: run_loop_unfold)
  qed
qed

lemma session_reaches:
  "reaches env H s t \<Longrightarrow> good s \<Longrightarrow> session (expected_handler s) \<Longrightarrow> aborted t \<or> session (expected_handler t)"
proof (induction rule: reaches.induct)
  case (later s t u)
  show ?case
  proof (cases "aborted t")
    case True
    with later.hyps(3) show ?thesis by (auto elim: reachesE simp: has_block_def)
  next
    case False
    from consume_step(2) [OF later.prems(1) later.hyps(1,2) False] later.prems(2)
    have "session (expected_handler t)" by (auto simp: stays_def moves_def)
    moreover have "good t" using later by (auto dest: consume_good)
    ultimately show ?thesis by (rule later.IH [rotated])
  qed
qed simp

lemma session_total:
  assumes "good s" "session (expected_handler s)"
  shows "\<exists>r. run_loop env H s = Some r"
proof (rule run_loop_total [OF assms(1)])
  fix t assume "reaches env H s t"
  with session_reaches assms have "aborted t \<or> session (expected_handler t)" by blast
  then show "\<not> zero_reason t" by (auto simp: zero_reason_def reports_reason_def)
qed

end

text \<open>With the default callbacks, which never raise here, an empty reason is a loop for ever.\<close>

lemma zero_reason_consume:
  assumes "zero_reason s"
  shows "has_block s \<and> (\<exists>t. consume env (base_hooks env) s = Ret t \<and> zero_reason t)"
  using assms
  by (auto simp: zero_reason_def reports_reason_def has_block_def consume_def handleConnMessage_def
      handleAuthFailedMessage_def refuse_def call_def base_hooks_def loseConnection_def log_io_def)

lemma zero_reason_diverges: "zero_reason s \<Longrightarrow> loop_fuel n env (base_hooks env) s = None"
proof (induction n arbitrary: s)
  case (Suc n)
  with zero_reason_consume [OF Suc.prems, of env] show ?case by auto
qed simp

lemma reaches_diverges:
  "reaches env (base_hooks env) s t \<Longrightarrow> zero_reason t \<Longrightarrow> run_loop env (base_hooks env) s = None"
proof (induction rule: reaches.induct)
  case (here s)
  with zero_reason_diverges run_loop_fuel show ?case by (metis option.distinct(1) not_None_eq)
next
  case (later s t u)
  then show ?case by (simp add: run_loop_unfold(1))
qed

section \<open>Properties of the receive side\<close>

text \<open>A new connection, and one parked on a given handler.\<close>

definition new_client :: "unit client" where
  "new_client = init_client None (Some ''secret'') True ()"

definition parked :: "handler \<Rightarrow> int \<Rightarrow> unit client" where
  "parked h n = new_client\<lparr>top := HandleExpected, expected_handler := h, expected_len := n\<rparr>"

lemmas sample_defs = parked_def new_client_def init_client_def client_bypp_def pf_bypp_def default_PixelFormat_def

text \<open>C12. Segmentation does not matter: however the network cuts the server's stream, the client
  ends in the same state, having made the same calls and written the same bytes in the same order
  (or raised the same exception, or looped for ever), as if it had come in one piece. The one
  exception is a stream that is not a greeting, for which the error is repeated per segment.\<close>

theorem segmentation_invariance:
  assumes "client_inv s" "greeting_ok s (concat (d # ds))"
  shows "map_option visible (deliver env (base_hooks env) (d # ds) s) =
    map_option visible (dataReceived env (base_hooks env) (concat (d # ds)) s)"
  using assms by (rule base.deliver_concat)

theorem segmentation_invariance_witness:
  "\<forall>env. let ds = [ascii ''RFB 00'', ascii ''3.008'', [10, 1, 1]] in
     client_inv new_client \<and> greeting_ok new_client (concat ds) \<and>
     map_option visible (deliver env (base_hooks env) ds new_client) =
     map_option visible (dataReceived env (base_hooks env) (concat ds) new_client)"
proof -
  have "client_inv new_client"
    by (simp add: client_inv_def sized_def sample_defs)
  moreover have "greeting_ok new_client (concat [ascii ''RFB 00'', ascii ''3.008'', [10, 1, 1]])"
    by (simp add: greeting_ok_def greeting_prefix_def header_translate_def HEADER_def ascii_def is_digit_def sample_defs)
  ultimately show ?thesis
    using segmentation_invariance [of new_client "ascii ''RFB 00''" "[ascii ''3.008'', [10, 1, 1]]"]
    unfolding Let_def by blast
qed

text \<open>C14. In an established session the parser never hangs: whatever bytes arrive, in any state the
  client can be in after the handshake, \<open>dataReceived\<close> returns or raises.\<close>

theorem session_always_returns:
  assumes "client_inv s" "top s = HandleExpected" "session (expected_handler s)"
  shows "\<exists>r. dataReceived env (base_hooks env) data s = Some r"
proof (cases "aborted s")
  case False
  with assms have "good (s\<lparr>packet := packet s @ data\<rparr>)" by (simp add: client_inv_def good_def)
  from base.session_total [OF this] assms False show ?thesis
    by (simp add: dataReceived_def handleExpected_def Let_def)
qed (simp add: dataReceived_def)

theorem session_always_returns_witness:
  "\<forall>env. \<exists>r. dataReceived env (base_hooks env) [2, 0, 0] (parked (Message Connection) 1) = Some r"
proof
  fix env
  show "\<exists>r. dataReceived env (base_hooks env) [2, 0, 0] (parked (Message Connection) 1) = Some r"
    by (rule session_always_returns) (simp_all add: client_inv_def sized_def armed_def sample_defs)
qed

text \<open>C15. Exactly when \<open>dataReceived\<close> does not return: a server that refuses the connection, or the
  login, with an empty reason. Then \<open>_handleExpected\<close> runs the same handler again for ever, since
  it takes no bytes, does not call \<open>expect\<close> and does not abort.\<close>

theorem receive_loop_hangs_iff:
  assumes "client_inv s" "top s = HandleExpected" "\<not> aborted s"
  shows "dataReceived env (base_hooks env) data s = None \<longleftrightarrow>
    (\<exists>t. reaches env (base_hooks env) (s\<lparr>packet := packet s @ data\<rparr>) t \<and> zero_reason t)"
proof -
  let ?u = "s\<lparr>packet := packet s @ data\<rparr>"
  from assms have good: "good ?u" by (simp add: client_inv_def good_def)
  have "run_loop env (base_hooks env) ?u = None \<longleftrightarrow> (\<exists>t. reaches env (base_hooks env) ?u t \<and> zero_reason t)"
    using reaches_diverges base.run_loop_total [OF good] by (metis option.distinct(1))
  moreover have "run_loop env (base_hooks env) ?u \<noteq> None" if "\<not> expected_len ?u \<le> int (length (packet ?u))"
  proof -
    from that have "\<not> has_block ?u" by (simp add: has_block_def)
    then show ?thesis by (simp add: run_loop_unfold(3))
  qed
  ultimately show ?thesis using assms(2,3) by (auto simp: dataReceived_def handleExpected_def Let_def)
qed

theorem receive_loop_hangs_iff_witness:
  "\<forall>env. dataReceived env (base_hooks env) [0, 0, 0, 0] (parked (Handshake ConnFailed) 4) = None"
proof
  fix env
  let ?s = "parked (Handshake ConnFailed) 4" let ?u = "?s\<lparr>packet := packet ?s @ [0, 0, 0, 0]\<rparr>"
  let ?t = "?u\<lparr>already_expecting := True, packet := [], expected_handler := Handshake ConnMessage, expected_len := 0\<rparr>"
  have "has_block ?u" "consume env (base_hooks env) ?u = Ret ?t"
    by (simp_all add: has_block_def consume_def handleConnFailed_def wire from_be_def arm_def sample_defs)
  then have "reaches env (base_hooks env) ?u ?t" by (blast intro: reaches.intros)
  moreover have "zero_reason ?t" by (simp add: zero_reason_def reports_reason_def sample_defs)
  moreover have "client_inv ?s" "top ?s = HandleExpected" "\<not> aborted ?s"
    by (simp_all add: client_inv_def sized_def armed_def sample_defs)
  ultimately show "dataReceived env (base_hooks env) [0, 0, 0, 0] ?s = None"
    using receive_loop_hangs_iff [of ?s env "[0, 0, 0, 0]"] by blast
qed

text \<open>C17. An oversized Raw rectangle fails the connection before anything is allocated for it: the
  error is reported and the connection dropped, the backing store stays as it was, and the parser is
  stopped for good, so that no later byte of the stream is looked at.\<close>

theorem oversized_rectangle_stops_client:
  assumes "unpack5 ''!HHHHi'' block = Inr (x, y, w, h, ENC_RAW)" "rectangles s \<noteq> 0"
    and "w > size_limit (fb_width s) \<or> h > size_limit (fb_height s)"
  shows "\<exists>t. handleRectangle (base_hooks env) block s = Ret t \<and> aborted t \<and>
    rect_backing t = rect_backing s \<and>
    trace t = trace s @ [Call (VncProtocolError (RectTooBig w h (size_limit (fb_width s)) (size_limit (fb_height s)))),
      LoseConnection] \<and>
    (\<forall>ds. deliver env (base_hooks env) ds t = Some (Ret t))"
proof -
  have ignored: "deliver env (base_hooks env) ds t = Some (Ret t)" if "aborted t" for ds and t :: "'a client"
    using that by (induction ds) (simp_all add: dataReceived_def)
  let ?why = "RectTooBig w h (size_limit (fb_width s)) (size_limit (fb_height s))"
  let ?t = "s\<lparr>rectangles := rectangles s - 1, rectanglePos := rectanglePos s @ [(x, y, w, h)], aborted := True,
    packet := [], trace := trace s @ [Call (VncProtocolError ?why), LoseConnection]\<rparr>"
  have "\<not> (0 \<le> w \<and> w \<le> size_limit (fb_width s) \<and> 0 \<le> h \<and> h \<le> size_limit (fb_height s))"
    using assms(3) by auto
  with assms(1,2) have "handleRectangle (base_hooks env) block s = Ret ?t"
    by (simp add: handleRectangle_def decode_rectangle_def for_connection_def pumpPixels_def rectBuffer_def
        abortConnection_def refuse_def call_def base_hooks_def loseConnection_def log_io_def Let_def)
  moreover have "aborted ?t" by simp
  ultimately show ?thesis using ignored by (intro exI [of _ ?t]) auto
qed

theorem oversized_rectangle_stops_client_witness:
  "\<forall>env. \<exists>t. handleRectangle (base_hooks env) [0,0, 0,0, 4,0, 0,1, 0,0,0,0]
      ((parked (Message RectangleHeader) 12)\<lparr>rectangles := 1, fb_width := 640, fb_height := 480\<rparr>) = Ret t \<and> aborted t \<and>
    rect_backing t = [] \<and> (\<forall>ds. deliver env (base_hooks env) ds t = Some (Ret t))"
proof
  fix env
  let ?s = "(parked (Message RectangleHeader) 12)\<lparr>rectangles := 1, fb_width := 640, fb_height := 480\<rparr>"
  have "unpack5 ''!HHHHi'' [0,0, 0,0, 4,0, 0,1, 0,0,0,0] = Inr (0, 0, 1024, 1, ENC_RAW)"
    by (simp add: wire from_be_def signed_value_def)
  from oversized_rectangle_stops_client [OF this, of ?s env]
  show "\<exists>t. handleRectangle (base_hooks env) [0,0, 0,0, 4,0, 0,1, 0,0,0,0] ?s = Ret t \<and> aborted t \<and>
    rect_backing t = [] \<and> (\<forall>ds. deliver env (base_hooks env) ds t = Some (Ret t))"
    by (auto simp: size_limit_def sample_defs)
qed

end
