(* ===== verification/Rfb_Sessions.thy ===== *)
theory Rfb_Sessions
  imports Rfb_Protocol
begin

text \<open>
  Whole conversations: what \<open>RFBClient\<close> does with the bytes a correct server sends, from the
  greeting to the first message and for framebuffer updates. The server's side is written here
  as encoders, following RFC 6143, so the theorems are round trips: the callbacks the client makes
  are exactly what the server encoded.
\<close>

section \<open>Feeding the loop block by block\<close>

lemma run_loop_block:
  assumes "\<not> aborted s" "packet s = blk @ rest" "expected_len s = int (length blk)"
    and "dispatch env H (expected_handler s) blk (s\<lparr>already_expecting := True, packet := rest\<rparr>) = Ret t"
  shows "run_loop env H s = run_loop env H t"
proof (rule run_loop_unfold(1))
  show "has_block s" using assms by (simp add: has_block_def)
  show "consume env H s = Ret t" using assms by (simp add: consume_def)
qed

lemma run_loop_idle:
  "packet s = [] \<Longrightarrow> 0 < expected_len s \<Longrightarrow> \<not> already_expecting s \<Longrightarrow> run_loop env H s = Some (Ret s)"
  by (subst run_loop_unfold(3)) (simp_all add: has_block_def)

lemma client_bypp_updates [simp]:
  "client_bypp (s\<lparr>already_expecting := b\<rparr>) = client_bypp s" "client_bypp (s\<lparr>packet := p\<rparr>) = client_bypp s"
  "client_bypp (s\<lparr>trace := tr\<rparr>) = client_bypp s" "client_bypp (s\<lparr>rectangles := n\<rparr>) = client_bypp s"
  "client_bypp (s\<lparr>rectanglePos := ps\<rparr>) = client_bypp s" "client_bypp (s\<lparr>expected_handler := h\<rparr>) = client_bypp s"
  "client_bypp (s\<lparr>expected_len := n\<rparr>) = client_bypp s" "client_bypp (s\<lparr>rect_backing := p\<rparr>) = client_bypp s"
  by (simp_all add: client_bypp_def)

section \<open>The handshake with VNC authentication\<close>

definition encode_server_init :: "int \<Rightarrow> int \<Rightarrow> bytes \<Rightarrow> bytes \<Rightarrow> bytes" where
  "encode_server_init w h pf name = to_be 2 w @ to_be 2 h @ pf @ to_be 4 (int (length name))"

lemma run_loop_end:
  "packet s = [] \<Longrightarrow> 0 < expected_len s \<Longrightarrow> run_loop env H s = Some (Ret (s\<lparr>already_expecting := False\<rparr>))"
  by (rule run_loop_unfold(3)) (simp add: has_block_def)

lemma to_be_16: "0 \<le> v \<Longrightarrow> v < 65536 \<Longrightarrow> from_be (to_be 2 v) = v"
  by (rule from_to_be) simp_all

lemma to_be_32: "0 \<le> v \<Longrightarrow> v < 4294967296 \<Longrightarrow> from_be (to_be 4 v) = v"
  by (rule from_to_be) simp_all

lemma handleServerInit_encoded:
  assumes "0 \<le> w" "w < 65536" "0 \<le> h" "h < 65536" "to_bytes pf = Inr pfb" "wire_format pf" "length name < 4294967296"
  shows "handleServerInit (encode_server_init w h pfb name) s =
    Ret (arm (Handshake ServerName) (int (length name)) (s\<lparr>fb_width := w, fb_height := h, pixel_format := pf\<rparr>))"
proof -
  from to_from_bytes [OF assms(5)] have pf: "length pfb = 16" "from_bytes pfb = Inr pf" by simp_all
  with assms show ?thesis
    by (simp add: handleServerInit_def wire encode_server_init_def to_be_16 to_be_32)
qed

lemma header_3_8: "header_translate (format_version (3, 8)) = HEADER" "greeting_version (format_version (3, 8)) = (3, 8)"
  "length (format_version (3, 8)) = 12"
  using greeting_round_trip_nat [of 3 8] by (auto simp: header_translate_def HEADER_def ascii_def dest: arg_cong [of _ _ length])

text \<open>The end of every successful handshake of 3.8: result 0, initialisation, name.\<close>

definition initialised :: "int \<Rightarrow> int \<Rightarrow> PixelFormat \<Rightarrow> bytes \<Rightarrow> 'a client \<Rightarrow> 'a client" where
  "initialised w h pf name s = arm (Message Connection) 1
     (s\<lparr>already_expecting := False, packet := [], fb_width := w, fb_height := h, pixel_format := pf, server_name := name,
       trace := trace s @ [Write [of_bool (factory_shared s)], Call VncConnectionMade]\<rparr>)"

lemma handshake_completes:
  assumes "0 \<le> w" "w < 65536" "0 \<le> h" "h < 65536" "to_bytes pf = Inr pfb" "wire_format pf" "length name < 4294967296"
    and "\<not> aborted s" "expected_handler s = Handshake VNCAuthResult" "expected_len s = 4"
    and "packet s = [0, 0, 0, 0] @ encode_server_init w h pfb name @ name"
  shows "run_loop env (base_hooks env) s = Some (Ret (initialised w h pf name s))"
proof -
  let ?B = "base_hooks env"
  let ?init = "encode_server_init w h pfb name"
  let ?s1 = "arm (Handshake ServerInit) 24 (s\<lparr>already_expecting := True, packet := ?init @ name,
    trace := trace s @ [Write [of_bool (factory_shared s)]]\<rparr>)"
  let ?s2 = "arm (Handshake ServerName) (int (length name))
    (?s1\<lparr>packet := name, fb_width := w, fb_height := h, pixel_format := pf\<rparr>)"
  let ?s3 = "(initialised w h pf name s)\<lparr>already_expecting := True\<rparr>"
  have "length pfb = 16" using to_from_bytes [OF assms(5)] by simp
  then have len: "length ?init = 24" by (simp add: encode_server_init_def)
  have "run_loop env ?B s = run_loop env ?B ?s1"
    using assms(8-11) by (intro run_loop_block [where blk = "[0, 0, 0, 0]"])
      (simp_all add: arm_def handleVNCAuthResult_def wire from_be_def doClientInitialization_def
        transport_write_def pack_octet log_io_def)
  also have "\<dots> = run_loop env ?B ?s2"
    using assms(8) len by (intro run_loop_block [where blk = ?init])
      (auto simp: handleServerInit_encoded [OF assms(1-7)] arm_def intro!: rfb_client.equality)
  also have "\<dots> = run_loop env ?B ?s3"
    using assms(8) by (intro run_loop_block [where blk = name])
      (auto simp: arm_def initialised_def handleServerName_def base_hooks_def call_def log_io_def
        intro!: rfb_client.equality)
  also have "\<dots> = Some (Ret (initialised w h pf name s))"
    by (subst run_loop_end) (simp_all add: initialised_def arm_def)
  finally show ?thesis .
qed

lemma greeting_3_8:
  assumes "rest \<noteq> []"
  shows "dataReceived env H (format_version (3, 8) @ rest) (init_client u p shrd ext) =
    run_loop env H (arm (Handshake NumberSecurityTypes) 1 ((init_client u p shrd ext)
      \<lparr>packet := rest, top := HandleExpected, rfb_version := (3, 8), version_server := (3, 8),
       trace := [Write (format_version (3, 8))]\<rparr>))"
proof -
  have v: "negotiate_version (3, 8) = Inr (3, 8)"
    by (simp add: negotiate_version_def SUPPORTED_SERVER_VERSIONS_def MAX_CLIENT_VERSION_def)
  have "1 \<le> int (length rest)" using assms by (cases rest) auto
  then show ?thesis
    by (simp add: dataReceived_def init_client_def handleInitial_def Let_def header_3_8 v expect_def handleExpected_def
        arm_def log_io_def)
qed

text \<open>C16. The handshake with VNC authentication, protocol 3.8: against a server that follows the
  protocol the client answers the version, picks type 2, sends the challenge encrypted under the
  bit-reversed password, sends its shared flag, and is left with the server's size, pixel format
  and name, waiting for the first message.\<close>

theorem vnc_auth_handshake:
  assumes "vnc_des p = Inr key" "tripledes_ecb env (py_repeat key 3) chal = Inr resp" "length chal = 16"
    and "0 \<le> w" "w < 65536" "0 \<le> h" "h < 65536" "to_bytes pf = Inr pfb" "wire_format pf" "length name < 4294967296"
  shows "\<exists>t. dataReceived env (base_hooks env)
      (format_version (3, 8) @ [1, 2] @ chal @ [0, 0, 0, 0] @ encode_server_init w h pfb name @ name)
      (init_client u (Some p) shrd ext) = Some (Ret t) \<and>
    trace t = [Write (format_version (3, 8)), Write [2], Call VncRequestPassword, Write resp,
      Write [of_bool shrd], Call VncConnectionMade] \<and>
    fb_width t = w \<and> fb_height t = h \<and> pixel_format t = pf \<and> server_name t = name \<and>
    packet t = [] \<and> expected_handler t = Message Connection \<and> expected_len t = 1"
proof -
  let ?B = "base_hooks env" let ?V = "Write (format_version (3, 8))"
  let ?tail = "[0, 0, 0, 0] @ encode_server_init w h pfb name @ name"
  let ?s0 = "(init_client u (Some p) shrd ext)\<lparr>top := HandleExpected, rfb_version := (3, 8), version_server := (3, 8),
    already_expecting := True\<rparr>"
  let ?s2 = "arm (Handshake SecurityTypes) 1 (?s0\<lparr>packet := [2] @ chal @ ?tail, trace := [?V]\<rparr>)"
  let ?s3 = "arm (Handshake VNCAuth) 16 (?s0\<lparr>packet := chal @ ?tail, trace := [?V, Write [2]]\<rparr>)"
  let ?s4 = "arm (Handshake VNCAuthResult) 4 (?s0\<lparr>packet := ?tail, challenge := chal,
    trace := [?V, Write [2], Call VncRequestPassword, Write resp]\<rparr>)"
  have "dataReceived env ?B (format_version (3, 8) @ [1, 2] @ chal @ ?tail) (init_client u (Some p) shrd ext)
      = run_loop env ?B ?s2"
    by (subst greeting_3_8, simp, rule run_loop_block [where blk = "[1]"])
      (simp_all add: arm_def init_client_def handleNumberSecurityTypes_def wire)
  also have "\<dots> = run_loop env ?B ?s3"
    by (rule run_loop_block [where blk = "[2]"])
      (simp_all add: arm_def init_client_def handleSecurityTypes_def struct_unpack_def parse_counted_format
        SUPPORTED_AUTHS_def transport_write_def pack_octet log_io_def)
  also have "\<dots> = run_loop env ?B ?s4"
    using assms(1-3) by (intro run_loop_block [where blk = chal])
      (simp_all add: arm_def init_client_def handleVNCAuth_def base_hooks_def call_def default_vncRequestPassword_def
        sendPassword_def des_encrypt_def transport_write_def log_io_def)
  also have "\<dots> = Some (Ret (initialised w h pf name ?s4))"
    using assms(4-) by (intro handshake_completes) (simp_all add: arm_def init_client_def)
  finally show ?thesis
    by (intro exI [of _ "initialised w h pf name ?s4"]) (simp add: initialised_def arm_def init_client_def)
qed

text \<open>An environment whose ciphers are the identity on the data.\<close>

definition plain_env :: env where
  "plain_env = \<lparr>tripledes_ecb = \<lambda>key data. Inr data, dh_exchange = \<lambda>p g sk. Inr ([], 0), md5 = \<lambda>d. d,
     aes_ecb = \<lambda>key data. Inr data, inflate = \<lambda>history block. Inr block,
     prompt_username = [], prompt_password = []\<rparr>"

theorem vnc_auth_handshake_witness:
  "\<exists>pfb t. to_bytes default_PixelFormat = Inr pfb \<and> dataReceived plain_env (base_hooks plain_env)
      (format_version (3, 8) @ [1, 2] @ replicate 16 7 @ [0, 0, 0, 0] @
       encode_server_init 640 480 pfb [88] @ [88])
      (init_client None (Some ''secret'') True ()) = Some (Ret t) \<and>
    trace t = [Write (format_version (3, 8)), Write [2], Call VncRequestPassword, Write (replicate 16 7),
      Write [1], Call VncConnectionMade] \<and> fb_width t = 640 \<and> server_name t = [88]"
proof -
  have wire: "wire_format default_PixelFormat"
    by (simp add: wire_format_def in_u8_def in_u16_def default_PixelFormat_def)
  then obtain pfb where pfb: "to_bytes default_PixelFormat = Inr pfb" using to_bytes_iff by blast
  obtain key where key: "vnc_des ''secret'' = Inr key"
    by (simp add: vnc_des_def encode_ascii_def nul_pad_def numeral_2_eq_2)
  have cipher: "tripledes_ecb plain_env (py_repeat key 3) (replicate 16 7) = Inr (replicate 16 7)"
    by (simp add: plain_env_def)
  from vnc_auth_handshake [OF key cipher _ _ _ _ _ pfb wire, of 640 480 "[88]" None True "()"] pfb
  show ?thesis by (auto simp del: replicate.simps)
qed

section \<open>Framebuffer updates\<close>

text \<open>The rectangles of an update as the server encodes them (RFC 6143 sections 7.6.1 and 7.7).\<close>

datatype wire_rect = WRaw rect bytes | WCopy rect int int | WRRE rect bytes "(bytes \<times> rect) list"

fun rect_of :: "wire_rect \<Rightarrow> rect" where
  "rect_of (WRaw r px) = r"
| "rect_of (WCopy r sx sy) = r"
| "rect_of (WRRE r bg subs) = r"

fun encode_corners :: "rect \<Rightarrow> bytes" where
  "encode_corners (x, y, w, h) = to_be 2 x @ to_be 2 y @ to_be 2 w @ to_be 2 h"

declare encode_corners.simps [simp del]

lemma length_encode_corners [simp]: "length (encode_corners r) = 8"
  by (cases r) (simp add: encode_corners.simps)

definition encode_subrect :: "bytes \<times> rect \<Rightarrow> bytes" where
  "encode_subrect = (\<lambda>(c, r). c @ encode_corners r)"

fun encode_rect :: "wire_rect \<Rightarrow> bytes" where
  "encode_rect (WRaw r px) = encode_corners r @ to_be 4 0 @ px"
| "encode_rect (WCopy r sx sy) = encode_corners r @ to_be 4 1 @ to_be 2 sx @ to_be 2 sy"
| "encode_rect (WRRE r bg subs) =
     encode_corners r @ to_be 4 2 @ to_be 4 (int (length subs)) @ bg @ concat (map encode_subrect subs)"

definition encode_update :: "wire_rect list \<Rightarrow> bytes" where
  "encode_update rs = [0, 0] @ to_be 2 (int (length rs)) @ concat (map encode_rect rs)"

fun u16_rect :: "rect \<Rightarrow> bool" where
  "u16_rect (x, y, w, h) \<longleftrightarrow> 0 \<le> x \<and> x < 65536 \<and> 0 \<le> y \<and> y < 65536 \<and> 0 \<le> w \<and> w < 65536 \<and> 0 \<le> h \<and> h < 65536"

text \<open>A rectangle the server may send to a client of this screen size and pixel size.\<close>

fun valid_rect :: "int \<Rightarrow> int \<Rightarrow> int \<Rightarrow> wire_rect \<Rightarrow> bool" where
  "valid_rect W Hh bypp (WRaw (x, y, w, h) px) \<longleftrightarrow> u16_rect (x, y, w, h) \<and>
     w \<le> size_limit W \<and> h \<le> size_limit Hh \<and> int (length px) = w * h * bypp"
| "valid_rect W Hh bypp (WCopy r sx sy) \<longleftrightarrow> u16_rect r \<and> 0 \<le> sx \<and> sx < 65536 \<and> 0 \<le> sy \<and> sy < 65536"
| "valid_rect W Hh bypp (WRRE r bg subs) \<longleftrightarrow> u16_rect r \<and> int (length bg) = bypp \<and> length subs < 4294967296 \<and>
     list_all (\<lambda>(c, r). int (length c) = bypp \<and> u16_rect r) subs"

text \<open>What the client tells the application: the default \<open>fillRectangle\<close> is an update too.\<close>

fun fill_calls :: "PixelFormat \<Rightarrow> int \<Rightarrow> int \<Rightarrow> bytes \<times> rect \<Rightarrow> io list" where
  "fill_calls pf topx topy (c, (x, y, w, h)) =
     [Call (FillRectangle (topx + x) (topy + y) w h (Some c)),
      Call (UpdateRectangle (topx + x) (topy + y) w h (py_repeat (py_repeat c w) h) pf)]"

fun rect_calls :: "PixelFormat \<Rightarrow> wire_rect \<Rightarrow> io list" where
  "rect_calls pf (WRaw (x, y, w, h) px) = [Call (UpdateRectangle x y w h px pf)]"
| "rect_calls pf (WCopy (x, y, w, h) sx sy) = [Call (CopyRectangle sx sy x y w h)]"
| "rect_calls pf (WRRE (x, y, w, h) bg subs) =
     fill_calls pf 0 0 (bg, (x, y, w, h)) @ concat (map (fill_calls pf x y) subs)"

definition after_rect :: "'a client \<Rightarrow> 'a client" where
  "after_rect u =
     (if rectangles u \<noteq> 0 then arm (Message RectangleHeader) 12 u
      else arm (Message Connection) 1 (log_io (Call (CommitUpdate (rectanglePos u))) u))"

lemma doConnection_base: "doConnection (base_hooks env) u = Ret (after_rect u)"
  by (simp add: doConnection_def after_rect_def call_def base_hooks_def)

lemma header_encoded:
  assumes "u16_rect r" "0 \<le> e" "e < 2147483648"
  shows "unpack5 ''!HHHHi'' (encode_corners r @ to_be 4 e) =
    Inr (fst r, fst (snd r), fst (snd (snd r)), snd (snd (snd r)), e)"
  using assms by (cases r) (simp add: wire to_be_16 to_be_32 signed_value_def encode_corners.simps)

text \<open>The client's state once a rectangle's callbacks are made, before the next one is awaited.\<close>

definition decoded :: "wire_rect \<Rightarrow> bytes \<Rightarrow> bytes \<Rightarrow> 'a client \<Rightarrow> 'a client" where
  "decoded r backing rest s = s\<lparr>already_expecting := True, packet := rest, rectangles := rectangles s - 1,
     rectanglePos := rectanglePos s @ [rect_of r], rect_backing := backing,
     trace := trace s @ rect_calls (pixel_format s) r\<rparr>"

definition awaiting :: "wire_rect \<Rightarrow> bytes \<Rightarrow> 'a client \<Rightarrow> bool" where
  "awaiting r rest s \<longleftrightarrow> \<not> aborted s \<and> 0 < rectangles s \<and> expected_handler s = Message RectangleHeader \<and>
     expected_len s = 12 \<and> packet s = encode_rect r @ rest \<and> 0 \<le> client_bypp s \<and>
     valid_rect (fb_width s) (fb_height s) (client_bypp s) r"

lemma copy_rect_decoded:
  assumes "awaiting (WCopy r sx sy) rest s"
  shows "run_loop env (base_hooks env) s =
    run_loop env (base_hooks env) (after_rect (decoded (WCopy r sx sy) (rect_backing s) rest s))"
proof -
  let ?B = "base_hooks env" obtain x y w h where r: "r = (x, y, w, h)" by (cases r) auto
  let ?s1 = "arm (PumpBlock (CopyRectData r) None) 4 (s\<lparr>already_expecting := True,
    packet := to_be 2 sx @ to_be 2 sy @ rest, rectangles := rectangles s - 1, rectanglePos := rectanglePos s @ [r]\<rparr>)"
  from assms have hdr: "unpack5 ''!HHHHi'' (encode_corners r @ to_be 4 1) = Inr (x, y, w, h, ENC_COPY_RECTANGLE)"
    by (simp add: awaiting_def header_encoded r)
  have "run_loop env ?B s = run_loop env ?B ?s1"
    using assms hdr by (intro run_loop_block [where blk = "encode_corners r @ to_be 4 1"])
      (auto simp: awaiting_def r handleRectangle_def Let_def decode_rectangle_def for_connection_def
        pumpForClient_def pumpBlock_def arm_def)
  also have "\<dots> = run_loop env ?B (after_rect (decoded (WCopy r sx sy) (rect_backing s) rest s))"
    using assms by (intro run_loop_block [where blk = "to_be 2 sx @ to_be 2 sy"])
      (auto simp: awaiting_def r arm_def pumpBlock_def copyrect_send_def wire to_be_16 doConnection_base
        after_rect_def decoded_def call_def base_hooks_def log_io_def intro!: rfb_client.equality)
  finally show ?thesis .
qed

text \<open>A Raw rectangle: the buffer is accepted, filled by one whole-rectangle write, and handed over.\<close>

lemma raw_target:
  assumes "0 \<le> w" "w \<le> size_limit (fb_width s)" "0 \<le> h" "h \<le> size_limit (fb_height s)" "0 \<le> client_bypp s"
  shows "\<exists>bk rb. rectBuffer H w h s = (Some rb, Ret (s\<lparr>rect_backing := bk\<rparr>)) \<and>
    rb_width rb = w \<and> rb_height rb = h \<and> rb_bypp rb = client_bypp s \<and> rb_backing rb = bk"
proof -
  let ?bk = "if int (length (rect_backing s)) < w * h * client_bypp s
    then replicate (nat (w * h * client_bypp s)) 0 else rect_backing s"
  have "client_bypp (s\<lparr>rect_backing := b\<rparr>) = client_bypp s" for b by (simp add: client_bypp_def)
  moreover have "s\<lparr>rect_backing := rect_backing s\<rparr> = s" by simp
  ultimately show ?thesis
    using assms by (intro exI [of _ ?bk]) (auto simp: rectBuffer_def Let_def RectBuffer_init_def)
qed

lemma raw_blit:
  assumes "0 \<le> rb_width rb" "0 \<le> rb_height rb" "int (length px) = rb_width rb * rb_height rb * rb_bypp rb"
  shows "blit rb 0 0 (rb_width rb) (rb_height rb) px = Inr (rb\<lparr>rb_whole := Some px, rb_covered := True\<rparr>)"
  using assms by (simp add: blit_def check_rect_def is_whole_def Let_def)

definition received :: "rect \<Rightarrow> bytes \<Rightarrow> handler \<Rightarrow> int \<Rightarrow> bytes \<Rightarrow> 'a client \<Rightarrow> 'a client" where
  "received r bk hdl n rest s = arm hdl n (s\<lparr>already_expecting := True, packet := rest, rectangles := rectangles s - 1,
     rectanglePos := rectanglePos s @ [r], rect_backing := bk\<rparr>)"

lemma raw_rect_step:
  assumes "awaiting (WRaw (x, y, w, h) px) rest s"
  shows "\<exists>bk hdl n. \<forall>t t'. call H (UpdateRectangle x y w h px (pixel_format s)) (received (x, y, w, h) bk hdl n rest s) = Ret t \<longrightarrow>
    doConnection H t = Ret t' \<longrightarrow> run_loop env H s = run_loop env H t'"
proof -
  let ?r = "(x, y, w, h)"
  let ?u = "s\<lparr>already_expecting := True, packet := px @ rest, rectangles := rectangles s - 1,
    rectanglePos := rectanglePos s @ [?r]\<rparr>"
  from assms have v: "0 \<le> w" "w \<le> size_limit (fb_width ?u)" "0 \<le> h" "h \<le> size_limit (fb_height ?u)"
    "0 \<le> client_bypp ?u" and len: "int (length px) = w * h * client_bypp ?u"
    by (simp_all add: awaiting_def client_bypp_def)
  from raw_target [OF v, of H] obtain bk rb where
    buf: "rectBuffer H w h ?u = (Some rb, Ret (?u\<lparr>rect_backing := bk\<rparr>))"
    and rb: "rb_width rb = w" "rb_height rb = h" "rb_bypp rb = client_bypp ?u" "rb_backing rb = bk" by blast
  let ?hdl = "PumpBlock (RawData rb) (Some ?r)"
  let ?s1 = "arm ?hdl (int (length px)) (?u\<lparr>rect_backing := bk\<rparr>)"
  from assms have hdr: "unpack5 ''!HHHHi'' (encode_corners ?r @ to_be 4 0) = Inr (x, y, w, h, ENC_RAW)"
    by (simp add: awaiting_def header_encoded)
  have "run_loop env H s = run_loop env H ?s1"
    using assms hdr buf rb len by (intro run_loop_block [where blk = "encode_corners ?r @ to_be 4 0"])
      (auto simp: awaiting_def handleRectangle_def Let_def decode_rectangle_def for_connection_def
        pumpPixels_def pumpBlock_def)
  moreover have "run_loop env H ?s1 = run_loop env H t'"
    if "call H (UpdateRectangle x y w h px (pixel_format s)) (received ?r bk ?hdl (int (length px)) rest s) = Ret t"
      and "doConnection H t = Ret t'" for t t'
  proof (rule run_loop_block [where blk = px])
    let ?v = "received ?r bk ?hdl (int (length px)) rest s"
    have v: "?s1\<lparr>already_expecting := True, packet := rest\<rparr> = ?v" "?v\<lparr>rect_backing := bk\<rparr> = ?v"
      by (auto simp: received_def arm_def intro!: rfb_client.equality)
    have hdl: "expected_handler ?s1 = ?hdl" by (simp add: arm_def)
    have "pixel_format ?v = pixel_format s" by (simp add: received_def arm_def)
    then show "dispatch env H (expected_handler ?s1) px (?s1\<lparr>already_expecting := True, packet := rest\<rparr>) = Ret t'"
      unfolding v(1) hdl using that v(2) rb len raw_blit [of rb px] \<open>0 \<le> w\<close> \<open>0 \<le> h\<close>
      by (simp add: pumpBlock_def raw_send_def finishRectangle_def tobytes_def)
  qed (use assms in \<open>simp_all add: awaiting_def arm_def\<close>)
  ultimately show ?thesis by metis
qed

lemma raw_rect_decoded:
  assumes "awaiting (WRaw r px) rest s"
  shows "\<exists>bk. run_loop env (base_hooks env) s =
    run_loop env (base_hooks env) (after_rect (decoded (WRaw r px) bk rest s))"
proof -
  let ?B = "base_hooks env" obtain x y w h where r: "r = (x, y, w, h)" by (cases r) auto
  from assms raw_rect_step [of x y w h px rest s ?B env] obtain bk hdl n where
    step: "\<And>t t'. call ?B (UpdateRectangle x y w h px (pixel_format s)) (received r bk hdl n rest s) = Ret t \<Longrightarrow>
      doConnection ?B t = Ret t' \<Longrightarrow> run_loop env ?B s = run_loop env ?B t'" unfolding r by blast
  let ?t = "log_io (Call (UpdateRectangle x y w h px (pixel_format s))) (received r bk hdl n rest s)"
  have "after_rect ?t = after_rect (decoded (WRaw r px) bk rest s)"
    by (auto simp: after_rect_def decoded_def received_def arm_def log_io_def r intro!: rfb_client.equality)
  moreover have "run_loop env ?B s = run_loop env ?B (after_rect ?t)"
    by (rule step [OF _ doConnection_base]) (simp add: call_def base_hooks_def)
  ultimately show ?thesis by metis
qed

text \<open>An RRE rectangle: the background, then every subrectangle in order.\<close>

lemma chunks_concat:
  assumes "\<And>x. x \<in> set xs \<Longrightarrow> length x = n" "0 < n"
  shows "chunks n (concat xs) = xs"
  using assms(1)
proof (induction xs)
  case Nil
  then show ?case by (subst chunks.simps) simp
next
  case (Cons x xs)
  then have "length x = n" "x \<noteq> []" using assms(2) by auto
  with Cons assms(2) show ?case by (subst chunks.simps) auto
qed

lemma fill_call_base:
  "call (base_hooks env) (FillRectangle (topx + x) (topy + y) w h (Some c)) s =
     Ret (s\<lparr>trace := trace s @ fill_calls (pixel_format s) topx topy (c, (x, y, w, h))\<rparr>)"
  by (simp add: call_def base_hooks_def default_fillRectangle_def log_io_def)

lemma fill_subrect_base:
  assumes "u16_rect r" "length c = n"
  shows "fill_subrect (base_hooks env) (CHR ''!'' # show_nat n @ ''sHHHH'') topx topy (encode_subrect (c, r)) s =
    Ret (s\<lparr>trace := trace s @ fill_calls (pixel_format s) topx topy (c, r)\<rparr>)"
proof -
  obtain x y w h where r: "r = (x, y, w, h)" by (cases r) auto
  with assms have "bind_sum (struct_unpack (CHR ''!'' # show_nat n @ ''sHHHH'') (encode_subrect (c, r))) as_subrect
      = Inr (c, x, y, w, h)"
    by (simp add: struct_unpack_def parse_counted_format encode_subrect_def encode_corners.simps to_be_16)
  then show ?thesis by (simp add: fill_subrect_def fill_call_base r del: fill_calls.simps)
qed

lemma fill_subrects_base:
  assumes "list_all (\<lambda>(c, r). length c = n \<and> u16_rect r) subs"
  shows "for_each (fill_subrect (base_hooks env) (CHR ''!'' # show_nat n @ ''sHHHH'') topx topy) (map encode_subrect subs) s =
    Ret (s\<lparr>trace := trace s @ concat (map (fill_calls (pixel_format s) topx topy) subs)\<rparr>)"
  using assms by (induction subs arbitrary: s) (auto simp: fill_subrect_base)

lemma rre_header:
  assumes "awaiting (WRRE (x, y, w, h) bg subs) rest s"
  shows "run_loop env (base_hooks env) s = run_loop env (base_hooks env)
    (arm (Rectangle (DecodeRRE x y w h)) (4 + client_bypp s) (s\<lparr>already_expecting := True,
      packet := to_be 4 (int (length subs)) @ bg @ concat (map encode_subrect subs) @ rest,
      rectangles := rectangles s - 1, rectanglePos := rectanglePos s @ [(x, y, w, h)]\<rparr>))"
proof -
  from assms have hdr: "unpack5 ''!HHHHi'' (encode_corners (x, y, w, h) @ to_be 4 2) = Inr (x, y, w, h, ENC_RRE)"
    by (simp add: awaiting_def header_encoded)
  show ?thesis
    using assms hdr by (intro run_loop_block [where blk = "encode_corners (x, y, w, h) @ to_be 4 2"])
      (auto simp: awaiting_def handleRectangle_def Let_def decode_rectangle_def for_connection_def client_bypp_def)
qed

lemma rre_body:
  assumes "list_all (\<lambda>(c, r). length c = n \<and> u16_rect r) subs"
  shows "chunks (n + 8) (concat (map encode_subrect subs)) = map encode_subrect subs"
    and "length (concat (map encode_subrect subs)) = length subs * (n + 8)"
proof -
  show "chunks (n + 8) (concat (map encode_subrect subs)) = map encode_subrect subs"
    by (rule chunks_concat) (use assms in \<open>auto simp: list_all_iff encode_subrect_def\<close>)
  show "length (concat (map encode_subrect subs)) = length subs * (n + 8)"
    using assms by (induction subs) (auto simp: encode_subrect_def)
qed

lemma rre_rect_decoded:
  assumes "awaiting (WRRE r bg subs) rest s"
  shows "run_loop env (base_hooks env) s =
    run_loop env (base_hooks env) (after_rect (decoded (WRRE r bg subs) (rect_backing s) rest s))"
proof -
  let ?B = "base_hooks env" obtain x y w h where r: "r = (x, y, w, h)" by (cases r) auto
  let ?body = "concat (map encode_subrect subs)" let ?n = "nat (client_bypp s)"
  let ?s1 = "arm (Rectangle (DecodeRRE x y w h)) (4 + client_bypp s) (s\<lparr>already_expecting := True,
    packet := to_be 4 (int (length subs)) @ bg @ ?body @ rest,
    rectangles := rectangles s - 1, rectanglePos := rectanglePos s @ [r]\<rparr>)"
  let ?u = "?s1\<lparr>packet := ?body @ rest, trace := trace s @ fill_calls (pixel_format s) 0 0 (bg, r)\<rparr>"
  let ?s2 = "arm (Rectangle (RRESubRectangles x y)) ((8 + client_bypp s) * int (length subs)) ?u"
  let ?t = "after_rect (decoded (WRRE r bg subs) (rect_backing s) rest s)"
  from assms have len: "int (length bg) = client_bypp s" "length subs < 4294967296" "0 \<le> client_bypp s" "\<not> aborted s"
    and subs: "list_all (\<lambda>(c, r). length c = ?n \<and> u16_rect r) subs"
    by (auto simp: awaiting_def list_all_iff)
  have fill: "call ?B (FillRectangle x y w h (Some bg)) u = Ret (u\<lparr>trace := trace u @ fill_calls (pixel_format u) 0 0 (bg, r)\<rparr>)"
    for u :: "'a client" using fill_call_base [of env 0 x 0 y w h bg u] by (simp add: r)
  have first: "run_loop env ?B s = run_loop env ?B ?s1" using assms rre_header by (simp add: r)
  show ?thesis
  proof (cases "subs = []")
    case True
    have "run_loop env ?B ?s1 = run_loop env ?B ?t"
      using len True by (intro run_loop_block [where blk = "to_be 4 0 @ bg"])
        (auto simp: arm_def handleDecodeRRE_def Let_def wire to_be_32 fill doConnection_base after_rect_def decoded_def r
          log_io_def intro!: rfb_client.equality)
    with first show ?thesis by simp
  next
    case False
    have "run_loop env ?B ?s1 = run_loop env ?B ?s2"
      using len False by (intro run_loop_block [where blk = "to_be 4 (int (length subs)) @ bg"])
        (auto simp: handleDecodeRRE_def Let_def wire to_be_32 fill r arm_def intro!: rfb_client.equality)
    also have "\<dots> = run_loop env ?B ?t"
      using len by (intro run_loop_block [where blk = ?body])
        (auto simp: arm_def handleRRESubRectangles_def Let_def nat_add_distrib rre_body [OF subs]
          fill_subrects_base [OF subs] doConnection_base after_rect_def decoded_def r log_io_def
          algebra_simps intro!: rfb_client.equality)
    finally show ?thesis using first by simp
  qed
qed

lemma rect_decoded:
  assumes "awaiting r rest s"
  shows "\<exists>bk. run_loop env (base_hooks env) s = run_loop env (base_hooks env) (after_rect (decoded r bk rest s))"
proof (cases r)
  case (WRaw r' px)
  with assms raw_rect_decoded show ?thesis by blast
next
  case (WCopy r' sx sy)
  with assms copy_rect_decoded show ?thesis by blast
next
  case (WRRE r' bg subs)
  with assms rre_rect_decoded show ?thesis by blast
qed

text \<open>All the rectangles that are left, and the end of the update.\<close>

lemma rects_decoded:
  assumes "\<not> aborted s" "expected_handler s = Message RectangleHeader" "expected_len s = 12"
    and "rectangles s = int (length rs)" "rs \<noteq> []" "packet s = concat (map encode_rect rs) @ rest" "0 \<le> client_bypp s"
    and "list_all (valid_rect (fb_width s) (fb_height s) (client_bypp s)) rs"
  shows "\<exists>t. run_loop env (base_hooks env) s = run_loop env (base_hooks env) t \<and> packet t = rest \<and> \<not> aborted t \<and>
    top t = top s \<and> expected_handler t = Message Connection \<and> expected_len t = 1 \<and>
    trace t = trace s @ concat (map (rect_calls (pixel_format s)) rs) @ [Call (CommitUpdate (rectanglePos s @ map rect_of rs))]"
  using assms
proof (induction rs arbitrary: s)
  case (Cons r rs)
  let ?rest = "concat (map encode_rect rs) @ rest"
  from Cons.prems have "awaiting r ?rest s" by (simp add: awaiting_def)
  then obtain bk where bk: "run_loop env (base_hooks env) s = run_loop env (base_hooks env) (after_rect (decoded r bk ?rest s))"
    using rect_decoded by blast
  let ?u = "after_rect (decoded r bk ?rest s)"
  show ?case
  proof (cases "rs = []")
    case True
    with Cons.prems bk show ?thesis
      by (intro exI [of _ ?u]) (simp add: after_rect_def decoded_def arm_def log_io_def)
  next
    case False
    with Cons.prems have u: "?u = arm (Message RectangleHeader) 12 (decoded r bk ?rest s)"
      by (simp add: after_rect_def decoded_def)
    have "\<exists>t. run_loop env (base_hooks env) ?u = run_loop env (base_hooks env) t \<and> packet t = rest \<and> \<not> aborted t \<and>
      top t = top ?u \<and> expected_handler t = Message Connection \<and> expected_len t = 1 \<and>
      trace t = trace ?u @ concat (map (rect_calls (pixel_format ?u)) rs) @ [Call (CommitUpdate (rectanglePos ?u @ map rect_of rs))]"
      using Cons.prems False unfolding u by (intro Cons.IH) (simp_all add: decoded_def arm_def)
    with bk show ?thesis unfolding u by (auto simp: decoded_def arm_def)
  qed
qed simp

text \<open>C13. A framebuffer update is decoded exactly: for any list of Raw, CopyRect and RRE rectangles
  that fit the screen, the client announces the update, makes the callbacks of every rectangle in
  order with the pixels the server encoded, commits with the list of their places, has consumed
  exactly the message, and waits for the next one.\<close>

theorem update_round_trip:
  assumes "\<not> aborted s" "top s = HandleExpected" "expected_handler s = Message Connection" "expected_len s = 1"
    and "packet s = []" "0 \<le> client_bypp s" "length rs < 65536"
    and "list_all (valid_rect (fb_width s) (fb_height s) (client_bypp s)) rs"
  shows "\<exists>t. dataReceived env (base_hooks env) (encode_update rs) s = Some (Ret t) \<and>
    trace t = trace s @ [Call BeginUpdate] @ concat (map (rect_calls (pixel_format s)) rs) @
      [Call (CommitUpdate (map rect_of rs))] \<and>
    packet t = [] \<and> \<not> aborted t \<and> expected_handler t = Message Connection \<and> expected_len t = 1"
proof -
  let ?B = "base_hooks env" let ?body = "concat (map encode_rect rs)" let ?n = "to_be 2 (int (length rs))"
  let ?s0 = "s\<lparr>packet := encode_update rs\<rparr>"
  let ?s1 = "arm (Message FramebufferUpdate) 3 (s\<lparr>already_expecting := True, packet := [0] @ ?n @ ?body\<rparr>)"
  let ?s2 = "after_rect (s\<lparr>already_expecting := True, packet := ?body, rectangles := int (length rs), rectanglePos := [],
    trace := trace s @ [Call BeginUpdate]\<rparr>)"
  have n: "from_be ?n = int (length rs)" using assms(7) by (simp add: to_be_16)
  have "dataReceived env ?B (encode_update rs) s = run_loop env ?B ?s0"
    using assms by (simp add: dataReceived_def handleExpected_def encode_update_def)
  also have "\<dots> = run_loop env ?B ?s1"
    using assms by (intro run_loop_block [where blk = "[0]"])
      (simp_all add: encode_update_def handleConnection_def wire arm_def)
  also have "\<dots> = run_loop env ?B ?s2"
    using assms n by (intro run_loop_block [where blk = "[0] @ ?n"])
      (auto simp: arm_def handleFramebufferUpdate_def wire call_def base_hooks_def log_io_def doConnection_base
        after_rect_def intro!: rfb_client.equality)
  finally have run: "dataReceived env ?B (encode_update rs) s = run_loop env ?B ?s2" .
  obtain t where t: "run_loop env ?B ?s2 = run_loop env ?B t" "packet t = []" "\<not> aborted t"
    "expected_handler t = Message Connection" "expected_len t = 1"
    "trace t = trace s @ [Call BeginUpdate] @ concat (map (rect_calls (pixel_format s)) rs) @ [Call (CommitUpdate (map rect_of rs))]"
  proof (cases "rs = []")
    case True
    with assms that [of ?s2] show ?thesis by (simp add: after_rect_def arm_def log_io_def)
  next
    case False
    with assms rects_decoded [of ?s2 rs "[]" env] that show ?thesis
      by (auto simp: after_rect_def arm_def log_io_def)
  qed
  with run run_loop_end [of t] show ?thesis by auto
qed

theorem update_round_trip_witness:
  "\<forall>env. \<exists>t. dataReceived env (base_hooks env)
      (encode_update [WRaw (1, 0, 1, 2) [1, 2, 3, 4, 5, 6, 7, 8], WCopy (0, 0, 2, 2) 3 4])
      (parked (Message Connection) 1) = Some (Ret t) \<and>
    trace t = [Call BeginUpdate, Call (UpdateRectangle 1 0 1 2 [1, 2, 3, 4, 5, 6, 7, 8] default_PixelFormat),
      Call (CopyRectangle 3 4 0 0 2 2), Call (CommitUpdate [(1, 0, 1, 2), (0, 0, 2, 2)])]"
proof
  fix env
  let ?rs = "[WRaw (1, 0, 1, 2) [1, 2, 3, 4, 5, 6, 7, 8], WCopy (0, 0, 2, 2) 3 4]"
  let ?s = "parked (Message Connection) 1"
  have "list_all (valid_rect (fb_width ?s) (fb_height ?s) (client_bypp ?s)) ?rs"
    by (simp add: sample_defs size_limit_def MAX_DESKTOP_SIZE_def)
  with update_round_trip [of ?s ?rs env]
  show "\<exists>t. dataReceived env (base_hooks env) (encode_update ?rs) ?s = Some (Ret t) \<and>
    trace t = [Call BeginUpdate, Call (UpdateRectangle 1 0 1 2 [1, 2, 3, 4, 5, 6, 7, 8] default_PixelFormat),
      Call (CopyRectangle 3 4 0 0 2 2), Call (CommitUpdate [(1, 0, 1, 2), (0, 0, 2, 2)])]"
    by (auto simp: sample_defs)
qed

end
