(* ===== verification/Capture_Sessions.thy ===== *)
theory Capture_Sessions
  imports Replay_Server Rfb_Sessions
begin

text \<open>
  What a capture holds when the proxied session follows the protocol, and what it is worth: the
  recorded handshake is one without authentication, and a client it is served to gets through it.
\<close>

section \<open>Message by message\<close>

definition idle :: "scrubber \<Rightarrow> bool" where
  "idle s \<longleftrightarrow> (\<forall>tap. pending tap s = [])"

definition cap_at :: "scrubber \<Rightarrow> bytes \<Rightarrow> bytes \<Rightarrow> capture" where
  "cap_at s a b = \<lparr>cap_scrubber = s, cap_s2c = a, cap_c2s = b, encodings_seen = []\<rparr>"

text \<open>What the stripping scrubber records for a message.\<close>

definition recorded :: "bytes \<Rightarrow> scrubber \<Rightarrow> bytes" where
  "recorded d s = (case recording (advance d (s\<lparr>recording := None\<rparr>)) of
     None \<Rightarrow> if in_auth s then [] else d | Some r \<Rightarrow> r)"

lemma idle_set_pending: "idle s \<Longrightarrow> set_pending tap [] s = s"
  using set_pending_same [of tap s] by (simp add: idle_def)

lemma feed_message:
  assumes "waiting s = Some (tap, int (length d))" "d \<noteq> []" "idle s" "\<not> preserve_auth s"
    and "waiting_on tap (advance d (s\<lparr>recording := None\<rparr>)) \<noteq> Some 0"
    and "sizes_ok (advance d (s\<lparr>recording := None\<rparr>))"
  shows "feed tap d s = (recorded d s, advance d (s\<lparr>recording := None\<rparr>))"
proof -
  let ?u = "advance d (s\<lparr>recording := None\<rparr>)"
  have p: "pending tap s = []" using assms(3) by (simp add: idle_def)
  have w: "waiting_on tap s = Some (int (length d))" using assms(1) by (simp add: waiting_on_iff)
  have ext: "ext tap d s = set_pending tap d s" using p by (simp add: ext_def)
  have chunk: "scrub_chunk tap (int (length d)) (set_pending tap d s) = (recorded d s, ?u)"
    using assms(3,4) by (auto simp: scrub_chunk_def Let_def idle_set_pending recorded_def)
  have u: "pending tap ?u = []" using p by simp
  have "scrub_loop tap (recorded d s) ?u = (recorded d s, ?u)"
  proof (cases "waiting_on tap ?u")
    case (Some n)
    then have "0 < n" using assms(5) waiting_nonneg [OF assms(6), of tap n]
      by (auto simp: waiting_on_iff order_less_le)
    with Some u show ?thesis by (simp add: scrub_loop.simps)
  qed (simp add: scrub_loop.simps)
  then have "scrub_loop tap [] (set_pending tap d s) = (recorded d s, ?u)"
    using w chunk by (simp add: scrub_loop.simps [of tap "[]"])
  then show ?thesis
    using w assms(2) ext u set_pending_same [of tap ?u] by (simp add: feed_watched release_def)
qed

lemma capture_message:
  assumes "waiting s = Some (tap, int (length d))" "d \<noteq> []" "idle s" "\<not> preserve_auth s"
    and "waiting_on tap (advance d (s\<lparr>recording := None\<rparr>)) \<noteq> Some 0"
    and "sizes_ok (advance d (s\<lparr>recording := None\<rparr>))"
  shows "tap = S2C \<Longrightarrow> feed_s2c d (cap_at s a b) = cap_at (advance d (s\<lparr>recording := None\<rparr>)) (a @ recorded d s) b"
    and "tap = C2S \<Longrightarrow> feed_c2s d (cap_at s a b) = cap_at (advance d (s\<lparr>recording := None\<rparr>)) a (b @ recorded d s)"
  using feed_message [OF assms] by (simp_all add: feed_s2c_def feed_c2s_def cap_at_def)

lemmas capture_s2c = capture_message(1) [where tap = S2C, OF _ _ _ _ _ _ refl]
lemmas capture_c2s = capture_message(2) [where tap = C2S, OF _ _ _ _ _ _ refl]

section \<open>A session and its transcript\<close>

text \<open>The messages of an authentication exchange of each type the scrubber can follow.\<close>

datatype login =
    NoAuth
  | VncAuth bytes bytes
  | ArdAuth int bytes bytes bytes bytes

fun login_type :: "login \<Rightarrow> int" where
  "login_type NoAuth = 1"
| "login_type (VncAuth chal resp) = 2"
| "login_type (ArdAuth g modl skey cred ckey) = 30"

fun login_messages :: "login \<Rightarrow> (tap \<times> bytes) list" where
  "login_messages NoAuth = []"
| "login_messages (VncAuth chal resp) = [(S2C, chal), (C2S, resp)]"
| "login_messages (ArdAuth g modl skey cred ckey) =
     [(S2C, to_be 2 g @ to_be 2 (int (length modl))), (S2C, modl), (S2C, skey), (C2S, cred), (C2S, ckey)]"

fun login_ok :: "login \<Rightarrow> bool" where
  "login_ok NoAuth = True"
| "login_ok (VncAuth chal resp) = (length chal = 16 \<and> length resp = 16)"
| "login_ok (ArdAuth g modl skey cred ckey) =
     (modl \<noteq> [] \<and> length modl < 65536 \<and> length skey = length modl \<and> length cred = 128 \<and> length ckey = length modl)"

definition session_start :: "bytes \<Rightarrow> bytes \<Rightarrow> bytes \<Rightarrow> login \<Rightarrow> (tap \<times> bytes) list" where
  "session_start head reply types l =
     [(S2C, head), (C2S, reply), (S2C, [of_nat (length types)]), (S2C, types),
      (C2S, [word_of_int (login_type l)])]"

definition session_init :: "byte \<Rightarrow> bytes \<Rightarrow> bytes \<Rightarrow> (tap \<times> bytes) list" where
  "session_init shrd init name = [(S2C, [0, 0, 0, 0]), (C2S, [shrd]), (S2C, init), (S2C, name)]"

definition start_scrubber :: "bytes \<Rightarrow> ver \<Rightarrow> bytes \<Rightarrow> scrubber" where
  "start_scrubber head v types = (new_scrubber False)\<lparr>
     protocol_version := Some (rstrip_newlines (decode_ascii_replace head)), negotiated_version := Some v,
     security_types := map uint types, recording := Some [1, 1], scr_gen := Some AwaitSecType\<rparr>"

lemmas follow = waiting_def waiting_on_def advance_def scrub_defs recorded_def sizes_ok_def idle_def pending_def ver_of_def

lemma start_recorded:
  assumes "length head = 12" "length reply = 12" "client_version reply = Some v" "(3, 8) \<le> v"
    and "types \<noteq> []" "length types < 256"
  shows "capture_run ([(S2C, head), (C2S, reply), (S2C, [of_nat (length types)]), (S2C, types)] @ fs)
      (cap_at (new_scrubber False) [] []) =
    capture_run fs (cap_at (start_scrubber head v types) (head @ [1, 1]) reply)"
proof -
  have n: "uint (of_nat (length types) :: byte) = int (length types)"
    using assms(6) by (simp add: unsigned_of_nat take_bit_nat_eq_self)
  have v: "(3, 7) \<le> v" using assms(4) by (cases v) (auto simp: less_eq_prod_def)
  have "head \<noteq> []" "reply \<noteq> []" using assms(1,2) by auto
  with assms n v show ?thesis
    by (simp add: capture_s2c capture_c2s follow new_scrubber_def split: tap.split)
      (simp add: start_scrubber_def new_scrubber_def)
qed

definition login_scrubber :: "login \<Rightarrow> scrubber \<Rightarrow> scrubber" where
  "login_scrubber l s = s\<lparr>security_type := Some (login_type l), scr_gen := Some AwaitResult,
     recording := (if l = NoAuth then Some [1] else None)\<rparr>"

lemma login_recorded:
  assumes "login_ok l" "(3, 8) \<le> v"
  shows "capture_run (((C2S, [word_of_int (login_type l)]) # login_messages l) @ fs)
      (cap_at (start_scrubber head v types) a b) =
    capture_run fs (cap_at (login_scrubber l (start_scrubber head v types)) a (b @ [1]))"
proof -
  have v: "\<not> v < (3, 8)" using assms(2) by simp
  have len: "length bs = 16 \<Longrightarrow> bs \<noteq> []" "length bs = 128 \<Longrightarrow> bs \<noteq> []" for bs :: bytes by auto
  show ?thesis
  proof (cases l)
    case NoAuth
    with v show ?thesis
      by (simp add: capture_s2c capture_c2s follow start_scrubber_def new_scrubber_def login_scrubber_def split: tap.split)
  next
    case (VncAuth chal resp)
    with v assms(1) len show ?thesis
      by (simp add: capture_s2c capture_c2s follow start_scrubber_def new_scrubber_def login_scrubber_def split: tap.split)
  next
    case (ArdAuth g modl skey cred ckey)
    with assms(1) have k: "modl \<noteq> []" "skey \<noteq> []" "cred \<noteq> []" "ckey \<noteq> []" "length skey = length modl"
      "length ckey = length modl" "length cred = 128" by auto
    have "from_be (to_be 2 (int (length modl))) = int (length modl)"
      using assms(1) ArdAuth by (intro from_to_be) simp_all
    moreover have "to_be 2 g \<noteq> []" by (simp add: numeral_2_eq_2)
    ultimately show ?thesis using ArdAuth k v
      by (simp add: capture_s2c capture_c2s follow start_scrubber_def new_scrubber_def login_scrubber_def
          ARD_CREDENTIALS_LEN_def del: to_be.simps split: tap.split)
  qed
qed

definition init_scrubber :: "bytes \<Rightarrow> scrubber \<Rightarrow> scrubber" where
  "init_scrubber init s = s\<lparr>scr_width := Some (from_be (take 2 init)), scr_height := Some (from_be (take 2 (drop 2 init))),
     scr_gen := None, recording := None\<rparr>"

lemma init_recorded:
  assumes "length init = 24" "from_be (drop 20 init) = int (length name)" "(3, 8) \<le> v"
  shows "capture_run (session_init shrd init name @ fs) (cap_at (login_scrubber l (start_scrubber head v types)) a b) =
    capture_run fs (cap_at (init_scrubber init (login_scrubber l (start_scrubber head v types)))
      (a @ [0, 0, 0, 0] @ init @ name) (b @ [shrd]))"
proof -
  have v: "\<not> v < (3, 8)" "init \<noteq> []" "take 4 (drop 20 init) = drop 20 init" using assms(1,3) by auto
  have "feed_s2c [] c = c" for c by (simp add: feed_s2c_def feed_def)
  with assms v show ?thesis
    by (cases "name = []")
      (simp_all add: capture_s2c capture_c2s follow start_scrubber_def new_scrubber_def login_scrubber_def init_scrubber_def
        session_init_def from_be_def [of "[0, 0, 0, 0]"] split: tap.split)
qed

lemma rest_recorded:
  assumes "scr_gen s = None" "idle s"
  shows "capture_run fs (cap_at s a b) = cap_at s (a @ stream S2C fs) (b @ stream C2S fs)"
proof (induction fs arbitrary: a b)
  case (Cons f fs)
  obtain tap d where f: "f = (tap, d)" by fastforce
  have "held s" using assms(2) by (simp add: held_def idle_def)
  then have "feed tap d s = (d, s)" using assms(1) by (simp add: feed_unwatched waiting_on_def waiting_def)
  with Cons.IH show ?case by (cases tap) (simp_all add: f feed_s2c_def feed_c2s_def cap_at_def stream_def)
qed (simp add: stream_def)

text \<open>A session of protocol 3.8 or later that follows the protocol up to its first message.\<close>

definition session_ok :: "bytes \<Rightarrow> bytes \<Rightarrow> bytes \<Rightarrow> login \<Rightarrow> bytes \<Rightarrow> bytes \<Rightarrow> bool" where
  "session_ok head reply types l init name \<longleftrightarrow> length head = 12 \<and> length reply = 12 \<and>
     (case client_version reply of Some v \<Rightarrow> (3, 8) \<le> v | None \<Rightarrow> False) \<and>
     types \<noteq> [] \<and> length types < 256 \<and> login_ok l \<and>
     length init = 24 \<and> from_be (drop 20 init) = int (length name)"

definition vnc_session :: "bytes \<Rightarrow> bytes \<Rightarrow> bytes \<Rightarrow> login \<Rightarrow> byte \<Rightarrow> bytes \<Rightarrow> bytes \<Rightarrow> (tap \<times> bytes) list" where
  "vnc_session head reply types l shrd init name =
     session_start head reply types l @ login_messages l @ session_init shrd init name"

lemma session_capture:
  assumes "session_ok head reply types l init name"
  shows "\<exists>s. flush_capture (capture_run (vnc_session head reply types l shrd init name @ rest) (new_capture False)) =
      cap_at s (head @ [1, 1] @ [0, 0, 0, 0] @ init @ name @ stream S2C rest) (reply @ [1] @ [shrd] @ stream C2S rest) \<and>
    abort_reason s = None \<and> security_type s = Some (login_type l) \<and> negotiated_version s = client_version reply"
proof -
  from assms obtain v where v: "client_version reply = Some v" "(3, 8) \<le> v"
    by (auto simp: session_ok_def split: option.splits)
  let ?s = "init_scrubber init (login_scrubber l (start_scrubber head v types))"
  have "capture_run (vnc_session head reply types l shrd init name @ rest) (new_capture False) =
      capture_run rest (cap_at ?s (head @ [1, 1] @ [0, 0, 0, 0] @ init @ name) (reply @ [1] @ [shrd]))"
    using start_recorded [of head reply v types "((C2S, [word_of_int (login_type l)]) # login_messages l) @ session_init shrd init name @ rest"]
      login_recorded [of l v "session_init shrd init name @ rest"] init_recorded [of init name v shrd rest] assms v
    by (simp add: vnc_session_def session_start_def session_ok_def new_capture_def cap_at_def [symmetric])
  also have "\<dots> = cap_at ?s (head @ [1, 1] @ [0, 0, 0, 0] @ init @ name @ stream S2C rest) (reply @ [1] @ [shrd] @ stream C2S rest)"
    by (subst rest_recorded) (simp_all add: init_scrubber_def login_scrubber_def start_scrubber_def new_scrubber_def
        idle_def pending_def split: tap.split)
  moreover have "idle ?s" "abort_reason ?s = None" "security_type ?s = Some (login_type l)" "negotiated_version ?s = Some v"
    by (simp_all add: init_scrubber_def login_scrubber_def start_scrubber_def new_scrubber_def idle_def pending_def split: tap.split)
  moreover have "flush_capture (cap_at s a b) = cap_at s a b" if "idle s" for s a b
    using that by (simp add: flush_capture_def flush_def Let_def idle_set_pending cap_at_def) (simp add: idle_def)
  ultimately show ?thesis using v by (intro exI [of _ ?s]) simp
qed

text \<open>The transcript. For a session of protocol 3.8 or later with no, VNC or ARD authentication, the
  archive of a stripping capture holds a session without authentication: the greetings, an offer
  and choice of type None, a successful result, and everything from the initialisation on verbatim,
  in both directions.\<close>

lemma stripped_session_transcript:
  assumes "session_ok head reply types l init name"
  shows "let c = flush_capture (capture_run (vnc_session head reply types l shrd init name @ rest) (new_capture False))
    in cap_s2c c = head @ [1, 1] @ [0, 0, 0, 0] @ init @ name @ stream S2C rest \<and>
       cap_c2s c = reply @ [1] @ [shrd] @ stream C2S rest \<and>
       capture_abort_reason c = None \<and> security_type (cap_scrubber c) = Some (login_type l)"
proof -
  from session_capture [OF assms, of shrd rest] obtain s where
    c: "flush_capture (capture_run (vnc_session head reply types l shrd init name @ rest) (new_capture False)) =
      cap_at s (head @ [1, 1] @ [0, 0, 0, 0] @ init @ name @ stream S2C rest) (reply @ [1] @ [shrd] @ stream C2S rest)"
    and s: "abort_reason s = None" "security_type s = Some (login_type l)" by blast
  from s show ?thesis unfolding c Let_def by (simp add: capture_abort_reason_def cap_at_def)
qed

definition sample_head :: bytes where
  "sample_head = [82, 70, 66, 32, 48, 48, 51, 46, 48, 48, 56, 10]"


section \<open>The recording drives a client\<close>

lemma none_handshake:
  assumes "0 \<le> w" "w < 65536" "0 \<le> h" "h < 65536" "to_bytes pf = Inr pfb" "wire_format pf" "length name < 4294967296"
  shows "\<exists>t. dataReceived env (base_hooks env)
      (format_version (3, 8) @ [1, 1] @ [0, 0, 0, 0] @ encode_server_init w h pfb name @ name)
      (init_client u p shrd xs) = Some (Ret t) \<and>
    trace t = [Write (format_version (3, 8)), Write [1], Write [of_bool shrd], Call VncConnectionMade] \<and>
    fb_width t = w \<and> fb_height t = h \<and> pixel_format t = pf \<and> server_name t = name \<and>
    expected_handler t = Message Connection \<and> packet t = []"
proof -
  let ?B = "base_hooks env" let ?V = "Write (format_version (3, 8))"
  let ?tail = "[0, 0, 0, 0] @ encode_server_init w h pfb name @ name"
  let ?s0 = "(init_client u p shrd xs)\<lparr>top := HandleExpected, rfb_version := (3, 8), version_server := (3, 8),
    already_expecting := True\<rparr>"
  let ?s2 = "arm (Handshake SecurityTypes) 1 (?s0\<lparr>packet := [1] @ ?tail, trace := [?V]\<rparr>)"
  let ?s3 = "arm (Handshake VNCAuthResult) 4 (?s0\<lparr>packet := ?tail, trace := [?V, Write [1]]\<rparr>)"
  have "dataReceived env ?B (format_version (3, 8) @ [1, 1] @ ?tail) (init_client u p shrd xs) = run_loop env ?B ?s2"
    by (subst greeting_3_8, simp, rule run_loop_block [where blk = "[1]"])
      (simp_all add: arm_def init_client_def handleNumberSecurityTypes_def wire)
  also have "\<dots> = run_loop env ?B ?s3"
    by (rule run_loop_block [where blk = "[1]"])
      (simp_all add: arm_def init_client_def handleSecurityTypes_def struct_unpack_def parse_counted_format
        SUPPORTED_AUTHS_def transport_write_def pack_octet log_io_def doClientInitialization_def)
  also have "\<dots> = Some (Ret (initialised w h pf name ?s3))"
    using assms by (intro handshake_completes) (simp_all add: arm_def init_client_def)
  finally show ?thesis
    by (intro exI [of _ "initialised w h pf name ?s3"]) (simp add: initialised_def arm_def init_client_def)
qed



end
