(* ===== verification/Key_Map.thy ===== *)
theory Key_Map
  imports Prelude
begin

text \<open>
  \<open>vncdotool/keys.py\<close>: the \<open>Key\<close> enumeration and \<open>KEYMAP\<close>, and the inverse table the logging
  proxy makes of it. The lemma to know is \<open>reverse_name\<close>: the name the proxy writes for a keysym
  is a name \<open>KEYMAP\<close> maps back to it.
\<close>

text \<open>A Python string by its code points.\<close>

type_synonym unicode = "int list"

definition pts :: "string \<Rightarrow> unicode" where
  "pts s = map of_char s"

definition Key_members :: "(string \<times> int) list" where
  "Key_members = [
    (''BackSpace'', 0xff08), (''Tab'', 0xff09), (''Return'', 0xff0d), (''Escape'', 0xff1b),
    (''Insert'', 0xff63), (''Delete'', 0xffff), (''Home'', 0xff50), (''End'', 0xff57),
    (''PageUp'', 0xff55), (''PageDown'', 0xff56), (''Left'', 0xff51), (''Up'', 0xff52),
    (''Right'', 0xff53), (''Down'', 0xff54), (''F1'', 0xffbe), (''F2'', 0xffbf),
    (''F3'', 0xffc0), (''F4'', 0xffc1), (''F5'', 0xffc2), (''F6'', 0xffc3), (''F7'', 0xffc4),
    (''F8'', 0xffc5), (''F9'', 0xffc6), (''F10'', 0xffc7), (''F11'', 0xffc8), (''F12'', 0xffc9),
    (''F13'', 0xffca), (''F14'', 0xffcb), (''F15'', 0xffcc), (''F16'', 0xffcd),
    (''F17'', 0xffce), (''F18'', 0xffcf), (''F19'', 0xffd0), (''F20'', 0xffd1),
    (''ShiftLeft'', 0xffe1), (''ShiftRight'', 0xffe2), (''ControlLeft'', 0xffe3),
    (''ControlRight'', 0xffe4), (''MetaLeft'', 0xffe7), (''MetaRight'', 0xffe8),
    (''AltLeft'', 0xffe9), (''AltRight'', 0xffea), (''Scroll_Lock'', 0xff14),
    (''Sys_Req'', 0xff15), (''Num_Lock'', 0xff7f), (''Caps_Lock'', 0xffe5), (''Pause'', 0xff13),
    (''Super_L'', 0xffeb), (''Super_R'', 0xffec), (''Hyper_L'', 0xffed), (''Hyper_R'', 0xffee),
    (''KP_0'', 0xffb0), (''KP_1'', 0xffb1), (''KP_2'', 0xffb2), (''KP_3'', 0xffb3),
    (''KP_4'', 0xffb4), (''KP_5'', 0xffb5), (''KP_6'', 0xffb6), (''KP_7'', 0xffb7),
    (''KP_8'', 0xffb8), (''KP_9'', 0xffb9), (''KP_Enter'', 0xff8d), (''ForwardSlash'', 0x2f),
    (''BackSlash'', 0x5c), (''SpaceBar'', 0x20)]"

definition Key_value :: "string \<Rightarrow> int" where
  "Key_value name = the (map_of Key_members name)"

definition KEYMAP :: "(string \<times> int) list" where
  "KEYMAP = [
    (''bsp'', Key_value ''BackSpace''), (''tab'', Key_value ''Tab''),
    (''return'', Key_value ''Return''), (''enter'', Key_value ''Return''),
    (''esc'', Key_value ''Escape''), (''ins'', Key_value ''Insert''),
    (''delete'', Key_value ''Delete''), (''del'', Key_value ''Delete''),
    (''home'', Key_value ''Home''), (''end'', Key_value ''End''),
    (''pgup'', Key_value ''PageUp''), (''pgdn'', Key_value ''PageDown''),
    (''left'', Key_value ''Left''), (''up'', Key_value ''Up''),
    (''right'', Key_value ''Right''), (''down'', Key_value ''Down''),
    (''slash'', Key_value ''BackSlash''), (''bslash'', Key_value ''BackSlash''),
    (''fslash'', Key_value ''ForwardSlash''), (''spacebar'', Key_value ''SpaceBar''),
    (''space'', Key_value ''SpaceBar''), (''sb'', Key_value ''SpaceBar''),
    (''f1'', Key_value ''F1''), (''f2'', Key_value ''F2''), (''f3'', Key_value ''F3''),
    (''f4'', Key_value ''F4''), (''f5'', Key_value ''F5''), (''f6'', Key_value ''F6''),
    (''f7'', Key_value ''F7''), (''f8'', Key_value ''F8''), (''f9'', Key_value ''F9''),
    (''f10'', Key_value ''F10''), (''f11'', Key_value ''F11''), (''f12'', Key_value ''F12''),
    (''f13'', Key_value ''F13''), (''f14'', Key_value ''F14''), (''f15'', Key_value ''F15''),
    (''f16'', Key_value ''F16''), (''f17'', Key_value ''F17''), (''f18'', Key_value ''F18''),
    (''f19'', Key_value ''F19''), (''f20'', Key_value ''F20''),
    (''lshift'', Key_value ''ShiftLeft''), (''shift'', Key_value ''ShiftLeft''),
    (''rshift'', Key_value ''ShiftRight''), (''lctrl'', Key_value ''ControlLeft''),
    (''ctrl'', Key_value ''ControlLeft''), (''rctrl'', Key_value ''ControlRight''),
    (''lmeta'', Key_value ''MetaLeft''), (''meta'', Key_value ''MetaLeft''),
    (''rmeta'', Key_value ''MetaRight''), (''lalt'', Key_value ''AltLeft''),
    (''alt'', Key_value ''AltLeft''), (''ralt'', Key_value ''AltRight''),
    (''scrlk'', Key_value ''Scroll_Lock''), (''sysrq'', Key_value ''Sys_Req''),
    (''numlk'', Key_value ''Num_Lock''), (''caplk'', Key_value ''Caps_Lock''),
    (''pause'', Key_value ''Pause''), (''lsuper'', Key_value ''Super_L''),
    (''super'', Key_value ''Super_L''), (''rsuper'', Key_value ''Super_R''),
    (''lhyper'', Key_value ''Hyper_L''), (''hyper'', Key_value ''Hyper_L''),
    (''rhyper'', Key_value ''Hyper_R''), (''kp0'', Key_value ''KP_0''),
    (''kp1'', Key_value ''KP_1''), (''kp2'', Key_value ''KP_2''), (''kp3'', Key_value ''KP_3''),
    (''kp4'', Key_value ''KP_4''), (''kp5'', Key_value ''KP_5''), (''kp6'', Key_value ''KP_6''),
    (''kp7'', Key_value ''KP_7''), (''kp8'', Key_value ''KP_8''), (''kp9'', Key_value ''KP_9''),
    (''kpenter'', Key_value ''KP_Enter''), (''minus'', 45)]"

text \<open>\<open>KEYMAP.get(k)\<close> on a string given by its code points.\<close>

definition keymap_get :: "unicode \<Rightarrow> int option" where
  "keymap_get k = map_of (map (\<lambda>(n, v). (pts n, v)) KEYMAP) k"

text \<open>\<open>REVERSE_MAP = {v: n for (n, v) in KEYMAP.items()}\<close>: the last name of a keysym stays.\<close>

definition REVERSE_MAP :: "(int \<times> string) list" where
  "REVERSE_MAP = rev (map (\<lambda>(n, v). (v, n)) KEYMAP)"

definition reverse_get :: "int \<Rightarrow> string option" where
  "reverse_get v = map_of REVERSE_MAP v"

lemma keymap_names:
  "list_all (\<lambda>(v, n). keymap_get (pts n) = Some v \<and> v \<noteq> 0 \<and> 1 < length n \<and>
     list_all (\<lambda>c. 97 \<le> c \<and> c \<le> 122 \<or> 48 \<le> c \<and> c \<le> 57) (pts n)) REVERSE_MAP"
  by code_simp

lemma reverse_name:
  assumes "reverse_get v = Some n"
  shows "keymap_get (pts n) = Some v" "v \<noteq> 0" "1 < length n"
    "\<And>c. c \<in> set (pts n) \<Longrightarrow> 97 \<le> c \<and> c \<le> 122 \<or> 48 \<le> c \<and> c \<le> 57"
  using keymap_names map_of_SomeD [OF assms [unfolded reverse_get_def]] by (auto simp: list_all_iff)

lemma keymap_long: "list_all (\<lambda>(n, v). 1 < length n) KEYMAP"
  by code_simp

lemma keymap_get_char: "keymap_get [c] = None"
proof -
  have "[c] \<notin> fst ` set (map (\<lambda>(n, v). (pts n, v)) KEYMAP)"
    using keymap_long by (fastforce simp: list_all_iff pts_def)
  then show ?thesis by (simp add: keymap_get_def map_of_eq_None_iff)
qed

end
