(* ===== verification/Vnc_Client.thy ===== *)
theory Vnc_Client
  imports Rfb_Messages Key_Map
begin

text \<open>
  \<open>client.VNCDoToolClient\<close>: the keyboard and mouse methods. The fields the subclass adds are the
  extension of the client record; the factory's \<open>force_caps\<close> is one of them.

  The lemmas show which key and pointer events reach the server: chords are pressed in order and
  released in reverse, and a button is down in the mask exactly between its press and its release.
\<close>

section \<open>State\<close>

record vnc_client = rfb_client +
  cl_x :: int
  cl_y :: int
  cl_buttons :: int
  cl_force_caps :: bool

definition new_vnc_client :: "string option \<Rightarrow> string option \<Rightarrow> bool \<Rightarrow> vnc_client" where
  "new_vnc_client uname passwd caps =
     init_client uname passwd True \<lparr>cl_x = 0, cl_y = 0, cl_buttons = 0, cl_force_caps = caps\<rparr>"

definition SPECIAL_KEYS_US :: unicode where
  "SPECIAL_KEYS_US = map of_char ''~!@#$%^&*()_+{}|:'' @ [34] @ map of_char ''<>?''"

section \<open>Keys\<close>

text \<open>\<open>str.isupper\<close>, with the cased letters of Latin-1; other code points count as uncased.\<close>

definition is_upper_char :: "int \<Rightarrow> bool" where
  "is_upper_char c \<longleftrightarrow> (65 \<le> c \<and> c \<le> 90) \<or> (192 \<le> c \<and> c \<le> 222 \<and> c \<noteq> 215)"

definition is_lower_char :: "int \<Rightarrow> bool" where
  "is_lower_char c \<longleftrightarrow> (97 \<le> c \<and> c \<le> 122) \<or> (223 \<le> c \<and> c \<le> 255 \<and> c \<noteq> 247) \<or> c = 170 \<or> c = 186 \<or> c = 181"

definition py_isupper :: "unicode \<Rightarrow> bool" where
  "py_isupper s \<longleftrightarrow> list_ex is_upper_char s \<and> \<not> list_ex is_lower_char s"

text \<open>\<open>sub in s\<close> for strings.\<close>

fun is_substring :: "'a list \<Rightarrow> 'a list \<Rightarrow> bool" where
  "is_substring sub [] = (sub = [])"
| "is_substring sub (c # cs) = (take (length sub) (c # cs) = sub \<or> is_substring sub cs)"

text \<open>\<open>KEYMAP.get(k) or ord(k)\<close>.\<close>

definition key_code :: "unicode \<Rightarrow> exn + int" where
  "key_code k =
     (case keymap_get k of
        Some v \<Rightarrow> if v \<noteq> 0 then Inr v else (case k of [c] \<Rightarrow> Inr c | _ \<Rightarrow> Inl TypeError)
      | None \<Rightarrow> (case k of [c] \<Rightarrow> Inr c | _ \<Rightarrow> Inl TypeError))"

fun key_codes :: "unicode list \<Rightarrow> exn + int list" where
  "key_codes [] = Inr []"
| "key_codes (k # ks) = bind_sum (key_code k) (\<lambda>c. bind_sum (key_codes ks) (\<lambda>cs. Inr (c # cs)))"

definition decodeKey :: "bool \<Rightarrow> unicode \<Rightarrow> exn + int list" where
  "decodeKey force_caps key =
     bind_sum
       (if force_caps \<and> (py_isupper key \<or> is_substring key SPECIAL_KEYS_US)
        then (case key of [c] \<Rightarrow> Inr (pts ''shift-'' @ [c]) | _ \<Rightarrow> Inl TypeError)
        else Inr key)
       (\<lambda>key. key_codes (if length key = 1 then [key] else split_on 45 key))"

fun key_events :: "bool \<Rightarrow> int list \<Rightarrow> 'a client \<Rightarrow> 'a client outcome" where
  "key_events down [] s = Ret s"
| "key_events down (k # ks) s = and_then (keyEvent k down s) (key_events down ks)"

type_synonym 'a vclient = "'a vnc_client_scheme"

definition keyDown :: "unicode \<Rightarrow> 'a vclient \<Rightarrow> 'a vclient outcome" where
  "keyDown key s = with_value (decodeKey (cl_force_caps s) key) s (\<lambda>keys. key_events True keys s)"

definition keyUp :: "unicode \<Rightarrow> 'a vclient \<Rightarrow> 'a vclient outcome" where
  "keyUp key s = with_value (decodeKey (cl_force_caps s) key) s (\<lambda>keys. key_events False keys s)"

definition keyPress :: "unicode \<Rightarrow> 'a vclient \<Rightarrow> 'a vclient outcome" where
  "keyPress key s = with_value (decodeKey (cl_force_caps s) key) s (\<lambda>keys.
     and_then (key_events True keys s) (key_events False (rev keys)))"

section \<open>Mouse\<close>

text \<open>\<open>1 << (button - 1)\<close>: a negative shift count is a \<open>ValueError\<close>.\<close>

definition button_bit :: "int \<Rightarrow> exn + int" where
  "button_bit button = (if button < 1 then Inl ValueError else Inr (push_bit (nat (button - 1)) 1))"

definition mouseDown :: "int \<Rightarrow> 'a vclient \<Rightarrow> 'a vclient outcome" where
  "mouseDown button s = with_value (button_bit button) s (\<lambda>b.
     let s = s\<lparr>cl_buttons := or (cl_buttons s) b\<rparr> in pointerEvent (cl_x s) (cl_y s) (cl_buttons s) s)"

definition mouseUp :: "int \<Rightarrow> 'a vclient \<Rightarrow> 'a vclient outcome" where
  "mouseUp button s = with_value (button_bit button) s (\<lambda>b.
     let s = s\<lparr>cl_buttons := and (cl_buttons s) (not b)\<rparr> in pointerEvent (cl_x s) (cl_y s) (cl_buttons s) s)"

definition mousePress :: "int \<Rightarrow> 'a vclient \<Rightarrow> 'a vclient outcome" where
  "mousePress button s = and_then (mouseDown button s) (mouseUp button)"

definition mouseMove :: "int \<Rightarrow> int \<Rightarrow> 'a vclient \<Rightarrow> 'a vclient outcome" where
  "mouseMove x y s = (let s = s\<lparr>cl_x := x, cl_y := y\<rparr> in pointerEvent x y (cl_buttons s) s)"

text \<open>\<open>mouseDrag\<close>: the positions it moves through, in steps of \<open>step\<close> along the longer side, with a
  pause of 0.2 s after each; \<open>range\<close> raises for a step of 0 and is empty for a negative one.\<close>

definition drag_steps :: "int \<Rightarrow> int \<Rightarrow> exn + int list" where
  "drag_steps dmax step =
     (if step = 0 then Inl ValueError
      else if step < 0 \<or> dmax \<le> 0 then Inr []
      else Inr (map (\<lambda>i. int i * step) [0 ..< nat ((dmax + step - 1) div step)]))"

definition drag_points :: "int \<Rightarrow> int \<Rightarrow> int \<Rightarrow> int \<Rightarrow> int \<Rightarrow> exn + (int \<times> int) list" where
  "drag_points ox oy x y step =
     (let dx = x - ox; dy = y - oy; dmax = max \<bar>dx\<bar> \<bar>dy\<bar> in
      bind_sum (drag_steps dmax step) (\<lambda>ss. Inr (map (\<lambda>s. (ox + dx * s div dmax, oy + dy * s div dmax)) ss)))"

fun move_through :: "(int \<times> int) list \<Rightarrow> 'a vclient \<Rightarrow> 'a vclient outcome" where
  "move_through [] s = Ret s"
| "move_through ((x, y) # ps) s = and_then (mouseMove x y s) (move_through ps)"

definition mouseDrag :: "int \<Rightarrow> int \<Rightarrow> int \<Rightarrow> 'a vclient \<Rightarrow> 'a vclient outcome" where
  "mouseDrag x y step s =
     with_value (drag_points (cl_x s) (cl_y s) x y step) s (\<lambda>ps.
       and_then (move_through ps s) (mouseMove x y))"

definition paste :: "unicode \<Rightarrow> 'a vclient \<Rightarrow> 'a vclient outcome" where
  "paste msg s = clientCutText msg s"

section \<open>Chords\<close>

abbreviation key_writes :: "bool \<Rightarrow> int list \<Rightarrow> io list" where
  "key_writes down ks \<equiv> map (\<lambda>k. Write (msg_bytes (MsgKey down k))) ks"

lemma key_events_writes:
  "list_all u32 ks \<Longrightarrow> key_events down ks s = Ret (s\<lparr>trace := trace s @ key_writes down ks\<rparr>)"
proof (induction ks arbitrary: s)
  case (Cons k ks)
  then show ?case by (simp add: message_writes log_io_def)
qed simp

text \<open>A chord presses its keys in the order they are named and releases them in the reverse
  order, so that modifiers enclose the keys they modify; pressing or releasing alone sends the
  keys in the order they are named.\<close>

lemma key_chord:
  assumes "decodeKey (cl_force_caps s) key = Inr ks" "list_all u32 ks"
  shows "keyPress key s = Ret (s\<lparr>trace := trace s @ key_writes True ks @ key_writes False (rev ks)\<rparr>) \<and>
    keyDown key s = Ret (s\<lparr>trace := trace s @ key_writes True ks\<rparr>) \<and>
    keyUp key s = Ret (s\<lparr>trace := trace s @ key_writes False ks\<rparr>)"
proof -
  have "list_all u32 (rev ks)" using assms(2) by (simp add: list_all_iff)
  with assms show ?thesis by (simp add: keyPress_def keyDown_def keyUp_def key_events_writes)
qed

lemma ctrl_alt_del: "decodeKey False (pts ''ctrl-alt-del'') = Inr [0xFFE3, 0xFFE9, 0xFFFF]"
  by code_simp


section \<open>Buttons\<close>

text \<open>The mouse as a user thinks of it: a position and the set of buttons held down.\<close>

datatype mouse_op = Press int | Release int | Click int | Move int int

fun op_ok :: "mouse_op \<Rightarrow> bool" where
  "op_ok (Press b) = (1 \<le> b \<and> b \<le> 8)"
| "op_ok (Release b) = (1 \<le> b \<and> b \<le> 8)"
| "op_ok (Click b) = (1 \<le> b \<and> b \<le> 8)"
| "op_ok (Move x y) = (u16 x \<and> u16 y)"

fun held_after :: "mouse_op \<Rightarrow> int set \<Rightarrow> int set" where
  "held_after (Press b) B = insert b B"
| "held_after (Release b) B = B - {b}"
| "held_after (Click b) B = B - {b}"
| "held_after (Move x y) B = B"

fun position_after :: "mouse_op \<Rightarrow> int \<times> int \<Rightarrow> int \<times> int" where
  "position_after (Move x y) p = (x, y)"
| "position_after _ p = p"

fun do_mouse :: "mouse_op \<Rightarrow> 'a vclient \<Rightarrow> 'a vclient outcome" where
  "do_mouse (Press b) s = mouseDown b s"
| "do_mouse (Release b) s = mouseUp b s"
| "do_mouse (Click b) s = mousePress b s"
| "do_mouse (Move x y) s = mouseMove x y s"

fun do_mouse_all :: "mouse_op list \<Rightarrow> 'a vclient \<Rightarrow> 'a vclient outcome" where
  "do_mouse_all [] s = Ret s"
| "do_mouse_all (a # as) s = and_then (do_mouse a s) (do_mouse_all as)"

definition held_buttons :: "'a vclient \<Rightarrow> int set" where
  "held_buttons s = {b. 1 \<le> b \<and> bit (cl_buttons s) (nat (b - 1))}"

definition mouse_ok :: "'a vclient \<Rightarrow> bool" where
  "mouse_ok s \<longleftrightarrow> u8 (cl_buttons s) \<and> u16 (cl_x s) \<and> u16 (cl_y s)"

definition mouse_state :: "'a vclient \<Rightarrow> (int \<times> int) \<times> int set" where
  "mouse_state s = ((cl_x s, cl_y s), held_buttons s)"

lemma button_bit_range: "1 \<le> b \<Longrightarrow> b \<le> 8 \<Longrightarrow> u8 (push_bit (nat (b - 1)) 1)"
proof -
  assume b: "1 \<le> b" "b \<le> 8"
  have "(2 :: int) ^ nat (b - 1) \<le> 2 ^ 7" using b by (intro power_increasing) auto
  then show ?thesis by (simp add: push_bit_eq_mult)
qed

lemma nat_pred_eq: "1 \<le> b \<Longrightarrow> 1 \<le> c \<Longrightarrow> nat (c - 1) = nat (b - 1) \<longleftrightarrow> c = (b :: int)"
  by auto

lemma mouse_bits:
  fixes n :: int
  assumes "1 \<le> b"
  shows "{c. 1 \<le> c \<and> bit (or n (push_bit (nat (b - 1)) 1)) (nat (c - 1))} = insert b {c. 1 \<le> c \<and> bit n (nat (c - 1))}"
    "{c. 1 \<le> c \<and> bit (and n (not (push_bit (nat (b - 1)) 1))) (nat (c - 1))} = {c. 1 \<le> c \<and> bit n (nat (c - 1))} - {b}"
  using assms nat_pred_eq [OF assms] by (auto simp: bit_or_iff bit_and_iff bit_not_iff bit_exp_iff)

lemma pointer_sent:
  assumes "mouse_ok s"
  shows "pointerEvent (cl_x s) (cl_y s) (cl_buttons s) s =
    Ret (s\<lparr>trace := trace s @ [Write (msg_bytes (MsgPointer (cl_buttons s) (cl_x s) (cl_y s)))]\<rparr>)"
  using assms by (simp add: message_writes mouse_ok_def log_io_def)

lemma press_release:
  assumes "mouse_ok s" "1 \<le> b" "b \<le> 8"
  shows "\<exists>t. mouseDown b s = Ret t \<and> mouse_ok t \<and> mouse_state t = ((cl_x s, cl_y s), insert b (held_buttons s))"
    and "\<exists>t. mouseUp b s = Ret t \<and> mouse_ok t \<and> mouse_state t = ((cl_x s, cl_y s), held_buttons s - {b})"
proof -
  let ?d = "s\<lparr>cl_buttons := or (cl_buttons s) (push_bit (nat (b - 1)) 1)\<rparr>"
  let ?u = "s\<lparr>cl_buttons := and (cl_buttons s) (not (push_bit (nat (b - 1)) 1))\<rparr>"
  have bb: "button_bit b = Inr (push_bit (nat (b - 1)) 1)" using assms(2) by (simp add: button_bit_def)
  have "or (cl_buttons s) (push_bit (nat (b - 1)) 1) < 2 ^ 8"
    using assms button_bit_range [OF assms(2,3)] by (intro OR_upper) (simp_all add: mouse_ok_def)
  then have d: "mouse_ok ?d" using assms(1) by (simp add: mouse_ok_def)
  have "and (cl_buttons s) (not (push_bit (nat (b - 1)) 1)) \<le> cl_buttons s"
    using assms(1) by (intro AND_upper1) (simp add: mouse_ok_def)
  then have u: "mouse_ok ?u" using assms(1) by (auto simp: mouse_ok_def)
  note bits = mouse_bits [OF assms(2), of "cl_buttons s"]
  show "\<exists>t. mouseDown b s = Ret t \<and> mouse_ok t \<and> mouse_state t = ((cl_x s, cl_y s), insert b (held_buttons s))"
    using pointer_sent [OF d] d bits(1) by (simp add: mouseDown_def bb Let_def mouse_state_def held_buttons_def mouse_ok_def)
  show "\<exists>t. mouseUp b s = Ret t \<and> mouse_ok t \<and> mouse_state t = ((cl_x s, cl_y s), held_buttons s - {b})"
    using pointer_sent [OF u] u bits(2) by (simp add: mouseUp_def bb Let_def mouse_state_def held_buttons_def mouse_ok_def)
qed

lemma do_mouse_refines:
  assumes "mouse_ok s" "op_ok a"
  shows "\<exists>t. do_mouse a s = Ret t \<and> mouse_ok t \<and>
    mouse_state t = (position_after a (cl_x s, cl_y s), held_after a (held_buttons s))"
proof (cases a)
  case (Click b)
  with assms press_release(1) [of s b] obtain t where t: "mouseDown b s = Ret t" "mouse_ok t"
    "mouse_state t = ((cl_x s, cl_y s), insert b (held_buttons s))" by auto
  with Click assms press_release(2) [of t b] show ?thesis by (auto simp: mousePress_def mouse_state_def)
next
  case (Move x y)
  let ?m = "s\<lparr>cl_x := x, cl_y := y\<rparr>"
  have "mouse_ok ?m" using assms Move by (simp add: mouse_ok_def)
  with pointer_sent [OF this] Move show ?thesis
    by (simp add: mouseMove_def Let_def mouse_ok_def mouse_state_def held_buttons_def)
qed (use assms press_release [of s] in auto)



section \<open>Dragging\<close>

definition near :: "int \<Rightarrow> int \<times> int \<Rightarrow> int \<times> int \<Rightarrow> bool" where
  "near k p q \<longleftrightarrow> \<bar>fst q - fst p\<bar> \<le> k \<and> \<bar>snd q - snd p\<bar> \<le> k"

definition between :: "int \<Rightarrow> int \<Rightarrow> int \<Rightarrow> bool" where
  "between a b v \<longleftrightarrow> min a b \<le> v \<and> v \<le> max a b"

lemma share_between:
  assumes "0 \<le> s" "s \<le> d" "0 < (d :: int)"
  shows "between o' (o' + v) (o' + v * s div d)"
proof (cases "0 \<le> v")
  case True
  have "v * s div d \<le> v * d div d" using True assms by (intro zdiv_mono1 mult_left_mono) auto
  with True assms show ?thesis by (simp add: between_def pos_imp_zdiv_nonneg_iff)
next
  case False
  have "v * d div d \<le> v * s div d" using False assms by (intro zdiv_mono1 mult_left_mono_neg) auto
  moreover have "v * s div d \<le> 0"
    using False assms by (metis div_0 linorder_linear mult_nonpos_nonneg zdiv_mono1)
  ultimately show ?thesis using False assms by (simp add: between_def)
qed

lemma share_step:
  assumes "\<bar>v\<bar> \<le> d" "0 \<le> k" "0 < (d :: int)"
  shows "\<bar>v * (s + k) div d - v * s div d\<bar> \<le> k"
proof -
  have b: "v * k \<le> d * k" "- (d * k) \<le> v * k" using assms by (auto intro: mult_right_mono mult_right_mono [of "- d" v k, simplified])
  have "v * (s + k) \<le> v * s + k * d" "v * s + - k * d \<le> v * (s + k)"
    using b by (simp_all add: algebra_simps)
  from this [THEN zdiv_mono1, OF assms(3)]
  have "v * (s + k) div d \<le> (v * s + k * d) div d" "(v * s + - k * d) div d \<le> v * (s + k) div d" .
  moreover have "(v * s + k * d) div d = k + v * s div d" "(v * s + - k * d) div d = - k + v * s div d"
    using div_mult_self1 [of d "v * s" k] div_mult_self1 [of d "v * s" "- k"] assms(3) by simp_all
  ultimately show ?thesis by linarith
qed

lemma successively_map_upt:
  "(\<And>i. Suc i < n \<Longrightarrow> P (f i) (f (Suc i))) \<Longrightarrow> successively P (map f [0 ..< n])"
proof (induction n)
  case (Suc n)
  then show ?case by (cases n) (simp_all add: successively_append_iff)
qed simp

lemma successively_enclose:
  assumes "ps \<noteq> []" "successively P ps" "P a (hd ps)" "P (last ps) b"
  shows "successively P (a # ps @ [b])"
  using assms by (auto simp: successively_append_iff successively_Cons)

lemma ceiling_steps:
  assumes "0 < step" "0 < (d :: int)" "n = nat ((d + step - 1) div step)"
  shows "0 < n" "int (n - 1) * step < d" "d \<le> int n * step"
proof -
  have "0 < (d + step - 1) div step" using assms by (simp add: pos_imp_zdiv_pos_iff)
  then have n: "0 < n" "int n = (d + step - 1) div step" using assms(3) by simp_all
  have "int n * step \<le> d + step - 1" "d + step - 1 < int n * step + step"
    unfolding n(2) using assms div_mult_mod_eq [of "d + step - 1" step] pos_mod_bound [of step "d + step - 1"]
      pos_mod_sign [of step "d + step - 1"] by linarith+
  with n(1) show "0 < n" "int (n - 1) * step < d" "d \<le> int n * step" by (simp_all add: of_nat_diff algebra_simps)
qed

text \<open>Dragging moves the pointer along the line: from the old position to the target no coordinate
  jumps by more than the step, and no point leaves the rectangle they span.\<close>

lemma drag_follows_line:
  assumes "1 \<le> step"
  shows "\<exists>ps. drag_points ox oy x y step = Inr ps \<and> successively (near step) ((ox, oy) # ps @ [(x, y)]) \<and>
    list_all (\<lambda>(a, b). between ox x a \<and> between oy y b) ps"
proof -
  define dx dy d where "dx = x - ox" and "dy = y - oy" and "d = max \<bar>x - ox\<bar> \<bar>y - oy\<bar>"
  define point where "point s = (ox + dx * s div d, oy + dy * s div d)" for s
  define n where "n = nat ((d + step - 1) div step)"
  show ?thesis
  proof (cases "d = 0")
    case True
    then have "x = ox" "y = oy" by (auto simp: d_def)
    then show ?thesis using assms by (simp add: drag_points_def drag_steps_def near_def Let_def)
  next
    case False
    then have d: "0 < d" "\<bar>dx\<bar> \<le> d" "\<bar>dy\<bar> \<le> d" by (auto simp: d_def dx_def dy_def)
    let ?ps = "map (\<lambda>i. point (int i * step)) [0 ..< n]"
    have ps: "drag_points ox oy x y step = Inr ?ps"
      using assms d(1) unfolding drag_points_def Let_def d_def [symmetric]
      by (simp add: drag_steps_def point_def n_def dx_def dy_def)
    have "0 < step" using assms by simp
    note n = ceiling_steps [OF this d(1) n_def]
    have near: "near step (point s) (point (s + k))" if "0 \<le> k" "k \<le> step" for s k
      using share_step [OF d(2) that(1) d(1), of s] share_step [OF d(3) that(1) d(1), of s] that(2)
      by (auto simp: near_def point_def)
    have "near step (point (int i * step)) (point (int (Suc i) * step))" for i
      using near [of step "int i * step"] assms by (simp add: algebra_simps)
    then have "successively (near step) ?ps" by (intro successively_map_upt)
    moreover have "hd ?ps = (ox, oy)" "last ?ps = point (int (n - 1) * step)" "point d = (x, y)"
      using n(1) d(1) by (simp_all add: hd_map last_map point_def dx_def dy_def)
    moreover have "near step (point (int (n - 1) * step)) (point d)"
      using near [of "d - int (n - 1) * step" "int (n - 1) * step"] n by (simp add: of_nat_diff algebra_simps)
    ultimately have "successively (near step) ((ox, oy) # ?ps @ [(x, y)])"
      using n(1) assms by (intro successively_enclose) (simp_all add: near_def)
    moreover have "between ox x (fst (point (int i * step))) \<and> between oy y (snd (point (int i * step)))" if "i < n" for i
    proof -
      have "int i * step \<le> int (n - 1) * step" using that assms by (intro mult_right_mono) auto
      also note n(2)
      finally have "int i * step \<le> d" by simp
      moreover have "0 \<le> int i * step" using assms by simp
      ultimately have "0 \<le> int i * step" "int i * step \<le> d" by simp_all
      with share_between [OF this d(1), of ox dx] share_between [OF this d(1), of oy dy] show ?thesis
        by (simp add: point_def dx_def dy_def)
    qed
    ultimately show ?thesis using ps by (auto simp: list_all_iff case_prod_beta)
  qed
qed


end
