(* ===== verification/Log_Server.thy ===== *)
theory Log_Server
  imports Rfb_Messages
begin

text \<open>
  \<open>loggingproxy.RFBServer\<close>: the parser of the client's side of a proxied session. A method a
  subclass may override (\<open>handle_keyEvent\<close> and the others) is an event given to a hook function; the
  subclass's own state is the record's extension. \<open>dataReceived\<close> is a partial function, because its
  loop does not end on every input.

  \<open>server_hooks\<close> is what the parser relies on from the overriding methods. The lemmas show that
  whole messages are decoded to exactly what the client sent, and what becomes of a message that
  arrives in pieces and of the clipboard message.
\<close>

section \<open>State\<close>

datatype srv_handler = HVersion | HSecurity | HVNCAuthResponse | HClientInit | HProtocol | HQemuExtendedKey

datatype srv_event =
    OnPixelFormat PixelFormat
  | OnEncodings "int list"
  | OnFramebufferUpdate int int int int int
  | OnKeyEvent int int
  | OnPointerEvent int int int
  | OnCutText bytes
  | OnKeyExtended int int int
  | OnClientInit int
  | OnLoseConnection

record log_server =
  ls_buffer :: bytes
  ls_handler :: srv_handler
  ls_need :: int
  ls_password_required :: bool
  ls_events :: "srv_event list"

type_synonym 'a server = "'a log_server_scheme"
type_synonym 'a server_hook = "srv_event \<Rightarrow> 'a log_server_scheme \<Rightarrow> 'a log_server_scheme outcome"

definition new_server :: "bool \<Rightarrow> 'a \<Rightarrow> 'a server" where
  "new_server pw ext = \<lparr>ls_buffer = [], ls_handler = HVersion, ls_need = 12, ls_password_required = pw,
     ls_events = [], \<dots> = ext\<rparr>"

text \<open>\<open>TYPE_LEN.get(ptype, 0)\<close>.\<close>

definition TYPE_LEN :: "(int \<times> int) list" where
  "TYPE_LEN = [(C2S_SET_PIXEL_FORMAT, 20), (C2S_SET_ENCODING, 4), (C2S_FRAMEBUFFER_UPDATE_REQUEST, 10),
     (C2S_KEY_EVENT, 8), (C2S_POINTER_EVENT, 6), (C2S_QEMU_CLIENT_MESSAGE, 1)]"

definition type_len :: "int \<Rightarrow> int" where
  "type_len t = (case map_of TYPE_LEN t of Some n \<Rightarrow> n | None \<Rightarrow> 0)"

definition srv_call :: "'a server_hook \<Rightarrow> srv_event \<Rightarrow> 'a server \<Rightarrow> 'a server outcome" where
  "srv_call K e s = K e (s\<lparr>ls_events := ls_events s @ [e]\<rparr>)"

definition await :: "srv_handler \<Rightarrow> int \<Rightarrow> 'a server \<Rightarrow> 'a server" where
  "await h n s = s\<lparr>ls_handler := h, ls_need := n\<rparr>"

section \<open>Handlers\<close>

definition ascii_bytes :: "string \<Rightarrow> bytes" where
  "ascii_bytes s = map of_char s"

definition srv_version :: "'a server_hook \<Rightarrow> 'a server \<Rightarrow> 'a server outcome" where
  "srv_version K s =
     (let msg = take 12 (ls_buffer s);
          s = s\<lparr>ls_buffer := drop 12 (ls_buffer s)\<rparr>
      in and_then
           (if \<not> take 8 msg = ascii_bytes ''RFB 003.'' \<and> (msg \<noteq> [] \<and> last msg = 10)
            then srv_call K OnLoseConnection s else Ret s)
           (\<lambda>s.
             let version = py_slice 8 11 msg in
             Ret (if version = ascii_bytes ''003'' \<or> version = ascii_bytes ''005'' then
                    if ls_password_required s then await HVNCAuthResponse 16 s else await HClientInit 1 s
                  else if version = ascii_bytes ''007'' \<or> version = ascii_bytes ''008'' then await HSecurity 1 s
                  else s)))"

definition srv_security :: "'a server \<Rightarrow> 'a server outcome" where
  "srv_security s =
     with_value (py_index (ls_buffer s) 0) s (\<lambda>b.
       let s = s\<lparr>ls_buffer := drop 1 (ls_buffer s)\<rparr> in
       Ret (if uint b = AUTH_VNC_AUTHENTICATION then await HVNCAuthResponse 16 s else await HClientInit 1 s))"

definition srv_VNCAuthResponse :: "'a server \<Rightarrow> 'a server outcome" where
  "srv_VNCAuthResponse s = Ret (await HClientInit 1 (s\<lparr>ls_buffer := drop 16 (ls_buffer s)\<rparr>))"

text \<open>A subclass extends \<open>_handle_clientInit\<close>: the event comes after the base method's work.\<close>

definition srv_clientInit :: "'a server_hook \<Rightarrow> 'a server \<Rightarrow> 'a server outcome" where
  "srv_clientInit K s =
     with_value (py_index (ls_buffer s) 0) s (\<lambda>shrd.
       srv_call K (OnClientInit (uint shrd)) (await HProtocol 1 (s\<lparr>ls_buffer := drop 1 (ls_buffer s)\<rparr>)))"

text \<open>The branches of \<open>_handle_protocol\<close>, on the block after the type octet.\<close>

definition srv_setEncodings :: "'a server_hook \<Rightarrow> bytes \<Rightarrow> 'a server \<Rightarrow> 'a server outcome" where
  "srv_setEncodings K block s =
     with_value (unpack1 ''!xH'' block) s (\<lambda>nencodings.
       with_value (struct_unpack_from (CHR ''!'' # replicate (nat nencodings) (CHR ''I'')) (ls_buffer s)) s
         (\<lambda>encodings. srv_call K (OnEncodings (map pint encodings))
            (s\<lparr>ls_buffer := drop (nat (4 * nencodings)) (ls_buffer s)\<rparr>)))"

definition srv_message :: "'a server_hook \<Rightarrow> int \<Rightarrow> bytes \<Rightarrow> 'a server \<Rightarrow> 'a server outcome" where
  "srv_message K ptype block s =
     (if ptype = C2S_SET_PIXEL_FORMAT then
        with_value (struct_unpack ''!xxx16s'' block) s (\<lambda>vs.
          case vs of
            [PBytes args] \<Rightarrow> with_value (from_bytes args) s (\<lambda>pf. srv_call K (OnPixelFormat pf) s)
          | _ \<Rightarrow> Raise ValueError s)
      else if ptype = C2S_SET_ENCODING then srv_setEncodings K block s
      else if ptype = C2S_FRAMEBUFFER_UPDATE_REQUEST then
        with_value (unpack5 ''!BHHHH'' block) s (\<lambda>(inc, x, y, w, h). srv_call K (OnFramebufferUpdate x y w h inc) s)
      else if ptype = C2S_KEY_EVENT then
        with_value (unpack2 ''!BxxI'' block) s (\<lambda>(down, key). srv_call K (OnKeyEvent key down) s)
      else if ptype = C2S_POINTER_EVENT then
        with_value (unpack3 ''!BHH'' block) s (\<lambda>(buttonmask, x, y). srv_call K (OnPointerEvent x y buttonmask) s)
      else if ptype = C2S_CLIENT_CUT_TEXT then srv_call K (OnCutText block) s
      else if ptype = C2S_QEMU_CLIENT_MESSAGE then
        with_value (unpack1 ''!B'' block) s (\<lambda>subtype.
          if subtype = 0 then Ret (await HQemuExtendedKey 10 s) else Raise (ProtocolError subtype) s)
      else Raise (ProtocolError ptype) s)"

definition srv_protocol :: "'a server_hook \<Rightarrow> 'a server \<Rightarrow> 'a server outcome" where
  "srv_protocol K s =
     with_value (bind_sum (struct_unpack_from ''!B'' (ls_buffer s)) as_int1) s (\<lambda>ptype.
       let nbytes = type_len ptype in
       if int (length (ls_buffer s)) < nbytes then Ret (await HProtocol (nbytes + 1) s)
       else
         let block = py_slice 1 nbytes (ls_buffer s)
         in srv_message K ptype block (s\<lparr>ls_buffer := drop (nat nbytes) (ls_buffer s)\<rparr>))"

definition srv_qemuExtendedKey :: "'a server_hook \<Rightarrow> 'a server \<Rightarrow> 'a server outcome" where
  "srv_qemuExtendedKey K s =
     with_value (bind_sum (struct_unpack_from ''!HII'' (ls_buffer s)) as_int3) s (\<lambda>(down_flag, keysym, keycode).
       and_then (srv_call K (OnKeyExtended keysym down_flag keycode) (s\<lparr>ls_buffer := drop 12 (ls_buffer s)\<rparr>))
         (\<lambda>s. Ret (await HProtocol 1 s)))"

definition srv_handle :: "'a server_hook \<Rightarrow> 'a server \<Rightarrow> 'a server outcome" where
  "srv_handle K s =
     (case ls_handler s of
        HVersion \<Rightarrow> srv_version K s
      | HSecurity \<Rightarrow> srv_security s
      | HVNCAuthResponse \<Rightarrow> srv_VNCAuthResponse s
      | HClientInit \<Rightarrow> srv_clientInit K s
      | HProtocol \<Rightarrow> srv_protocol K s
      | HQemuExtendedKey \<Rightarrow> srv_qemuExtendedKey K s)"

partial_function (option) srv_loop :: "'a server_hook \<Rightarrow> 'a server \<Rightarrow> 'a server outcome option" where
  "srv_loop K s =
     (if ls_need s \<le> int (length (ls_buffer s)) then
        (case srv_handle K s of Raise e t \<Rightarrow> Some (Raise e t) | Ret t \<Rightarrow> srv_loop K t)
      else Some (Ret s))"

declare srv_loop.simps [code]

definition srv_dataReceived :: "'a server_hook \<Rightarrow> bytes \<Rightarrow> 'a server \<Rightarrow> 'a server outcome option" where
  "srv_dataReceived K data s = srv_loop K (s\<lparr>ls_buffer := ls_buffer s @ data\<rparr>)"

section \<open>The base class\<close>

text \<open>Its methods do nothing, but \<open>handle_keyEventExtended\<close> passes the key on to \<open>handle_keyEvent\<close>.\<close>

definition base_server_hooks :: "'a server_hook" where
  "base_server_hooks e s =
     (case e of OnKeyExtended keysym down keycode \<Rightarrow> Ret (s\<lparr>ls_events := ls_events s @ [OnKeyEvent keysym down]\<rparr>)
      | _ \<Rightarrow> Ret s)"

section \<open>One message\<close>

fun event_of :: "client_msg \<Rightarrow> srv_event" where
  "event_of (MsgPixelFormat pf) = OnPixelFormat pf"
| "event_of (MsgEncodings es) = OnEncodings (map (\<lambda>e. e mod 4294967296) es)"
| "event_of (MsgUpdateRequest inc x y w h) = OnFramebufferUpdate x y w h (of_bool inc)"
| "event_of (MsgKey down key) = OnKeyEvent key (of_bool down)"
| "event_of (MsgPointer b x y) = OnPointerEvent x y b"
| "event_of (MsgCutText data) = OnCutText data"

fun is_cut_text :: "client_msg \<Rightarrow> bool" where
  "is_cut_text (MsgCutText data) = True"
| "is_cut_text _ = False"

lemma unpack_server [wire]:
  "struct_unpack ''!xxx16s'' bs = (if length bs = 19 then Inr [PBytes (drop 3 bs)] else Inl StructError)"
  "unpack5 ''!BHHHH'' bs = (if length bs = 9
     then Inr (from_be (take 1 bs), from_be (take 2 (drop 1 bs)), from_be (take 2 (drop 3 bs)),
       from_be (take 2 (drop 5 bs)), from_be (take 2 (drop 7 bs))) else Inl StructError)"
  "unpack2 ''!BxxI'' bs = (if length bs = 7 then Inr (from_be (take 1 bs), from_be (take 4 (drop 3 bs))) else Inl StructError)"
  "unpack3 ''!BHH'' bs = (if length bs = 5
     then Inr (from_be (take 1 bs), from_be (take 2 (drop 1 bs)), from_be (take 2 (drop 3 bs))) else Inl StructError)"
  "bind_sum (struct_unpack_from ''!B'' (b # bs)) as_int1 = Inr (uint b)"
  by (simp_all add: unpack_defs struct_unpack_from_def eval_nat_numeral)

lemma parse_encodings: "parse_format (CHR ''!'' # replicate n (CHR ''I'')) = Inr (replicate n (SInt False 4))"
proof -
  have "parse_items None (replicate n (CHR ''I'')) = Inr (replicate n (SInt False 4))"
    by (induction n) (simp_all add: digit_value_def item_fields_def)
  then show ?thesis by (simp add: parse_format_def)
qed

lemma unpack_encodings:
  "unpack_fields (replicate (length es) (SInt False 4)) (concat (map (\<lambda>e. to_be 4 (e mod 4294967296)) es) @ rest) =
     map (\<lambda>e. PInt (e mod 4294967296)) es"
  by (induction es) (simp_all add: from_to_be del: to_be.simps)

lemma srv_encodings_msg:
  assumes "length es < 65536" "ls_buffer s = concat (map (\<lambda>e. to_be 4 (e mod 4294967296)) es) @ rest"
  shows "srv_setEncodings K ([0] @ to_be 2 (int (length es))) s = srv_call K (event_of (MsgEncodings es)) (s\<lparr>ls_buffer := rest\<rparr>)"
proof -
  have n: "from_be (to_be 2 (int (length es))) = int (length es)" using assms(1) by (intro from_to_be) simp_all
  have len: "length (concat (map (\<lambda>e. to_be 4 (e mod 4294967296)) es)) = 4 * length es"
    by (induction es) simp_all
  have size: "calcsize (replicate m (SInt False 4)) = 4 * m" for m by (induction m) simp_all
  show ?thesis
    using assms(2) n len
    by (simp add: srv_setEncodings_def wire struct_unpack_from_def parse_encodings size unpack_encodings comp_def nat_mult_distrib
        del: to_be.simps)
qed

lemma srv_protocol_msg:
  assumes "msg_ok m" "\<not> is_cut_text m" "ls_buffer s = msg_bytes m @ rest"
  shows "srv_protocol K s = srv_call K (event_of m) (s\<lparr>ls_buffer := rest\<rparr>)"
proof -
  have b16: "from_be (to_be 2 v) = v" if "u16 v" for v using that by (intro from_to_be) simp_all
  have b32: "from_be (to_be 4 v) = v" if "u32 v" for v using that by (intro from_to_be) simp_all
  have b8: "uint (word_of_int v :: byte) = v" if "u8 v" for v using that by (simp add: uint_word_of_int)
  show ?thesis
  proof (cases m)
    case (MsgEncodings es)
    let ?t = "s\<lparr>ls_buffer := concat (map (\<lambda>e. to_be 4 (e mod 4294967296)) es) @ rest\<rparr>"
    have "srv_setEncodings K ([0] @ to_be 2 (int (length es))) ?t = srv_call K (event_of (MsgEncodings es)) (s\<lparr>ls_buffer := rest\<rparr>)"
      using assms(1) MsgEncodings srv_encodings_msg [of es ?t rest K] by simp
    with assms(3) MsgEncodings show ?thesis
      by (simp add: srv_protocol_def wire type_len_def TYPE_LEN_def Let_def py_slice_def srv_message_def del: to_be.simps)
  next
    case (MsgCutText data)
    with assms(2) show ?thesis by simp
  qed (use assms in \<open>simp_all add: srv_protocol_def wire type_len_def TYPE_LEN_def Let_def py_slice_def srv_message_def b8 b16 b32
      del: to_be.simps\<close>)
qed

section \<open>The contract of the overriding methods\<close>

text \<open>They leave the parser's position alone and do not look at its buffer.\<close>

locale server_hooks =
  fixes K :: "'a server_hook"
  assumes hook_buffer: "K e (s\<lparr>ls_buffer := b\<rparr>) = map_outcome (\<lambda>t. t\<lparr>ls_buffer := b\<rparr>) (K e s)"
    and hook_position: "ls_buffer (final (K e s)) = ls_buffer s" "ls_handler (final (K e s)) = ls_handler s"
      "ls_need (final (K e s)) = ls_need s"
begin

lemma srv_call_buffer:
  "srv_call K e (s\<lparr>ls_buffer := b\<rparr>) = map_outcome (\<lambda>t. t\<lparr>ls_buffer := b\<rparr>) (srv_call K e s)"
proof -
  have swap: "s\<lparr>ls_buffer := b, ls_events := ls_events (s\<lparr>ls_buffer := b\<rparr>) @ [e]\<rparr> =
      s\<lparr>ls_events := ls_events s @ [e], ls_buffer := b\<rparr>" by simp
  show ?thesis by (simp only: srv_call_def swap hook_buffer)
qed

lemma srv_call_position:
  "srv_call K e s = Ret t \<Longrightarrow> ls_buffer t = ls_buffer s \<and> ls_handler t = ls_handler s \<and> ls_need t = ls_need s"
  using hook_position [of e "s\<lparr>ls_events := ls_events s @ [e]\<rparr>"] by (simp add: srv_call_def)

text \<open>The methods for a list of messages, one after another.\<close>

fun run_events :: "srv_event list \<Rightarrow> 'a server \<Rightarrow> 'a server outcome" where
  "run_events [] s = Ret s"
| "run_events (e # es) s = and_then (srv_call K e s) (run_events es)"

lemma whole_messages:
  assumes "list_all (\<lambda>m. msg_ok m \<and> \<not> is_cut_text m) ms" "ls_handler s = HProtocol" "ls_need s = 1"
    and "ls_buffer s = concat (map msg_bytes ms)" "run_events (map event_of ms) (s\<lparr>ls_buffer := []\<rparr>) = Ret t"
  shows "srv_loop K s = Some (Ret t)"
  using assms
proof (induction ms arbitrary: s)
  case Nil
  have "s\<lparr>ls_buffer := []\<rparr> = s" using Nil.prems(4) by simp
  with Nil.prems(5) have "t = s" by simp
  with Nil show ?case by (simp add: srv_loop.simps)
next
  case (Cons m ms)
  let ?rest = "concat (map msg_bytes ms)"
  from Cons.prems obtain u where u: "srv_call K (event_of m) (s\<lparr>ls_buffer := []\<rparr>) = Ret u" "run_events (map event_of ms) u = Ret t"
    by (auto simp: and_then_Ret_iff)
  from srv_call_position [OF u(1)] Cons.prems have pos: "ls_buffer u = []" "ls_handler u = HProtocol" "ls_need u = 1" by simp_all
  have "srv_call K (event_of m) (s\<lparr>ls_buffer := ?rest\<rparr>) = Ret (u\<lparr>ls_buffer := ?rest\<rparr>)"
    using srv_call_buffer [where e = "event_of m" and s = "s\<lparr>ls_buffer := []\<rparr>" and b = ?rest] u(1) by simp
  with Cons.prems have "srv_handle K s = Ret (u\<lparr>ls_buffer := ?rest\<rparr>)"
    by (simp add: srv_handle_def srv_protocol_msg [of m s ?rest])
  moreover have "1 \<le> length (msg_bytes m)" by (cases m) simp_all
  ultimately have "srv_loop K s = srv_loop K (u\<lparr>ls_buffer := ?rest\<rparr>)"
    using Cons.prems by (subst srv_loop.simps) simp
  moreover have "u\<lparr>ls_buffer := []\<rparr> = u" using pos(1) by simp
  with u(2) have "run_events (map event_of ms) (u\<lparr>ls_buffer := []\<rparr>) = Ret t" by metis
  ultimately show ?case using Cons.IH [of "u\<lparr>ls_buffer := ?rest\<rparr>"] Cons.prems pos by simp
qed

end

interpretation base_server: server_hooks base_server_hooks
  by unfold_locales (simp_all add: base_server_hooks_def split: srv_event.split)

lemma base_run_events:
  "base_server.run_events (map event_of ms) s = Ret (s\<lparr>ls_events := ls_events s @ map event_of ms\<rparr>)"
proof (induction ms arbitrary: s)
  case (Cons m ms)
  have "srv_call base_server_hooks (event_of m) s = Ret (s\<lparr>ls_events := ls_events s @ [event_of m]\<rparr>)"
    by (cases m) (simp_all add: srv_call_def base_server_hooks_def)
  with Cons show ?case by simp
qed simp


definition ready_server :: "log_server" where
  "ready_server = (new_server False ())\<lparr>ls_handler := HProtocol, ls_need := 1\<rparr>"


section \<open>Messages in pieces, and the clipboard\<close>

lemma type_len_msg:
  "msg_ok m \<Longrightarrow> \<not> is_cut_text m \<Longrightarrow> \<forall>es. m \<noteq> MsgEncodings es \<Longrightarrow>
     type_len (uint (hd (msg_bytes m))) = int (length (msg_bytes m))"
  by (cases m) (auto simp: type_len_def TYPE_LEN_def)

text \<open>A message of fixed size that reaches the logging server in two segments is not decoded when
  it is complete: \<open>_handle_protocol\<close> asks for one byte more than the message has, so the message is
  left in the buffer until more data comes.\<close>

lemma split_message_is_held_back:
  assumes "msg_ok m" "\<not> is_cut_text m" "\<forall>es. m \<noteq> MsgEncodings es" "0 < i" "i < length (msg_bytes m)"
    and "ls_handler s = HProtocol" "ls_need s = 1" "ls_buffer s = []"
  shows "\<exists>t u. srv_dataReceived K (take i (msg_bytes m)) s = Some (Ret t) \<and>
    srv_dataReceived K (drop i (msg_bytes m)) t = Some (Ret u) \<and> ls_events u = ls_events s \<and> ls_buffer u = msg_bytes m"
proof -
  let ?n = "int (length (msg_bytes m))"
  let ?t = "await HProtocol (?n + 1) (s\<lparr>ls_buffer := take i (msg_bytes m)\<rparr>)"
  let ?s = "s\<lparr>ls_buffer := take i (msg_bytes m)\<rparr>"
  obtain b bs where head: "take i (msg_bytes m) = b # bs" using assms(4,5) by (cases "take i (msg_bytes m)") auto
  then have b: "hd (msg_bytes m) = b" using assms(4) by (metis hd_take list.sel(1))
  have len: "type_len (uint b) = ?n" using type_len_msg [OF assms(1-3)] b by simp
  have kind: "bind_sum (struct_unpack_from ''!B'' (take i (msg_bytes m))) as_int1 = Inr (uint b)"
    unfolding head by (rule wire)
  have "srv_handle K ?s = Ret ?t"
    using assms(5,6) kind len by (simp add: srv_handle_def srv_protocol_def)
  then have "srv_loop K ?s = Some (Ret ?t)"
    using assms(4,5,7) by (simp add: srv_loop.simps [of K ?s] srv_loop.simps [of K ?t]) (simp add: await_def)
  moreover have "srv_dataReceived K (drop i (msg_bytes m)) ?t = Some (Ret (?t\<lparr>ls_buffer := msg_bytes m\<rparr>))"
    by (simp add: srv_dataReceived_def await_def srv_loop.simps)
  ultimately show ?thesis
    using assms(8) by (intro exI [of _ ?t] exI [of _ "?t\<lparr>ls_buffer := msg_bytes m\<rparr>"]) (simp add: srv_dataReceived_def await_def)
qed


text \<open>What the methods of a subclass keep, the whole of \<open>dataReceived\<close> keeps.\<close>

lemma final_with_value: "Q t \<Longrightarrow> (\<And>v. Q (final (k v))) \<Longrightarrow> Q (final (with_value r t k))"
  by (cases r) auto

lemma srv_handle_keeps:
  assumes hook: "\<And>e s. R s (final (K e s))" and refl: "\<And>s. R s s" and trans: "\<And>s t u. R s t \<Longrightarrow> R t u \<Longrightarrow> R s u"
    and own: "\<And>s b. R s (s\<lparr>ls_buffer := b\<rparr>)" "\<And>s h n. R s (await h n s)" "\<And>s es. R s (s\<lparr>ls_events := es\<rparr>)"
  shows "R s (final (srv_handle K s))"
proof -
  have call: "R s (final (srv_call K e t))" if "R s t" for e t
    using that hook own(3) trans unfolding srv_call_def by blast
  have then_keeps: "R s (final (and_then r f))" if "R s (final r)" "\<And>t. R s t \<Longrightarrow> R s (final (f t))" for r f
    using that by (cases r) auto
  note value_keeps = final_with_value [where Q = "R s"]
  have buf: "R s (t\<lparr>ls_buffer := b\<rparr>)" and arm: "R s (await h n t)" if "R s t" for b h n t
    using that own trans by blast+
  note keeps = arm [OF own(1)] call then_keeps value_keeps buf arm refl own
  have version: "R s (final (srv_version K s))"
    unfolding srv_version_def Let_def by (rule then_keeps) (auto intro: keeps)
  have block: "R s (final (srv_setEncodings K b t))" "R s (final (srv_message K ptype b t))" if "R s t" for b t ptype
    using that unfolding srv_message_def srv_setEncodings_def
    by (auto intro!: keeps split: list.split pyval.split prod.split)
  have protocol: "R s (final (srv_protocol K s))"
    unfolding srv_protocol_def Let_def by (auto intro!: value_keeps block intro: keeps)
  have extended: "R s (final (srv_qemuExtendedKey K s))"
    unfolding srv_qemuExtendedKey_def by (intro value_keeps) (auto intro!: then_keeps intro: keeps)
  show ?thesis
    using version protocol extended
    by (cases "ls_handler s") (auto simp: srv_handle_def srv_security_def srv_VNCAuthResponse_def srv_clientInit_def Let_def
        intro!: value_keeps arm [OF own(1)] intro: keeps)
qed

lemma srv_dataReceived_keeps:
  assumes run: "srv_dataReceived K data s = Some r"
    and hook: "\<And>e s. R s (final (K e s))" and refl: "\<And>s. R s s" and trans: "\<And>s t u. R s t \<Longrightarrow> R t u \<Longrightarrow> R s u"
    and own: "\<And>s b. R s (s\<lparr>ls_buffer := b\<rparr>)" "\<And>s h n. R s (await h n s)" "\<And>s es. R s (s\<lparr>ls_events := es\<rparr>)"
  shows "R s (final r)"
proof -
  have handled: "R s (final (srv_handle K s))" for s
    by (rule srv_handle_keeps [where R = R]) (fact hook refl trans own)+
  from run have "srv_loop K (s\<lparr>ls_buffer := ls_buffer s @ data\<rparr>) = Some r" by (simp add: srv_dataReceived_def)
  then have "K = K \<longrightarrow> R (s\<lparr>ls_buffer := ls_buffer s @ data\<rparr>) (final r)"
  proof (rule srv_loop.raw_induct [where P = "\<lambda>K' s r. K' = K \<longrightarrow> R s (final r)", rotated], intro impI)
    fix loop K' s r
    assume IH: "\<And>K' s r. loop K' s = Some r \<Longrightarrow> K' = K \<longrightarrow> R s (final r)"
      and step: "(if ls_need s \<le> int (length (ls_buffer s))
        then case srv_handle K' s of Ret t \<Rightarrow> loop K' t | Raise e t \<Rightarrow> Some (Raise e t) else Some (Ret s)) = Some r"
      and K: "K' = K"
    show "R s (final r)"
    proof (cases "srv_handle K s")
      case (Ret t)
      with handled [of s] step K IH [of K t r] show ?thesis by (auto split: if_splits intro: trans refl)
    next
      case (Raise e t)
      with step have "r = Raise e t \<or> r = Ret s" unfolding K by (simp split: if_splits)
      with handled [of s] Raise refl show ?thesis by auto
    qed
  qed
  then show ?thesis using own(1) trans by blast
qed


definition stuck :: "'a server \<Rightarrow> bool" where
  "stuck s \<longleftrightarrow> ls_handler s = HProtocol \<and> ls_need s = 1 \<and> (\<exists>rest. ls_buffer s = 6 # rest)"

lemma stuck_stays: "stuck s \<Longrightarrow> \<exists>t. srv_handle base_server_hooks s = Ret t \<and> stuck t"
  by (auto simp: stuck_def srv_handle_def srv_protocol_def wire type_len_def TYPE_LEN_def Let_def py_slice_def
      srv_message_def srv_call_def base_server_hooks_def)

lemma stuck_never_returns:
  assumes "srv_loop K s = Some r"
  shows "K = base_server_hooks \<longrightarrow> \<not> stuck s"
proof (rule srv_loop.raw_induct [OF _ assms, where P = "\<lambda>K s r. K = base_server_hooks \<longrightarrow> \<not> stuck s"], intro impI notI)
  fix loop K s r
  assume IH: "\<And>K s r. loop K s = Some r \<Longrightarrow> K = base_server_hooks \<longrightarrow> \<not> stuck s"
    and run: "(if ls_need s \<le> int (length (ls_buffer s))
      then case srv_handle K s of Ret t \<Rightarrow> loop K t | Raise e t \<Rightarrow> Some (Raise e t) else Some (Ret s)) = Some r"
    and K: "K = base_server_hooks" and "stuck s"
  then obtain t where t: "srv_handle K s = Ret t" "stuck t" using stuck_stays by metis
  have "ls_need s \<le> int (length (ls_buffer s))" using \<open>stuck s\<close> by (auto simp: stuck_def)
  with run t(1) have "loop K t = Some r" by simp
  from IH [OF this] K t(2) show False by simp
qed

text \<open>C32. A clipboard message never lets the logging server go: \<open>TYPE_LEN\<close> has no entry for it, so no
  byte of it is consumed and the loop of \<open>dataReceived\<close> runs for ever.\<close>

theorem cut_text_never_returns:
  assumes "ls_handler s = HProtocol" "ls_need s = 1" "ls_buffer s = []"
  shows "srv_dataReceived base_server_hooks (msg_bytes (MsgCutText data)) s = None"
proof -
  have "stuck (s\<lparr>ls_buffer := msg_bytes (MsgCutText data)\<rparr>)" using assms by (simp add: stuck_def)
  then show ?thesis
    using stuck_never_returns [of base_server_hooks] assms(3)
    by (cases "srv_dataReceived base_server_hooks (msg_bytes (MsgCutText data)) s") (auto simp: srv_dataReceived_def)
qed

theorem cut_text_never_returns_witness:
  "srv_dataReceived base_server_hooks [6, 0, 0, 0, 0, 0, 0, 2, 104, 105] ready_server = None"
  using cut_text_never_returns [of ready_server "[104, 105]"] by (simp add: ready_server_def new_server_def eval_nat_numeral)

end
