(* ===== verification/Session_Log.thy ===== *)
theory Session_Log
  imports Log_Server Key_Map
begin

text \<open>
  The session log (\<open>.vdo\<close>): how \<open>loggingproxy.VNCLoggingServerProxy\<close> writes key and pointer events,
  and how \<open>command.build_command_list\<close> reads a log back, through \<open>shlex\<close>.

  \<open>shlex.quote\<close> and the posix lexer with \<open>whitespace_split\<close> are modelled character by character; a
  string is the list of its code points. Clock readings are whole numbers of the 0.1 ms that
  \<open>%.4f\<close> shows. The lemmas show that the lexer reads back what was quoted, so that a log is
  read as the tokens it was written from.
\<close>

section \<open>Quoting\<close>

text \<open>The characters \<open>shlex.quote\<close> leaves bare: \<open>[\w@%+=:,./-]\<close> in ASCII.\<close>

definition is_safe :: "int \<Rightarrow> bool" where
  "is_safe c \<longleftrightarrow> (48 \<le> c \<and> c \<le> 57) \<or> (65 \<le> c \<and> c \<le> 90) \<or> (97 \<le> c \<and> c \<le> 122) \<or> c \<in> {95, 64, 37, 43, 61, 58, 44, 46, 47, 45}"

definition shlex_quote :: "unicode \<Rightarrow> unicode" where
  "shlex_quote s =
     (if s = [] then [39, 39]
      else if list_all is_safe s then s
      else [39] @ concat (map (\<lambda>c. if c = 39 then [39, 34, 39, 34, 39] else [c]) s) @ [39])"

section \<open>The lexer\<close>

definition is_blank :: "int \<Rightarrow> bool" where
  "is_blank c \<longleftrightarrow> c = 32 \<or> c = 9 \<or> c = 13 \<or> c = 10"

text \<open>The states of \<open>shlex.read_token\<close>: between tokens, in a word, in quotes, after a backslash
  outside and inside double quotes, in a comment.\<close>

datatype lex_state = LStart | LWord | LQuote int | LEscape | LQuoteEscape | LComment

definition emit_token :: "bool \<Rightarrow> unicode \<Rightarrow> exn + unicode list \<Rightarrow> exn + unicode list" where
  "emit_token quoted tok rest = (if tok \<noteq> [] \<or> quoted then bind_sum rest (\<lambda>ts. Inr (tok # ts)) else rest)"

fun lex :: "lex_state \<Rightarrow> bool \<Rightarrow> unicode \<Rightarrow> unicode \<Rightarrow> exn + unicode list" where
  "lex LStart quoted tok [] = Inr []"
| "lex LStart quoted tok (c # cs) =
     (if is_blank c then lex LStart False [] cs
      else if c = 35 then lex LComment False [] cs
      else if c = 92 then lex LEscape False [] cs
      else if c = 39 \<or> c = 34 then lex (LQuote c) False [] cs
      else lex LWord False [c] cs)"
| "lex LComment quoted tok [] = Inr []"
| "lex LComment quoted tok (c # cs) = (if c = 10 then lex LStart False [] cs else lex LComment False [] cs)"
| "lex LWord quoted tok [] = emit_token quoted tok (Inr [])"
| "lex LWord quoted tok (c # cs) =
     (if is_blank c then emit_token quoted tok (lex LStart False [] cs)
      else if c = 35 then emit_token quoted tok (lex LComment False [] cs)
      else if c = 39 \<or> c = 34 then lex (LQuote c) quoted tok cs
      else if c = 92 then lex LEscape quoted tok cs
      else lex LWord quoted (tok @ [c]) cs)"
| "lex (LQuote q) quoted tok [] = Inl ValueError"
| "lex (LQuote q) quoted tok (c # cs) =
     (if c = q then lex LWord True tok cs
      else if c = 92 \<and> q = 34 then lex LQuoteEscape True tok cs
      else lex (LQuote q) True (tok @ [c]) cs)"
| "lex LEscape quoted tok [] = Inl ValueError"
| "lex LEscape quoted tok (c # cs) = lex LWord quoted (tok @ [c]) cs"
| "lex LQuoteEscape quoted tok [] = Inl ValueError"
| "lex LQuoteEscape quoted tok (c # cs) =
     lex (LQuote 34) True (tok @ (if c \<noteq> 92 \<and> c \<noteq> 34 then [92] else []) @ [c]) cs"

definition shlex_tokens :: "unicode \<Rightarrow> exn + unicode list" where
  "shlex_tokens input = lex LStart False [] input"

section \<open>Reading back what was quoted\<close>

lemma safe_plain: "is_safe c \<Longrightarrow> \<not> is_blank c \<and> c \<noteq> 35 \<and> c \<noteq> 92 \<and> c \<noteq> 39 \<and> c \<noteq> 34"
  by (auto simp: is_safe_def is_blank_def)

lemma lex_safe: "list_all is_safe w \<Longrightarrow> lex LWord q tok (w @ rest) = lex LWord q (tok @ w) rest"
  by (induction w arbitrary: tok) (simp_all add: safe_plain)

lemma lex_quoted:
  "lex (LQuote 39) q tok (concat (map (\<lambda>c. if c = 39 then [39, 34, 39, 34, 39] else [c]) w) @ 39 # rest) =
     lex LWord True (tok @ w) rest"
  by (induction w arbitrary: q tok) (simp_all add: is_blank_def)

text \<open>A quoted word and a blank are one token, whatever the word.\<close>

lemma lex_quote:
  assumes "is_blank b"
  shows "lex LStart q tok (shlex_quote w @ b # rest) = bind_sum (lex LStart False [] rest) (\<lambda>ts. Inr (w # ts))"
proof -
  consider "w = []" | c cs where "w = c # cs" "list_all is_safe w" | "w \<noteq> []" "\<not> list_all is_safe w"
    by (cases w) auto
  then show ?thesis
  proof cases
    case 1
    with assms show ?thesis by (simp add: shlex_quote_def is_blank_def emit_token_def)
  next
    case 2
    with assms show ?thesis
      using lex_safe [of cs False "[c]" "b # rest"] by (simp add: shlex_quote_def safe_plain emit_token_def)
  next
    case 3
    with assms lex_quoted [of False "[]" w "b # rest"] show ?thesis
      by (simp add: shlex_quote_def is_blank_def [of 39] emit_token_def)
  qed
qed

text \<open>What \<open>shlex.quote\<close> writes, the lexer reads: words joined by blanks come back as they were,
  whatever characters they hold (blanks, quotes, backslashes, comment signs).\<close>

lemma shlex_round_trip:
  "shlex_tokens (concat (map (\<lambda>w. shlex_quote w @ [32]) ws) @ [10]) = Inr ws"
proof -
  have "lex LStart q tok (concat (map (\<lambda>w. shlex_quote w @ [32]) ws) @ [10]) = Inr ws" for q tok
  proof (induction ws arbitrary: q tok)
    case (Cons w ws)
    then show ?case using lex_quote [of 32 q tok w] by (simp add: is_blank_def)
  qed (simp add: is_blank_def)
  then show ?thesis by (simp add: shlex_tokens_def)
qed

section \<open>The recorder\<close>

text \<open>\<open>"%.4f"\<close> and \<open>"%d"\<close>.\<close>

definition show_int :: "int \<Rightarrow> unicode" where
  "show_int n = (if n < 0 then [45] else []) @ pts (show_nat (nat \<bar>n\<bar>))"

definition show_ticks :: "int \<Rightarrow> unicode" where
  "show_ticks n =
     (let a = nat \<bar>n\<bar>; frac = a mod 10000 in
      (if n < 0 then [45] else []) @ pts (show_nat (a div 10000)) @ [46] @
      map (\<lambda>k. 48 + int (frac div k mod 10)) [1000, 100, 10, 1])"

text \<open>\<open>" ".join(cmds)\<close>.\<close>

fun join_blank :: "unicode list \<Rightarrow> unicode" where
  "join_blank [] = []"
| "join_blank [w] = w"
| "join_blank (w # ws) = w @ [32] @ join_blank ws"

record recorder =
  rec_mouse :: "(int \<times> int) option"
  rec_last :: int
  rec_out :: unicode

text \<open>\<open>chr(key)\<close> is evaluated even for a key that has a name.\<close>

definition record_key :: "int \<Rightarrow> int \<Rightarrow> int \<Rightarrow> recorder \<Rightarrow> recorder outcome" where
  "record_key now key down r =
     (if key < 0 \<or> 0x110000 \<le> key then Raise ValueError r
      else
        let rev = shlex_quote (case reverse_get key of Some n \<Rightarrow> pts n | None \<Rightarrow> [key]);
            cmds = [pts ''pause'', show_ticks (now - rec_last r)]
              @ (if down \<noteq> 0 then [pts ''keydown'', rev] else [pts ''keyup'', rev]) @ [[10]]
        in Ret (r\<lparr>rec_last := now, rec_out := rec_out r @ join_blank cmds\<rparr>))"

definition pressed_buttons :: "int \<Rightarrow> int list" where
  "pressed_buttons buttons = filter (\<lambda>b. buttons div 2 ^ nat (b - 1) mod 2 = 1) [1..8]"

definition record_pointer :: "int \<Rightarrow> int \<Rightarrow> int \<Rightarrow> int \<Rightarrow> recorder \<Rightarrow> recorder outcome" where
  "record_pointer now x y buttons r =
     (let cmds = [pts ''pause'', show_ticks (now - rec_last r)];
          cmds = cmds @ (if rec_mouse r \<noteq> Some (x, y) then [pts ''move '' @ show_int x @ [32] @ show_int y] else []);
          cmds = cmds @ map (\<lambda>b. pts ''click '' @ show_int b) (pressed_buttons buttons) @ [[10]]
      in Ret (r\<lparr>rec_last := now, rec_mouse := Some (x, y), rec_out := rec_out r @ join_blank cmds\<rparr>))"



text \<open>The tokens of a recorded key event.\<close>

definition key_name :: "int \<Rightarrow> unicode" where
  "key_name key = (case reverse_get key of Some n \<Rightarrow> pts n | None \<Rightarrow> [key])"

definition key_tokens :: "int \<Rightarrow> int \<Rightarrow> bool \<Rightarrow> unicode list" where
  "key_tokens dt key down = [pts ''pause'', show_ticks dt, pts (if down then ''keydown'' else ''keyup''), key_name key]"

lemma digits_safe: "list_all is_safe (pts (show_nat n))"
proof (induction n rule: show_nat.induct)
  case (1 n)
  have "is_safe (of_char (char_of (48 + d) :: char))" if "d < 10" for d :: nat
  proof -
    have "(of_char (char_of (48 + d) :: char) :: int) = int ((48 + d) mod 256)" by (metis of_char_of of_nat_of_char)
    then show ?thesis using that by (simp add: is_safe_def)
  qed
  with 1 show ?case by (subst show_nat.simps) (auto simp: pts_def)
qed

lemma show_ticks_safe: "list_all is_safe (show_ticks n)" "show_ticks n \<noteq> []"
proof -
  have "is_safe (48 + int d)" if "d < 10" for d using that by (auto simp: is_safe_def)
  then have "is_safe (48 + int (m mod 10))" "is_safe (48 + int (m mod 10000 div 1000))" for m
    by (simp_all add: div_less_iff_less_mult)
  then show "list_all is_safe (show_ticks n)" "show_ticks n \<noteq> []"
    using digits_safe by (simp_all add: show_ticks_def Let_def is_safe_def [of 45] is_safe_def [of 46])
qed

lemma safe_unquoted: "list_all is_safe w \<Longrightarrow> w \<noteq> [] \<Longrightarrow> shlex_quote w = w"
  by (simp add: shlex_quote_def)

text \<open>A key event's line is its tokens, each quoted.\<close>

lemma record_key_line:
  assumes "0 \<le> key" "key < 0x110000"
  shows "record_key now key (of_bool down) r = Ret (r\<lparr>rec_last := now, rec_out := rec_out r @
    concat (map (\<lambda>w. shlex_quote w @ [32]) (key_tokens (now - rec_last r) key down)) @ [10]\<rparr>)"
proof -
  have names: "shlex_quote (pts ''pause'') = pts ''pause''" "shlex_quote (pts ''keydown'') = pts ''keydown''"
    "shlex_quote (pts ''keyup'') = pts ''keyup''" by code_simp+
  have "shlex_quote (show_ticks n) = show_ticks n" for n by (simp add: safe_unquoted show_ticks_safe)
  with assms names show ?thesis
    by (simp add: record_key_def key_tokens_def key_name_def [symmetric] Let_def)
qed

section \<open>The recording proxy\<close>

text \<open>\<open>VNCLoggingServerProxy\<close> as the logging server's subclass: its \<open>handle_keyEvent\<close> and
  \<open>handle_pointerEvent\<close> record, an extended key event goes to the former, and the others are the
  base class's. \<open>tick\<close> is the clock, by the number of events there have been.\<close>

record recording_server = log_server +
  rs_recorder :: recorder

definition on_recorder ::
  "(recorder \<Rightarrow> recorder outcome) \<Rightarrow> 'a recording_server_scheme \<Rightarrow> 'a recording_server_scheme outcome" where
  "on_recorder f s =
     (case f (rs_recorder s) of
        Ret r \<Rightarrow> Ret (s\<lparr>rs_recorder := r\<rparr>)
      | Raise e r \<Rightarrow> Raise e (s\<lparr>rs_recorder := r\<rparr>))"

definition recorder_hooks ::
  "(nat \<Rightarrow> int) \<Rightarrow> srv_event \<Rightarrow> 'a recording_server_scheme \<Rightarrow> 'a recording_server_scheme outcome" where
  "recorder_hooks tick e s =
     (let now = tick (length (ls_events s)) in
      case e of
        OnKeyEvent k down \<Rightarrow> on_recorder (record_key now k down) s
      | OnKeyExtended k down code \<Rightarrow> on_recorder (record_key now k down) s
      | OnPointerEvent x y b \<Rightarrow> on_recorder (record_pointer now x y b) s
      | _ \<Rightarrow> Ret s)"

interpretation recorder_server: server_hooks "recorder_hooks tick" for tick
  by unfold_locales
    (simp_all add: recorder_hooks_def on_recorder_def Let_def split: srv_event.split outcome.split)

text \<open>A key event: the clock, the keysym and whether it is pressed.\<close>

type_synonym key_input = "int \<times> int \<times> bool"

definition key_ok :: "key_input \<Rightarrow> bool" where
  "key_ok i \<longleftrightarrow> 0 \<le> fst (snd i) \<and> fst (snd i) < 0x110000"

fun record_keys :: "key_input list \<Rightarrow> recorder \<Rightarrow> recorder outcome" where
  "record_keys [] r = Ret r"
| "record_keys ((now, k, down) # is) r = and_then (record_key now k (of_bool down) r) (record_keys is)"

fun stamp :: "(nat \<Rightarrow> int) \<Rightarrow> nat \<Rightarrow> (bool \<times> int) list \<Rightarrow> key_input list" where
  "stamp tick n [] = []"
| "stamp tick n ((down, k) # ks) = (tick (Suc n), k, down) # stamp tick (Suc n) ks"

lemma recorded_events:
  "record_keys (stamp tick (length (ls_events s)) ks) (rs_recorder s) = Ret r \<Longrightarrow>
     \<exists>t. recorder_server.run_events tick (map (\<lambda>(down, k). event_of (MsgKey down k)) ks) s = Ret t \<and> rs_recorder t = r"
proof (induction ks arbitrary: s)
  case (Cons i ks)
  obtain down k where i: "i = (down, k)" by fastforce
  from Cons.prems obtain r1 where r1: "record_key (tick (Suc (length (ls_events s)))) k (of_bool down) (rs_recorder s) = Ret r1"
    "record_keys (stamp tick (Suc (length (ls_events s))) ks) r1 = Ret r" by (auto simp: i and_then_Ret_iff)
  let ?u = "s\<lparr>ls_events := ls_events s @ [event_of (MsgKey down k)], rs_recorder := r1\<rparr>"
  have "srv_call (recorder_hooks tick) (event_of (MsgKey down k)) s = Ret ?u"
    using r1(1) by (simp add: srv_call_def recorder_hooks_def on_recorder_def Let_def)
  with Cons.IH [of ?u] r1(2) show ?case by (simp add: i)
qed simp

text \<open>Key messages that arrive as a segment are recorded one by one.\<close>

lemma keys_recorded:
  assumes "list_all (\<lambda>(down, k). u32 k) ks" "ls_handler s = HProtocol" "ls_need s = 1" "ls_buffer s = []"
    and "record_keys (stamp tick (length (ls_events s)) ks) (rs_recorder s) = Ret r"
  shows "\<exists>t. srv_dataReceived (recorder_hooks tick) (concat (map (\<lambda>(down, k). msg_bytes (MsgKey down k)) ks)) s = Some (Ret t) \<and>
    rs_recorder t = r"
proof -
  let ?ms = "map (\<lambda>(down, k). MsgKey down k) ks"
  let ?s = "s\<lparr>ls_buffer := concat (map msg_bytes ?ms)\<rparr>"
  have ok: "list_all (\<lambda>m. msg_ok m \<and> \<not> is_cut_text m) ?ms"
    using assms(1) by (auto simp: list_all_iff)
  have same: "?s\<lparr>ls_buffer := []\<rparr> = s" using assms(4) by simp
  have events: "map event_of ?ms = map (\<lambda>(down, k). event_of (MsgKey down k)) ks" by auto
  from recorded_events [OF assms(5)] obtain t where t: "rs_recorder t = r"
    "recorder_server.run_events tick (map event_of ?ms) (?s\<lparr>ls_buffer := []\<rparr>) = Ret t"
    unfolding same events by blast
  have "srv_loop (recorder_hooks tick) ?s = Some (Ret t)"
    by (rule recorder_server.whole_messages [OF ok _ _ _ t(2)]) (simp_all add: assms(2,3))
  moreover have octets: "map msg_bytes ?ms = map (\<lambda>(down, k). msg_bytes (MsgKey down k)) ks" by auto
  ultimately show ?thesis using t(1) assms(4) unfolding srv_dataReceived_def octets [symmetric] by auto
qed

end
