(* ===== verification/Command_Line.thy ===== *)
theory Command_Line
  imports Complex_Main Vnc_Client Session_Log
begin

text \<open>
  \<open>vncdotool/command.py\<close>: the command list of \<open>vncdo\<close>, server addresses and exit statuses.

  A command is the callback \<open>build_command_list\<close> queues; the files it reads are an argument. Since a
  script may name itself, the loop is a partial function. \<open>int\<close> and \<open>float\<close> read ASCII notation;
  a finite float is the rational number it is written as.
\<close>

section \<open>Numbers\<close>

definition text_space :: "int \<Rightarrow> bool" where
  "text_space c \<longleftrightarrow> c = 32 \<or> (9 \<le> c \<and> c \<le> 13) \<or> (28 \<le> c \<and> c \<le> 31)"

definition strip_text :: "unicode \<Rightarrow> unicode" where
  "strip_text cs = rev (dropWhile text_space (rev (dropWhile text_space cs)))"

definition text_digit :: "int \<Rightarrow> bool" where
  "text_digit c \<longleftrightarrow> 48 \<le> c \<and> c \<le> 57"

text \<open>Digits with single underscores between them: value, number of digits, what follows.\<close>

fun scan_digits :: "bool \<Rightarrow> int \<Rightarrow> nat \<Rightarrow> unicode \<Rightarrow> int \<times> nat \<times> unicode" where
  "scan_digits prev v n [] = (v, n, [])"
| "scan_digits prev v n (c # cs) =
     (if text_digit c then scan_digits True (v * 10 + (c - 48)) (Suc n) cs
      else if c = 95 \<and> prev \<and> cs \<noteq> [] \<and> text_digit (hd cs) then scan_digits False v n cs
      else (v, n, c # cs))"

definition split_sign :: "unicode \<Rightarrow> bool \<times> unicode" where
  "split_sign cs = (case cs of c # ds \<Rightarrow> if c = 45 then (True, ds) else if c = 43 then (False, ds) else (False, cs) | [] \<Rightarrow> (False, []))"

definition int_of_text :: "unicode \<Rightarrow> exn + int" where
  "int_of_text cs =
     (let (neg, ds) = split_sign (strip_text cs); (v, n, rest) = scan_digits False 0 0 ds in
      if n = 0 \<or> rest \<noteq> [] then Inl ValueError else Inr (if neg then - v else v))"

datatype pyfloat = Fin rat | PosInf | NegInf | NaN

definition lower_ascii :: "unicode \<Rightarrow> unicode" where
  "lower_ascii cs = map (\<lambda>c. if 65 \<le> c \<and> c \<le> 90 then c + 32 else c) cs"

definition exponent_of :: "unicode \<Rightarrow> int option" where
  "exponent_of cs =
     (case cs of
        [] \<Rightarrow> Some 0
      | c # ds \<Rightarrow>
          if c = 101 \<or> c = 69 then
            let (neg, es) = split_sign ds; (v, n, rest) = scan_digits False 0 0 es in
            if n = 0 \<or> rest \<noteq> [] then None else Some (if neg then - v else v)
          else None)"

definition float_of_text :: "unicode \<Rightarrow> exn + pyfloat" where
  "float_of_text cs =
     (let (neg, ds) = split_sign (strip_text cs) in
      if lower_ascii ds \<in> {pts ''inf'', pts ''infinity''} then Inr (if neg then NegInf else PosInf)
      else if lower_ascii ds = pts ''nan'' then Inr NaN
      else
        let (ip, n1, r) = scan_digits False 0 0 ds;
            (fp, n2, r2) = (case r of c # r' \<Rightarrow> if c = 46 then scan_digits False 0 0 r' else (0, 0, r) | [] \<Rightarrow> (0, 0, []))
        in if n1 + n2 = 0 then Inl ValueError
           else case exponent_of r2 of
             None \<Rightarrow> Inl ValueError
           | Some e \<Rightarrow>
               let v = (of_int ip + of_int fp / 10 ^ n2) * (if e \<ge> 0 then 10 ^ nat e else 1 / 10 ^ nat (- e))
               in Inr (Fin (if neg then - v else v)))"

section \<open>Commands\<close>

datatype command =
    KeyPress unicode | KeyDown unicode | KeyUp unicode
  | MouseMove int int | MousePress int | MouseDown int | MouseUp int | MouseDrag int int
  | Paste unicode | Pause pyfloat
  | CaptureScreen unicode bool | CaptureRegion unicode int int int int
  | ExpectScreen unicode pyfloat | ExpectRegion unicode int int pyfloat

datatype cmd_error = Exception exn | CommandParseError unicode | NoSuchFile unicode | ZeroDivision

text \<open>What the command list reads: the files by name, and standard input.\<close>

record sources =
  src_files :: "unicode \<rightharpoonup> unicode"
  src_stdin :: unicode

definition SUPPORTED_FORMATS :: "unicode list" where
  "SUPPORTED_FORMATS = map pts [''png'', ''jpg'', ''jpeg'', ''gif'', ''bmp'']"

text \<open>\<open>os.path.splitext(filename)[1][1:]\<close>.\<close>

definition image_format :: "unicode \<Rightarrow> unicode" where
  "image_format filename =
     (let base = rev (takeWhile (\<lambda>c. c \<noteq> 47) (rev filename));
          ext = rev (takeWhile (\<lambda>c. c \<noteq> 46) (rev base));
          stem = take (length base - length ext - 1) base
      in if 46 \<in> set base \<and> list_ex (\<lambda>c. c \<noteq> 46) stem then ext else [])"

definition bind_cmd :: "cmd_error + 'a \<Rightarrow> ('a \<Rightarrow> cmd_error + 'b) \<Rightarrow> cmd_error + 'b" where
  "bind_cmd r f = (case r of Inl e \<Rightarrow> Inl e | Inr v \<Rightarrow> f v)"

definition lift_exn :: "exn + 'a \<Rightarrow> cmd_error + 'a" where
  "lift_exn r = (case r of Inl e \<Rightarrow> Inl (Exception e) | Inr v \<Rightarrow> Inr v)"

text \<open>\<open>args.pop(0)\<close>, alone and converted.\<close>

definition pop_arg :: "unicode list \<Rightarrow> cmd_error + unicode \<times> unicode list" where
  "pop_arg args = (case args of [] \<Rightarrow> Inl (Exception IndexError) | a # as \<Rightarrow> Inr (a, as))"

definition pop_int :: "unicode list \<Rightarrow> cmd_error + int \<times> unicode list" where
  "pop_int args = bind_cmd (pop_arg args) (\<lambda>(a, as). bind_cmd (lift_exn (int_of_text a)) (\<lambda>v. Inr (v, as)))"

definition pop_float :: "unicode list \<Rightarrow> cmd_error + pyfloat \<times> unicode list" where
  "pop_float args = bind_cmd (pop_arg args) (\<lambda>(a, as). bind_cmd (lift_exn (float_of_text a)) (\<lambda>v. Inr (v, as)))"

definition read_source :: "sources \<Rightarrow> unicode \<Rightarrow> cmd_error + unicode" where
  "read_source env filename =
     (if filename = pts ''-'' then Inr (src_stdin env)
      else case src_files env filename of Some content \<Rightarrow> Inr content | None \<Rightarrow> Inl (NoSuchFile filename))"

definition delay_pause :: "rat option \<Rightarrow> command list" where
  "delay_pause delay = (case delay of None \<Rightarrow> [] | Some d \<Rightarrow> [Pause (Fin d)])"

definition type_text :: "rat option \<Rightarrow> unicode \<Rightarrow> command list" where
  "type_text delay content = concat (map (\<lambda>c. KeyPress (if c = 45 then pts ''minus'' else [c]) # delay_pause delay) content)"

definition type_file :: "rat option \<Rightarrow> unicode \<Rightarrow> command list" where
  "type_file delay content =
     concat (map (\<lambda>c. if c = 13 then []
       else KeyPress (if c = 10 then pts ''enter'' else if c = 9 then pts ''tab'' else if c = 45 then pts ''minus'' else [c])
         # delay_pause delay) content)"

text \<open>\<open>str.replace("\r\n", "\n")\<close>.\<close>

fun unix_newlines :: "unicode \<Rightarrow> unicode" where
  "unix_newlines (c # d # cs) = (if c = 13 \<and> d = 10 then 10 # unix_newlines cs else c # unix_newlines (d # cs))"
| "unix_newlines cs = cs"

definition float_sign :: "pyfloat \<Rightarrow> pyfloat \<Rightarrow> pyfloat" where
  "float_sign v w = (case w of Fin b \<Rightarrow> if b > 0 then v else if v = PosInf then NegInf else PosInf | _ \<Rightarrow> NaN)"

text \<open>Division of floats, the divisor not being 0.\<close>

definition float_div :: "pyfloat \<Rightarrow> pyfloat \<Rightarrow> pyfloat" where
  "float_div v w =
     (case v of
        NaN \<Rightarrow> NaN
      | Fin a \<Rightarrow> (case w of Fin b \<Rightarrow> Fin (a / b) | NaN \<Rightarrow> NaN | _ \<Rightarrow> Fin 0)
      | _ \<Rightarrow> float_sign v w)"

definition scale_pause :: "pyfloat \<Rightarrow> pyfloat \<Rightarrow> cmd_error + pyfloat" where
  "scale_pause warp v = (if warp = Fin 0 then Inl ZeroDivision else Inr (float_div v warp))"

abbreviation is_cmd :: "unicode \<Rightarrow> string list \<Rightarrow> bool" where
  "is_cmd cmd names \<equiv> cmd \<in> pts ` set names"

text \<open>One round of the loop: the callbacks queued and the arguments left.\<close>

definition command_step ::
  "sources \<Rightarrow> rat option \<Rightarrow> pyfloat \<Rightarrow> bool \<Rightarrow> unicode \<Rightarrow> unicode list \<Rightarrow> cmd_error + command list \<times> unicode list" where
  "command_step env delay warp incremental cmd args =
     (if is_cmd cmd [''key''] then bind_cmd (pop_arg args) (\<lambda>(k, as). Inr ([KeyPress k], as))
      else if is_cmd cmd [''kdown'', ''keydown''] then bind_cmd (pop_arg args) (\<lambda>(k, as). Inr ([KeyDown k], as))
      else if is_cmd cmd [''kup'', ''keyup''] then bind_cmd (pop_arg args) (\<lambda>(k, as). Inr ([KeyUp k], as))
      else if is_cmd cmd [''move'', ''mousemove''] then
        bind_cmd (pop_int args) (\<lambda>(x, as). bind_cmd (pop_int as) (\<lambda>(y, as). Inr ([MouseMove x y], as)))
      else if is_cmd cmd [''click''] then bind_cmd (pop_int args) (\<lambda>(b, as). Inr ([MousePress b], as))
      else if is_cmd cmd [''mdown'', ''mousedown''] then bind_cmd (pop_int args) (\<lambda>(b, as). Inr ([MouseDown b], as))
      else if is_cmd cmd [''mup'', ''mouseup''] then bind_cmd (pop_int args) (\<lambda>(b, as). Inr ([MouseUp b], as))
      else if is_cmd cmd [''type''] then bind_cmd (pop_arg args) (\<lambda>(t, as). Inr (type_text delay t, as))
      else if is_cmd cmd [''typefile''] then
        bind_cmd (pop_arg args) (\<lambda>(f, as). bind_cmd (read_source env f) (\<lambda>t. Inr (type_file delay t, as)))
      else if is_cmd cmd [''pastefile''] then
        bind_cmd (pop_arg args) (\<lambda>(f, as). bind_cmd (read_source env f) (\<lambda>t. Inr ([Paste (unix_newlines t)], as)))
      else if is_cmd cmd [''capture''] then
        bind_cmd (pop_arg args) (\<lambda>(f, as).
          if image_format f \<notin> set SUPPORTED_FORMATS then Inl (CommandParseError f)
          else Inr ([CaptureScreen f incremental], as))
      else if is_cmd cmd [''expect''] then
        bind_cmd (pop_arg args) (\<lambda>(f, as). bind_cmd (pop_float as) (\<lambda>(rms, as). Inr ([ExpectScreen f rms], as)))
      else if is_cmd cmd [''rcapture''] then
        bind_cmd (pop_arg args) (\<lambda>(f, as). bind_cmd (pop_int as) (\<lambda>(x, as). bind_cmd (pop_int as) (\<lambda>(y, as).
          bind_cmd (pop_int as) (\<lambda>(w, as). bind_cmd (pop_int as) (\<lambda>(h, as).
            if image_format f \<notin> set SUPPORTED_FORMATS then Inl (CommandParseError f)
            else Inr ([CaptureRegion f x y w h], as))))))
      else if is_cmd cmd [''rexpect''] then
        bind_cmd (pop_arg args) (\<lambda>(f, as). bind_cmd (pop_int as) (\<lambda>(x, as). bind_cmd (pop_int as) (\<lambda>(y, as).
          bind_cmd (pop_float as) (\<lambda>(rms, as). Inr ([ExpectRegion f x y rms], as)))))
      else if is_cmd cmd [''pause'', ''sleep''] then
        bind_cmd (pop_float args) (\<lambda>(v, as). bind_cmd (scale_pause warp v) (\<lambda>d. Inr ([Pause d], as)))
      else if is_substring cmd (pts ''drag'') then
        bind_cmd (pop_int args) (\<lambda>(x, as). bind_cmd (pop_int as) (\<lambda>(y, as). Inr ([MouseDrag x y], as)))
      else case src_files env cmd of
        Some content \<Rightarrow> bind_cmd (lift_exn (shlex_tokens content)) (\<lambda>ts. Inr ([], ts @ args))
      | None \<Rightarrow> Inl (CommandParseError cmd))"

partial_function (option) build_loop ::
  "sources \<Rightarrow> rat option \<Rightarrow> pyfloat \<Rightarrow> bool \<Rightarrow> command list \<Rightarrow> unicode list \<Rightarrow> (cmd_error + command list) option" where
  "build_loop env delay warp incremental queued args =
     (case args of
        [] \<Rightarrow> Some (Inr queued)
      | cmd # as \<Rightarrow>
          (case command_step env delay warp incremental cmd as of
             Inl e \<Rightarrow> Some (Inl e)
           | Inr (cs, as) \<Rightarrow>
               build_loop env delay warp incremental
                 (queued @ cs @ (if as \<noteq> [] then delay_pause delay else [])) as))"

declare build_loop.simps [code]

text \<open>\<open>delay\<close> in milliseconds; 0 is no delay.\<close>

definition build_command_list ::
  "sources \<Rightarrow> int option \<Rightarrow> pyfloat \<Rightarrow> bool \<Rightarrow> unicode list \<Rightarrow> (cmd_error + command list) option" where
  "build_command_list env delay warp incremental args =
     (let delay = (case delay of None \<Rightarrow> None | Some d \<Rightarrow> if d = 0 then None else Some (of_int d / 1000))
      in build_loop env delay warp incremental [] args)"

lemma pts_eq [simp]: "pts a = pts b \<longleftrightarrow> a = b"
proof -
  have "inj (of_char :: char \<Rightarrow> int)" by (rule inj_of_char)
  then show ?thesis by (simp add: pts_def inj_map_eq_map)
qed

lemma is_cmd_pts [simp]: "is_cmd (pts c) names \<longleftrightarrow> c \<in> set names"
  by auto

lemma build_step:
  "command_step env d w inc cmd as = Inr (cs, as') \<Longrightarrow> build_loop env d w inc q (cmd # as) =
     build_loop env d w inc (q @ cs @ (if as' \<noteq> [] then delay_pause d else [])) as'"
  by (subst build_loop.simps) simp

section \<open>Running the queue\<close>

text \<open>What the queued callbacks do to the client; those that wait for the screen are not among them.\<close>

fun run_command :: "command \<Rightarrow> 'a vclient \<Rightarrow> 'a vclient outcome option" where
  "run_command (KeyPress k) s = Some (keyPress k s)"
| "run_command (KeyDown k) s = Some (keyDown k s)"
| "run_command (KeyUp k) s = Some (keyUp k s)"
| "run_command (MouseMove x y) s = Some (mouseMove x y s)"
| "run_command (MousePress b) s = Some (mousePress b s)"
| "run_command (MouseDown b) s = Some (mouseDown b s)"
| "run_command (MouseUp b) s = Some (mouseUp b s)"
| "run_command (MouseDrag x y) s = Some (mouseDrag x y 1 s)"
| "run_command (Paste t) s = Some (paste t s)"
| "run_command (Pause d) s = Some (Ret s)"
| "run_command _ s = None"

fun run_commands :: "command list \<Rightarrow> 'a vclient \<Rightarrow> 'a vclient outcome option" where
  "run_commands [] s = Some (Ret s)"
| "run_commands (c # cs) s =
     (case run_command c s of
        None \<Rightarrow> None
      | Some (Raise e t) \<Rightarrow> Some (Raise e t)
      | Some (Ret t) \<Rightarrow> run_commands cs t)"

lemma run_commands_append:
  "run_commands cs s = Some (Ret t) \<Longrightarrow> run_commands (cs @ ds) s = run_commands ds t"
  by (induction cs arbitrary: s) (auto split: option.splits outcome.splits)

section \<open>Names of keys\<close>

lemma key_code_char [simp]: "key_code [c] = Inr c"
  by (simp add: key_code_def keymap_get_char)

lemma decode_char: "decodeKey False [c] = Inr [c]"
  by (simp add: decodeKey_def)

lemma decode_minus: "decodeKey False (pts ''minus'') = Inr [45]"
  by code_simp

text \<open>The name the proxy records for a keysym decodes to it.\<close>

lemma decode_key_name: "decodeKey False (key_name v) = Inr [v]"
proof (cases "reverse_get v")
  case None
  then show ?thesis by (simp add: key_name_def decode_char)
next
  case (Some n)
  note n = reverse_name [OF Some]
  have "45 \<notin> set (pts n)" using n(4) [of 45] by auto
  moreover have "length (pts n) \<noteq> 1" using n(3) by (simp add: pts_def)
  ultimately show ?thesis using Some n(1,2) by (simp add: key_name_def decodeKey_def key_code_def)
qed

section \<open>Typing\<close>

lemma press_char:
  assumes "u32 c" "\<not> cl_force_caps s" "decodeKey False k = Inr [c]"
  shows "keyPress k s = Ret (s\<lparr>trace := trace s @ [Write (msg_bytes (MsgKey True c)), Write (msg_bytes (MsgKey False c))]\<rparr>)"
  using assms by (simp add: keyPress_def key_events_writes del: msg_bytes.simps key_events.simps)

lemma run_delay: "run_commands (delay_pause d @ cs) s = run_commands cs s"
  by (simp add: delay_pause_def split: option.split)

text \<open>\<open>vncdo type TEXT\<close> types the text: whatever its characters and the delay between them, one key
  press and one release of each character go out, in order.\<close>

lemma type_sends_text:
  assumes "list_all u32 chars" "\<not> cl_force_caps s"
  shows "\<exists>cs t. build_command_list env delay warp inc [pts ''type'', chars] = Some (Inr cs) \<and>
    run_commands cs s = Some (Ret t) \<and>
    trace t = trace s @ concat (map (\<lambda>c. [Write (msg_bytes (MsgKey True c)), Write (msg_bytes (MsgKey False c))]) chars)"
proof -
  have run: "\<exists>t. run_commands (type_text d chars) s = Some (Ret t) \<and>
    trace t = trace s @ concat (map (\<lambda>c. [Write (msg_bytes (MsgKey True c)), Write (msg_bytes (MsgKey False c))]) chars)" for d
    using assms
  proof (induction chars arbitrary: s)
    case (Cons c chars)
    let ?k = "if c = 45 then pts ''minus'' else [c]"
    let ?u = "s\<lparr>trace := trace s @ [Write (msg_bytes (MsgKey True c)), Write (msg_bytes (MsgKey False c))]\<rparr>"
    have "decodeKey False ?k = Inr [c]" by (simp add: decode_char decode_minus)
    with Cons.prems have "keyPress ?k s = Ret ?u" by (intro press_char) simp_all
    with Cons.IH [of ?u] Cons.prems show ?case
      by (simp add: type_text_def run_delay del: msg_bytes.simps)
  qed (simp add: type_text_def)
  have "\<exists>d. build_command_list env delay warp inc [pts ''type'', chars] = Some (Inr (type_text d chars))"
    by (simp add: build_command_list_def build_loop.simps command_step_def pop_arg_def bind_cmd_def pts_def) blast
  with run show ?thesis by blast
qed

definition no_sources :: sources where
  "no_sources = \<lparr>src_files = Map.empty, src_stdin = []\<rparr>"


section \<open>A recorded session\<close>

lemma digit_code_point: "d < 10 \<Longrightarrow> (of_char (char_of (48 + d) :: char) :: int) = 48 + int d"
proof -
  assume "d < 10"
  moreover have "(of_char (char_of (48 + d) :: char) :: int) = int ((48 + d) mod 256)" by (metis of_char_of of_nat_of_char)
  ultimately show ?thesis by simp
qed

lemma scan_decimal:
  "\<exists>k > 0. scan_digits p v n (pts (show_nat m) @ rest) = scan_digits True (v * 10 ^ k + int m) (n + k) rest"
proof (induction m arbitrary: rest rule: show_nat.induct)
  case (1 m)
  note digit = digit_code_point
  show ?case
  proof (cases "m < 10")
    case True
    then show ?thesis
      using digit [of m] by (intro exI [of _ 1]) (simp add: show_nat.simps [of m] pts_def text_digit_def)
  next
    case False
    let ?c = "48 + int (m mod 10)"
    have "pts (show_nat m) @ rest = pts (show_nat (m div 10)) @ ?c # rest"
      using False digit [of "m mod 10"] by (simp add: show_nat.simps [of m] pts_def)
    moreover from "1.IH" [OF False, of "?c # rest"] obtain k where k: "0 < k"
      "scan_digits p v n (pts (show_nat (m div 10)) @ ?c # rest) =
        scan_digits True (v * 10 ^ k + int (m div 10)) (n + k) (?c # rest)" by blast
    moreover have "scan_digits True w i (?c # rest) = scan_digits True (w * 10 + int (m mod 10)) (Suc i) rest" for w i
    proof -
      have "m mod 10 \<le> 9" by presburger
      then have "text_digit ?c" unfolding text_digit_def by linarith
      then show ?thesis by simp
    qed
    moreover have "int (m div 10) * 10 + int (m mod 10) = int m" by (metis div_mult_mod_eq of_nat_add of_nat_mult of_nat_numeral)
    then have "(v * 10 ^ k + int (m div 10)) * 10 + int (m mod 10) = v * 10 ^ Suc k + int m" by (simp add: algebra_simps)
    ultimately show ?thesis by (intro exI [of _ "Suc k"]) (simp only: zero_less_Suc add_Suc_right simp_thms)
  qed
qed

lemma show_nat_digits: "list_all text_digit (pts (show_nat m))"
proof (induction m rule: show_nat.induct)
  case (1 m)
  have "text_digit (of_char (char_of (48 + d) :: char))" if "d < 10" for d :: nat
    using that by (simp add: text_digit_def digit_code_point)
  with 1 show ?case by (subst show_nat.simps) (auto simp: pts_def)
qed

lemma show_nat_head: "\<exists>c cs. pts (show_nat m) = c # cs \<and> text_digit c"
proof -
  have "show_nat m \<noteq> []" by (subst show_nat.simps) simp
  then show ?thesis using show_nat_digits [of m] by (cases "pts (show_nat m)") (auto simp: pts_def)
qed

lemma strip_text_plain:
  "ds \<noteq> [] \<Longrightarrow> \<not> text_space (hd ds) \<Longrightarrow> \<not> text_space (last ds) \<Longrightarrow> strip_text ds = ds"
proof -
  assume ds: "ds \<noteq> []" "\<not> text_space (hd ds)" "\<not> text_space (last ds)"
  then have "dropWhile text_space ds = ds" "dropWhile text_space (rev ds) = rev ds"
    by (simp_all add: dropWhile_eq_self_iff hd_rev)
  then show ?thesis by (simp add: strip_text_def)
qed

lemma four_digits:
  assumes "m < 10000"
  shows "int m = ((int (m div 1000 mod 10) * 10 + int (m div 100 mod 10)) * 10 + int (m div 10 mod 10)) * 10 + int (m mod 10)"
proof -
  have "m div 10 div 10 = m div 100" "m div 100 div 10 = m div 1000" by (simp_all add: div_mult2_eq)
  with div_mult_mod_eq [of m 10] div_mult_mod_eq [of "m div 10" 10] div_mult_mod_eq [of "m div 100" 10]
  have "m = ((m div 1000 * 10 + m div 100 mod 10) * 10 + m div 10 mod 10) * 10 + m mod 10" by simp
  moreover have "m div 1000 mod 10 = m div 1000" using assms by (simp add: div_less_iff_less_mult)
  ultimately have "m = ((m div 1000 mod 10 * 10 + m div 100 mod 10) * 10 + m div 10 mod 10) * 10 + m mod 10" by simp
  then show ?thesis by (metis of_nat_add of_nat_mult of_nat_numeral)
qed

text \<open>The duration in a recorded line is read as the time that passed.\<close>

lemma sign_strip:
  assumes "ds = c # cs" "text_digit c" "text_digit (last ds)"
  shows "split_sign (strip_text ((if neg then [45] else []) @ ds)) = (neg, ds)"
proof -
  have digit: "\<not> text_space d" "d \<noteq> 45" "d \<noteq> 43" if "text_digit d" for d
    using that by (auto simp: text_digit_def text_space_def)
  have "strip_text ((if neg then [45] else []) @ ds) = (if neg then [45] else []) @ ds"
    using assms digit by (intro strip_text_plain) (auto simp: text_space_def [of 45])
  with assms(1) digit(2,3) [OF assms(2)] show ?thesis by (simp add: split_sign_def)
qed

lemma float_decimal:
  assumes "m < 10000"
  shows "float_of_text ((if neg then [45] else []) @ pts (show_nat a) @ 46 # map (\<lambda>k. 48 + int (m div k mod 10)) [1000, 100, 10, 1]) =
    Inr (Fin (if neg then - (of_nat a + of_nat m / 10000) else of_nat a + of_nat m / 10000))"
proof -
  let ?frac = "map (\<lambda>k. 48 + int (m div k mod 10)) [1000, 100, 10, 1]"
  define ds where "ds = pts (show_nat a) @ 46 # ?frac"
  obtain c cs where c: "pts (show_nat a) = c # cs" "text_digit c" using show_nat_head by blast
  have digits: "text_digit (48 + int (d mod 10))" for d by (simp add: text_digit_def)
  have ds: "ds = c # (cs @ 46 # ?frac)" "text_digit (last ds)"
    unfolding ds_def c(1) using digits [of m] by simp_all
  note split = sign_strip [OF ds(1) c(2) ds(2)]
  obtain k where k: "0 < k" "scan_digits False 0 0 ds = scan_digits True (0 * 10 ^ k + int a) (0 + k) (46 # ?frac)"
    using scan_decimal [of False 0 0 a "46 # ?frac"] unfolding ds_def by blast
  then have ip: "scan_digits False 0 0 ds = (int a, k, 46 # ?frac)" by (simp add: text_digit_def)
  have fp: "scan_digits False 0 0 ?frac = (int m, 4, [])" using digits by (subst four_digits [OF assms]) simp
  have lower: "lower_ascii ds \<noteq> pts ''inf''" "lower_ascii ds \<noteq> pts ''infinity''" "lower_ascii ds \<noteq> pts ''nan''"
    unfolding ds(1) using c(2) by (auto simp: lower_ascii_def pts_def text_digit_def)
  show ?thesis
    unfolding ds_def [symmetric] float_of_text_def split Let_def prod.case ip
    using k(1) fp lower by (simp add: exponent_of_def)
qed

lemma float_ticks: "float_of_text (show_ticks n) = Inr (Fin (of_int n / 10000))"
proof -
  let ?a = "nat \<bar>n\<bar>"
  have "(of_int \<bar>n\<bar> :: rat) = of_nat ?a" by (simp add: of_nat_nat)
  also have "\<dots> = of_nat (?a div 10000 * 10000 + ?a mod 10000)" by (simp only: div_mult_mod_eq)
  also have "\<dots> = of_nat (?a div 10000) * 10000 + of_nat (?a mod 10000)" by (simp only: of_nat_add of_nat_mult of_nat_numeral)
  finally have sum: "(of_int \<bar>n\<bar> :: rat) = of_nat (?a div 10000) * 10000 + of_nat (?a mod 10000)" .
  have v: "of_nat (?a div 10000) + of_nat (?a mod 10000) / 10000 = (of_int \<bar>n\<bar> / 10000 :: rat)"
    unfolding sum by (simp add: add_divide_distrib del: of_nat_add)
  have "show_ticks n = (if n < 0 then [45] else []) @ pts (show_nat (?a div 10000)) @
      46 # map (\<lambda>k. 48 + int (?a mod 10000 div k mod 10)) [1000, 100, 10, 1]"
    unfolding show_ticks_def Let_def by (simp only: append.simps)
  with float_decimal [of "?a mod 10000" "n < 0" "?a div 10000"]
  have "float_of_text (show_ticks n) = Inr (Fin (if n < 0 then - (of_int \<bar>n\<bar> / 10000) else of_int \<bar>n\<bar> / 10000))"
    unfolding v by (simp only: mod_less_divisor zero_less_numeral simp_thms)
  then show ?thesis by (cases "n < 0") simp_all
qed

fun input_tokens :: "int \<Rightarrow> key_input list \<Rightarrow> unicode list list" where
  "input_tokens prev [] = []"
| "input_tokens prev ((now, k, down) # is) = key_tokens (now - prev) k down # input_tokens now is"

definition log_line :: "unicode list \<Rightarrow> unicode" where
  "log_line ws = concat (map (\<lambda>w. shlex_quote w @ [32]) ws) @ [10]"

lemma record_keys_log:
  "list_all key_ok is \<Longrightarrow> \<exists>r'. record_keys is r = Ret r' \<and>
     rec_out r' = rec_out r @ concat (map log_line (input_tokens (rec_last r) is))"
proof (induction "is" arbitrary: r)
  case (Cons i "is")
  obtain now k down where i: "i = (now, k, down)" by (cases i) auto
  with Cons.prems have k: "0 \<le> k" "k < 0x110000" and ok: "list_all key_ok is" by (auto simp: key_ok_def [of "(now, k, down)"])
  from record_key_line [OF k, of now down r] Cons.IH [OF ok] show ?case
    by (force simp: i log_line_def)
qed simp

lemma lex_lines: "lex LStart q tok (concat (map log_line wss)) = Inr (concat wss)"
proof (induction wss arbitrary: q tok)
  case (Cons ws wss)
  have "lex LStart q tok (concat (map (\<lambda>w. shlex_quote w @ [32]) us) @ 10 # rest) =
      bind_sum (lex LStart False [] rest) (\<lambda>ts. Inr (us @ ts))" for us rest q tok
  proof (induction us arbitrary: q tok)
    case Nil
    then show ?case by (cases "lex LStart False [] rest") (simp_all add: is_blank_def)
  next
    case (Cons u us)
    then show ?case
      using lex_quote [of 32 q tok u] by (cases "lex LStart False [] rest") (simp_all add: is_blank_def)
  qed
  with Cons.IH show ?case by (simp add: log_line_def)
qed simp

text \<open>The queue without its pauses, which only take time.\<close>

fun takes_input :: "command \<Rightarrow> bool" where
  "takes_input (Pause d) \<longleftrightarrow> False"
| "takes_input _ \<longleftrightarrow> True"

lemma run_without_pauses: "run_commands (filter takes_input cs) s = run_commands cs s"
proof (induction cs arbitrary: s)
  case (Cons c cs)
  show ?case
  proof (cases "takes_input c")
    case False
    then obtain d where "c = Pause d" by (cases c) auto
    with Cons show ?thesis by simp
  qed (simp add: Cons split: option.split outcome.split)
qed simp

lemma delay_no_input [simp]: "filter takes_input (delay_pause d) = []"
  by (simp add: delay_pause_def split: option.split)

definition key_call :: "key_input \<Rightarrow> command" where
  "key_call = (\<lambda>(now, k, down). if down then KeyDown (key_name k) else KeyUp (key_name k))"

lemma key_call_input [simp]: "takes_input (key_call i)"
  by (simp add: key_call_def split: prod.split)

lemma build_key:
  assumes "warp \<noteq> Fin 0"
  shows "\<exists>cs. build_loop env d warp inc queued (key_tokens dt k down @ as) = build_loop env d warp inc (queued @ cs) as \<and>
    filter takes_input cs = [key_call (now, k, down)]"
proof -
  have pause: "command_step env d warp inc (pts ''pause'') (show_ticks dt # bs) = Inr ([Pause (float_div (Fin (of_int dt / 10000)) warp)], bs)"
    for bs
    unfolding command_step_def is_cmd_pts using assms
    by (simp add: pop_float_def pop_arg_def bind_cmd_def float_ticks lift_exn_def scale_pause_def)
  have down: "command_step env d warp inc (pts ''keydown'') (n # bs) = Inr ([KeyDown n], bs)"
    "command_step env d warp inc (pts ''keyup'') (n # bs) = Inr ([KeyUp n], bs)" for n bs
    unfolding command_step_def is_cmd_pts by (simp_all add: pop_arg_def bind_cmd_def)
  let ?cs = "[Pause (float_div (Fin (of_int dt / 10000)) warp)] @ delay_pause d @ [key_call (now, k, down)] @ (if as \<noteq> [] then delay_pause d else [])"
  have "build_loop env d warp inc queued (key_tokens dt k down @ as) = build_loop env d warp inc (queued @ ?cs) as"
    by (cases down) (simp_all add: key_tokens_def key_call_def build_step [OF pause] build_step [OF down(1)] build_step [OF down(2)])
  then show ?thesis by (intro exI [of _ ?cs]) simp
qed

lemma build_keys:
  assumes "warp \<noteq> Fin 0"
  shows "\<exists>cs. build_loop env d warp inc queued (concat (input_tokens prev is)) = Some (Inr (queued @ cs)) \<and>
    filter takes_input cs = map key_call is"
proof (induction prev "is" arbitrary: queued rule: input_tokens.induct)
  case (2 prev now k down "is")
  obtain cs where cs: "build_loop env d warp inc queued (concat (input_tokens prev ((now, k, down) # is))) =
      build_loop env d warp inc (queued @ cs) (concat (input_tokens now is))" "filter takes_input cs = [key_call (now, k, down)]"
    using build_key [OF assms, of env d inc queued "now - prev" k down "concat (input_tokens now is)" now] by auto
  from "2.IH" [of "queued @ cs"] obtain ds where "build_loop env d warp inc (queued @ cs) (concat (input_tokens now is)) =
      Some (Inr (queued @ cs @ ds))" "filter takes_input ds = map key_call is" by auto
  with cs show ?case by (intro exI [of _ "cs @ ds"]) simp
qed (simp add: build_loop.simps)

lemma run_keys:
  assumes "list_all key_ok is" "\<not> cl_force_caps s"
  shows "\<exists>t. run_commands (map key_call is) s = Some (Ret t) \<and>
    trace t = trace s @ map (\<lambda>(now, k, down). Write (msg_bytes (MsgKey down k))) is"
  using assms
proof (induction "is" arbitrary: s)
  case (Cons i "is")
  obtain now k down where i: "i = (now, k, down)" by (cases i) auto
  let ?t = "s\<lparr>trace := trace s @ [Write (msg_bytes (MsgKey down k))]\<rparr>"
  have "u32 k" using Cons.prems by (simp add: key_ok_def i)
  then have "run_commands [key_call i] s = Some (Ret ?t)"
    using Cons.prems(2) by (simp add: key_call_def keyDown_def keyUp_def decode_key_name key_events_writes i
        del: msg_bytes.simps key_events.simps)
  from run_commands_append [OF this, of "map key_call is"] Cons.IH [of ?t] Cons.prems show ?case
    by (simp add: i del: msg_bytes.simps)
qed simp

text \<open>A word that is not taken for a command.\<close>

definition script_name :: "unicode \<Rightarrow> bool" where
  "script_name w \<longleftrightarrow> \<not> is_substring w (pts ''drag'') \<and>
     \<not> is_cmd w [''key'', ''kdown'', ''keydown'', ''kup'', ''keyup'', ''move'', ''mousemove'', ''click'', ''mdown'',
       ''mousedown'', ''mup'', ''mouseup'', ''type'', ''typefile'', ''pastefile'', ''capture'', ''expect'', ''rcapture'',
       ''rexpect'', ''pause'', ''sleep'']"

lemma script_step:
  assumes "script_name w" "src_files env w = Some content" "shlex_tokens content = Inr ts"
  shows "command_step env d warp inc w args = Inr ([], ts @ args)"
  using assms by (simp add: script_name_def command_step_def lift_exn_def bind_cmd_def)

text \<open>What the proxy recorded, given to \<open>vncdo\<close> as a script, sends the same key events in the same order,
  whatever the delay between commands and the factor the pauses are scaled by.\<close>

lemma recorded_keys_replay:
  assumes "list_all key_ok is" "record_keys is r = Ret r'" "rec_out r = []"
    and "script_name w" "src_files env w = Some (rec_out r')" "warp \<noteq> Fin 0"
  shows "\<exists>cs. build_command_list env delay warp inc [w] = Some (Inr cs) \<and> filter takes_input cs = map key_call is"
proof -
  have "rec_out r' = concat (map log_line (input_tokens (rec_last r) is))"
    using record_keys_log [OF assms(1), of r] assms(2,3) by simp
  then have lexed: "shlex_tokens (rec_out r') = Inr (concat (input_tokens (rec_last r) is))"
    by (simp add: shlex_tokens_def lex_lines)
  let ?d = "case delay of None \<Rightarrow> None | Some d \<Rightarrow> if d = 0 then None else Some (of_int d / 1000)"
  let ?q = "if concat (input_tokens (rec_last r) is) \<noteq> [] then delay_pause ?d else []"
  from build_step [OF script_step [OF assms(4,5) lexed], of ?d warp inc "[]" "[]"]
  have "build_command_list env delay warp inc [w] = build_loop env ?d warp inc ?q (concat (input_tokens (rec_last r) is))"
    by (simp add: build_command_list_def)
  with build_keys [OF assms(6), of env ?d inc ?q "rec_last r" "is"] obtain cs where
    "build_command_list env delay warp inc [w] = Some (Inr (?q @ cs))" "filter takes_input cs = map key_call is" by auto
  then show ?thesis by (intro exI [of _ "?q @ cs"]) simp
qed

end
