(* ===== verification/Client_Screen.thy ===== *)
theory Client_Screen
  imports Command_Line Rfb_Protocol
begin

text \<open>
  \<open>client.VNCDoToolClient\<close>: its side of the protocol's callbacks (pixel format, encodings,
  password, failures), the screen it keeps, the cursor, and the methods that wait for the screen
  (\<open>refreshScreen\<close>, \<open>captureScreen\<close>, \<open>captureRegion\<close>, \<open>expectScreen\<close>, \<open>expectRegion\<close>); with
  \<open>VNCDoToolFactory\<close>'s \<open>deferred\<close> and the filter of \<open>VMWareClient\<close>.

  Images are Pillow's: the functions the client calls are the fields of the parameter \<open>pillow\<close>,
  and \<open>pillow_laws\<close> states what their documentation promises. A pending \<open>Deferred\<close> is the callback
  the client has put on it; when it fires, its outcome goes to \<open>sc_log\<close>, and an exception in it
  does not reach the receive loop. \<open>is\<close> on a pixel format, a frozen dataclass, is equality.
\<close>

section \<open>Pillow\<close>

type_synonym box = "int \<times> int \<times> int \<times> int"

record 'i pillow =
  im_frombytes :: "string \<Rightarrow> int \<times> int \<Rightarrow> bytes \<Rightarrow> string option \<Rightarrow> exn + 'i"
  im_new :: "int \<times> int \<Rightarrow> 'i"
  im_paste :: "'i \<Rightarrow> 'i \<Rightarrow> int \<times> int \<Rightarrow> 'i option \<Rightarrow> exn + 'i"
  im_size :: "'i \<Rightarrow> int \<times> int"
  im_crop :: "'i \<Rightarrow> box \<Rightarrow> 'i"
  im_histogram :: "'i \<Rightarrow> int list"
  im_open :: "unicode \<Rightarrow> exn + 'i"
  im_save :: "'i \<Rightarrow> unicode \<Rightarrow> string option \<Rightarrow> exn + unit"

section \<open>State\<close>

text \<open>What a pending \<open>Deferred\<close> does when it fires: nothing of the client's, \<open>_captureSave\<close> or
  \<open>_expectCompare\<close>.\<close>

datatype waiter =
    Refresh
  | Save unicode "box option" "string option"
  | Compare box pyfloat

datatype 'i screen_event = Refreshed | Saved unicode 'i | Matched box | WaitFailed exn

text \<open>\<open>VNCDoToolFactory.deferred\<close>, once it has fired.\<close>

datatype conn_failure = AuthenticationError | ConnProtocolError

datatype connected = Connected | ConnectFailed conn_failure

record 'i do_client = vnc_client +
  sc_requested :: "PixelFormat option"
  sc_image_mode :: string
  sc_raw_format :: "PixelFormat option"
  sc_raw_mode :: string
  sc_screen :: "'i option"
  sc_deferred :: "waiter option"
  sc_cursor :: "'i option"
  sc_cmask :: "'i option"
  sc_cfocus :: "(int \<times> int) option"
  sc_expected :: "int list"
  sc_log :: "'i screen_event list"
  fc_pseudocursor :: bool
  fc_nocursor :: bool
  fc_pseudodesktop :: bool
  fc_last_rect :: bool
  fc_qemu_extended_key :: bool
  fc_deferred :: "connected option"

type_synonym ('i, 'a) dclient = "('i, 'a) do_client_scheme"

text \<open>The protocol a \<open>VNCDoToolFactory\<close> builds, with the class's defaults.\<close>

definition new_do_client :: "string option \<Rightarrow> string option \<Rightarrow> PixelFormat option \<Rightarrow> 'i do_client" where
  "new_do_client uname passwd requested =
     vnc_client.extend (new_vnc_client uname passwd False)
       (do_client.fields requested (case raw_mode default_PixelFormat of Inr m \<Rightarrow> m | Inl _ \<Rightarrow> []) None [] None None
          None None None [] [] False False True True True None)"

section \<open>The factory\<close>

text \<open>A \<open>Deferred\<close> fires once; a second \<open>callback\<close> or \<open>errback\<close> raises.\<close>

definition clientConnectionFailed :: "conn_failure \<Rightarrow> ('i, 'a) dclient \<Rightarrow> ('i, 'a) dclient outcome" where
  "clientConnectionFailed f s =
     (if fc_deferred s \<noteq> None then Raise AlreadyCalledError s
      else Ret (s\<lparr>fc_deferred := Some (ConnectFailed f)\<rparr>))"

definition clientConnectionMade :: "('i, 'a) dclient \<Rightarrow> ('i, 'a) dclient outcome" where
  "clientConnectionMade s =
     (if fc_deferred s \<noteq> None then Raise AlreadyCalledError s
      else Ret (s\<lparr>fc_deferred := Some Connected\<rparr>))"

definition do_vncRequestPassword :: "env \<Rightarrow> ('i, 'a) dclient \<Rightarrow> ('i, 'a) dclient outcome" where
  "do_vncRequestPassword env s =
     (case factory_password s of
        None \<Rightarrow> clientConnectionFailed AuthenticationError (loseConnection s)
      | Some password \<Rightarrow> sendPassword env password s)"

definition do_vncAuthFailed :: "('i, 'a) dclient \<Rightarrow> ('i, 'a) dclient outcome" where
  "do_vncAuthFailed s = clientConnectionFailed AuthenticationError s"

definition do_vncProtocolError :: "('i, 'a) dclient \<Rightarrow> ('i, 'a) dclient outcome" where
  "do_vncProtocolError s = clientConnectionFailed ConnProtocolError s"

section \<open>The pixel format\<close>

definition named_format :: "string \<Rightarrow> exn + PixelFormat" where
  "named_format name = (case map_of PIXEL_FORMATS name of None \<Rightarrow> Inl KeyError | Some pf \<Rightarrow> Inr pf)"

definition rawModeFor :: "PixelFormat \<Rightarrow> ('i, 'a) dclient \<Rightarrow> (exn + string) \<times> ('i, 'a) dclient" where
  "rawModeFor pf s =
     (if sc_raw_format s \<noteq> Some pf then
        let s = s\<lparr>sc_raw_format := Some pf\<rparr> in
        (case raw_mode pf of
           Inl e \<Rightarrow> (Inl e, s)
         | Inr mode \<Rightarrow> (Inr mode, s\<lparr>sc_raw_mode := mode\<rparr>))
      else (Inr (sc_raw_mode s), s))"

definition request_format :: "PixelFormat \<Rightarrow> ('i, 'a) dclient \<Rightarrow> ('i, 'a) dclient outcome" where
  "request_format pf s =
     (case raw_mode pf of
        Inl e \<Rightarrow>
          if e = UnsupportedPixelFormat
          then and_then (do_vncProtocolError s) (\<lambda>s. Ret (loseConnection s))
          else Raise e s
      | Inr mode \<Rightarrow> and_then (setPixelFormat pf s) (\<lambda>s. Ret (s\<lparr>sc_image_mode := mode\<rparr>)))"

definition setImageMode :: "('i, 'a) dclient \<Rightarrow> ('i, 'a) dclient outcome" where
  "setImageMode s =
     (case sc_requested s of
        Some pf \<Rightarrow> request_format pf s
      | None \<Rightarrow>
          (case raw_mode (pixel_format s) of
             Inr mode \<Rightarrow> Ret (s\<lparr>sc_image_mode := mode\<rparr>)
           | Inl e \<Rightarrow>
               if e = UnsupportedPixelFormat then
                 with_value (named_format (if version_server s = (3, 889) then ''rgb565'' else ''rgbx8888'')) s
                   (\<lambda>pf. request_format pf s)
               else Raise e s))"

definition offered_encodings :: "('i, 'a) dclient \<Rightarrow> int list" where
  "offered_encodings s = [ENC_RAW]
     @ (if fc_pseudocursor s \<or> fc_nocursor s then [ENC_PSEUDO_CURSOR] else [])
     @ (if fc_pseudodesktop s then [ENC_PSEUDO_DESKTOP_SIZE] else [])
     @ (if fc_last_rect s then [ENC_PSEUDO_LAST_RECT] else [])
     @ (if fc_qemu_extended_key s then [ENC_PSEUDO_QEMU_EXTENDED_KEY_EVENT] else [])"

definition do_vncConnectionMade :: "('i, 'a) dclient \<Rightarrow> ('i, 'a) dclient outcome" where
  "do_vncConnectionMade s =
     and_then (setImageMode s) (\<lambda>s.
     and_then (setEncodings (offered_encodings s) s) clientConnectionMade)"

section \<open>The screen\<close>

definition drawCursor :: "'i pillow \<Rightarrow> ('i, 'a) dclient \<Rightarrow> ('i, 'a) dclient outcome" where
  "drawCursor P s =
     (case (sc_cursor s, sc_screen s) of
        (Some cursor, Some screen) \<Rightarrow>
          (case sc_cfocus s of
             None \<Rightarrow> Raise AttributeError s
           | Some (fx, fy) \<Rightarrow>
               with_value (im_paste P screen cursor (cl_x s - fx, cl_y s - fy) (sc_cmask s)) s
                 (\<lambda>screen. Ret (s\<lparr>sc_screen := Some screen\<rparr>)))
      | _ \<Rightarrow> Ret s)"

definition paste_update ::
  "'i pillow \<Rightarrow> 'i \<Rightarrow> int \<Rightarrow> int \<Rightarrow> int \<Rightarrow> int \<Rightarrow> ('i, 'a) dclient \<Rightarrow> ('i, 'a) dclient outcome" where
  "paste_update P update x y width height s =
     (case sc_screen s of
        None \<Rightarrow>
          let blank = im_new P (fb_width s, fb_height s); s = s\<lparr>sc_screen := Some blank\<rparr> in
          with_value (im_paste P blank update (x, y) None) s (\<lambda>screen. Ret (s\<lparr>sc_screen := Some screen\<rparr>))
      | Some screen \<Rightarrow>
          let size = im_size P screen in
          if fst size < x + width \<or> snd size < y + height then
            let new_screen = im_new P (max (x + width) (fst size), max (y + height) (snd size)) in
            with_value (im_paste P new_screen screen (0, 0) None) s (\<lambda>new_screen.
            with_value (im_paste P new_screen update (x, y) None) s (\<lambda>new_screen.
            Ret (s\<lparr>sc_screen := Some new_screen\<rparr>)))
          else
            with_value (im_paste P screen update (x, y) None) s (\<lambda>screen.
            Ret (s\<lparr>sc_screen := Some screen\<rparr>)))"

definition do_updateRectangle ::
  "'i pillow \<Rightarrow> int \<Rightarrow> int \<Rightarrow> int \<Rightarrow> int \<Rightarrow> bytes \<Rightarrow> PixelFormat \<Rightarrow> ('i, 'a) dclient \<Rightarrow> ('i, 'a) dclient outcome" where
  "do_updateRectangle P x y width height data pf s =
     (if data = [] then Ret s
      else case rawModeFor pf s of
        (Inl e, s) \<Rightarrow> Raise e s
      | (Inr mode, s) \<Rightarrow>
          with_value (im_frombytes P ''RGB'' (width, height) data (Some mode)) s (\<lambda>update.
          and_then (paste_update P update x y width height s) (drawCursor P)))"

definition do_updateCursor ::
  "'i pillow \<Rightarrow> int \<Rightarrow> int \<Rightarrow> int \<Rightarrow> int \<Rightarrow> bytes \<Rightarrow> bytes \<Rightarrow> ('i, 'a) dclient \<Rightarrow> ('i, 'a) dclient outcome" where
  "do_updateCursor P x y width height pixels bits s =
     (if fc_nocursor s then Ret s
      else
        let s = (if width = 0 \<or> height = 0 then s\<lparr>sc_cursor := None\<rparr> else s) in
        with_value (im_frombytes P ''RGB'' (width, height) pixels (Some (sc_image_mode s))) s (\<lambda>cursor.
        let s = s\<lparr>sc_cursor := Some cursor\<rparr> in
        with_value (im_frombytes P ''1'' (width, height) bits None) s (\<lambda>cmask.
        drawCursor P (s\<lparr>sc_cmask := Some cmask, sc_cfocus := Some (x, y)\<rparr>))))"

definition do_updateDesktopSize :: "'i pillow \<Rightarrow> int \<Rightarrow> int \<Rightarrow> ('i, 'a) dclient \<Rightarrow> ('i, 'a) dclient outcome" where
  "do_updateDesktopSize P width height s =
     (if \<not> (0 \<le> width \<and> width < 0x10000 \<and> 0 \<le> height \<and> height < 0x10000) then Raise ValueError s
      else
        let new_screen = im_new P (width, height) in
        case sc_screen s of
          None \<Rightarrow> Ret (s\<lparr>sc_screen := Some new_screen\<rparr>)
        | Some screen \<Rightarrow>
            with_value (im_paste P new_screen screen (0, 0) None) s (\<lambda>new_screen.
            Ret (s\<lparr>sc_screen := Some new_screen\<rparr>)))"

section \<open>Waiting for the screen\<close>

definition request_update :: "bool \<Rightarrow> 'a client \<Rightarrow> 'a client outcome" where
  "request_update incremental s = framebufferUpdateRequest 0 0 None None incremental s"

definition refreshScreen :: "bool \<Rightarrow> ('i, 'a) dclient \<Rightarrow> ('i, 'a) dclient outcome" where
  "refreshScreen incremental s = request_update incremental (s\<lparr>sc_deferred := Some Refresh\<rparr>)"

definition do_capture ::
  "unicode \<Rightarrow> bool \<Rightarrow> box option \<Rightarrow> string option \<Rightarrow> ('i, 'a) dclient \<Rightarrow> ('i, 'a) dclient outcome" where
  "do_capture fp incremental args fmt s =
     and_then (refreshScreen incremental s) (\<lambda>s. Ret (s\<lparr>sc_deferred := Some (Save fp args fmt)\<rparr>))"

definition captureScreen :: "unicode \<Rightarrow> bool \<Rightarrow> string option \<Rightarrow> ('i, 'a) dclient \<Rightarrow> ('i, 'a) dclient outcome" where
  "captureScreen fp incremental fmt s = do_capture fp incremental None fmt s"

definition captureRegion ::
  "unicode \<Rightarrow> int \<Rightarrow> int \<Rightarrow> int \<Rightarrow> int \<Rightarrow> bool \<Rightarrow> ('i, 'a) dclient \<Rightarrow> ('i, 'a) dclient outcome" where
  "captureRegion fp x y w h incremental s = do_capture fp incremental (Some (x, y, x + w, y + h)) None s"

definition log_event :: "'i screen_event \<Rightarrow> ('i, 'a) dclient \<Rightarrow> ('i, 'a) dclient" where
  "log_event e s = s\<lparr>sc_log := sc_log s @ [e]\<rparr>"

definition captureSave ::
  "'i pillow \<Rightarrow> unicode \<Rightarrow> box option \<Rightarrow> string option \<Rightarrow> ('i, 'a) dclient \<Rightarrow> ('i, 'a) dclient outcome" where
  "captureSave P fp args fmt s =
     (case sc_screen s of
        None \<Rightarrow> Raise AssertionError s
      | Some screen \<Rightarrow>
          let capture = (case args of None \<Rightarrow> screen | Some b \<Rightarrow> im_crop P screen b) in
          with_value (im_save P capture fp fmt) s (\<lambda>_. Ret (log_event (Saved fp capture) s)))"

text \<open>\<open>math.sqrt(sum_ / len(hist)) <= maxrms\<close>, over the rationals: both sides squared.\<close>

definition rms_within :: "int list \<Rightarrow> int list \<Rightarrow> pyfloat \<Rightarrow> exn + bool" where
  "rms_within hist expected maxrms =
     (if length hist \<noteq> length expected then Inr False
      else if hist = [] then Inl ZeroDivisionError
      else
        let total = sum_list (map (\<lambda>(h, e). (h - e) ^ 2) (zip hist expected)) in
        Inr (case maxrms of
               Fin m \<Rightarrow> 0 \<le> m \<and> of_int total / of_nat (length hist) \<le> m ^ 2
             | PosInf \<Rightarrow> True | NegInf \<Rightarrow> False | NaN \<Rightarrow> False))"

definition expectCompare :: "'i pillow \<Rightarrow> box \<Rightarrow> pyfloat \<Rightarrow> ('i, 'a) dclient \<Rightarrow> ('i, 'a) dclient outcome" where
  "expectCompare P b maxrms s =
     with_value
       (case sc_screen s of
          None \<Rightarrow> Inr False
        | Some screen \<Rightarrow> rms_within (im_histogram P (im_crop P screen b)) (sc_expected s) maxrms) s
       (\<lambda>matched.
         if matched then Ret (log_event (Matched b) s)
         else request_update (sc_screen s \<noteq> None) (s\<lparr>sc_deferred := Some (Compare b maxrms)\<rparr>))"

definition expectFramebuffer ::
  "'i pillow \<Rightarrow> unicode \<Rightarrow> int \<Rightarrow> int \<Rightarrow> pyfloat \<Rightarrow> ('i, 'a) dclient \<Rightarrow> ('i, 'a) dclient outcome" where
  "expectFramebuffer P filename x y maxrms s =
     with_value (im_open P filename) s (\<lambda>img.
       let (w, h) = im_size P img in
       expectCompare P (x, y, x + w, y + h) maxrms (s\<lparr>sc_expected := im_histogram P img\<rparr>))"

definition expectScreen :: "'i pillow \<Rightarrow> unicode \<Rightarrow> pyfloat \<Rightarrow> ('i, 'a) dclient \<Rightarrow> ('i, 'a) dclient outcome" where
  "expectScreen P filename maxrms s = expectFramebuffer P filename 0 0 maxrms s"

definition expectRegion ::
  "'i pillow \<Rightarrow> unicode \<Rightarrow> int \<Rightarrow> int \<Rightarrow> pyfloat \<Rightarrow> ('i, 'a) dclient \<Rightarrow> ('i, 'a) dclient outcome" where
  "expectRegion P filename x y maxrms s = expectFramebuffer P filename x y maxrms s"

text \<open>\<open>d.callback(self)\<close>: an exception of the callback becomes the \<open>Deferred\<close>'s failure.\<close>

fun run_waiter :: "'i pillow \<Rightarrow> waiter \<Rightarrow> ('i, 'a) dclient \<Rightarrow> ('i, 'a) dclient outcome" where
  "run_waiter P Refresh s = Ret (log_event Refreshed s)"
| "run_waiter P (Save fp args fmt) s = captureSave P fp args fmt s"
| "run_waiter P (Compare b maxrms) s = expectCompare P b maxrms s"

definition fire :: "'i pillow \<Rightarrow> waiter \<Rightarrow> ('i, 'a) dclient \<Rightarrow> ('i, 'a) dclient" where
  "fire P d s = (case run_waiter P d s of Ret t \<Rightarrow> t | Raise e t \<Rightarrow> log_event (WaitFailed e) t)"

definition do_commitUpdate :: "'i pillow \<Rightarrow> rect list \<Rightarrow> ('i, 'a) dclient \<Rightarrow> ('i, 'a) dclient outcome" where
  "do_commitUpdate P rects s =
     (case sc_deferred s of
        None \<Rightarrow> Ret s
      | Some d \<Rightarrow>
          if rects = [] then request_update False s
          else Ret (fire P d (s\<lparr>sc_deferred := None\<rparr>)))"

section \<open>The callbacks\<close>

definition do_hooks :: "'i pillow \<Rightarrow> env \<Rightarrow> callback \<Rightarrow> ('i, 'a) dclient \<Rightarrow> ('i, 'a) dclient outcome" where
  "do_hooks P env cb s =
     (case cb of
        VncConnectionMade \<Rightarrow> do_vncConnectionMade s
      | VncRequestPassword \<Rightarrow> do_vncRequestPassword env s
      | VncAuthFailed r \<Rightarrow> do_vncAuthFailed s
      | VncProtocolError r \<Rightarrow> do_vncProtocolError s
      | CommitUpdate rects \<Rightarrow> do_commitUpdate P rects s
      | UpdateRectangle x y w h data pf \<Rightarrow> do_updateRectangle P x y w h data pf s
      | FillRectangle x y w h color \<Rightarrow>
          default_fillRectangle
            (\<lambda>cb. case cb of UpdateRectangle x y w h data pf \<Rightarrow> do_updateRectangle P x y w h data pf | _ \<Rightarrow> Ret)
            x y w h color s
      | UpdateCursor x y w h pixels bits \<Rightarrow> do_updateCursor P x y w h pixels bits s
      | UpdateDesktopSize w h \<Rightarrow> do_updateDesktopSize P w h s
      | _ \<Rightarrow> Ret s)"

section \<open>VMware\<close>

text \<open>The poll update VMware sends, with the four bytes of its pixel.\<close>

definition SINGLE_PIXEL_UPDATE :: "exn + bytes" where
  "SINGLE_PIXEL_UPDATE = struct_pack ''!BxHHHHHixxxx''
     [PInt S2C_FRAMEBUFFER_UPDATE, PInt 1, PInt 0, PInt 0, PInt 1, PInt 1, PInt ENC_RAW]"

definition is_single_pixel_update :: "bytes \<Rightarrow> bool" where
  "is_single_pixel_update data \<longleftrightarrow>
     (case SINGLE_PIXEL_UPDATE of
        Inl _ \<Rightarrow> False
      | Inr p \<Rightarrow> length data = 20 \<and> take 1 data = take 1 p \<and> py_slice 2 16 data = py_slice 2 16 p)"

definition vmware_dataReceived ::
  "env \<Rightarrow> 'a hook \<Rightarrow> bytes \<Rightarrow> 'a client \<Rightarrow> 'a client outcome option" where
  "vmware_dataReceived env H data s =
     (if is_single_pixel_update data then
        (case request_update False s of
           Raise e t \<Rightarrow> Some (Raise e t)
         | Ret t \<Rightarrow> (case top t of HandleInitial \<Rightarrow> handleInitial env H t | HandleExpected \<Rightarrow> handleExpected env H t))
      else dataReceived env H data s)"

section \<open>The callbacks keep the parser's contract\<close>

text \<open>The subclass's fields and the bytes that arrive later; each record type has a function \<open>extend\<close> of its own.\<close>

abbreviation arrive :: "bytes \<Rightarrow> 'a client \<Rightarrow> 'a client" where
  "arrive \<equiv> Rfb_State.extend"

lemma do_extend_fields [simp]:
  "sc_requested (arrive q s) = sc_requested s" "sc_image_mode (arrive q s) = sc_image_mode s"
  "sc_raw_format (arrive q s) = sc_raw_format s" "sc_raw_mode (arrive q s) = sc_raw_mode s"
  "sc_screen (arrive q s) = sc_screen s" "sc_deferred (arrive q s) = sc_deferred s"
  "sc_cursor (arrive q s) = sc_cursor s" "sc_cmask (arrive q s) = sc_cmask s" "sc_cfocus (arrive q s) = sc_cfocus s"
  "sc_expected (arrive q s) = sc_expected s" "sc_log (arrive q s) = sc_log s"
  "fc_pseudocursor (arrive q s) = fc_pseudocursor s" "fc_nocursor (arrive q s) = fc_nocursor s"
  "fc_pseudodesktop (arrive q s) = fc_pseudodesktop s" "fc_last_rect (arrive q s) = fc_last_rect s"
  "fc_qemu_extended_key (arrive q s) = fc_qemu_extended_key s" "fc_deferred (arrive q s) = fc_deferred s"
  "cl_x (arrive q s) = cl_x s" "cl_y (arrive q s) = cl_y s"
  by (simp_all add: Rfb_State.extend_def)

lemma do_extend_updates [simp]:
  "(arrive q s)\<lparr>sc_image_mode := a\<rparr> = arrive q (s\<lparr>sc_image_mode := a\<rparr>)"
  "(arrive q s)\<lparr>sc_raw_format := b\<rparr> = arrive q (s\<lparr>sc_raw_format := b\<rparr>)"
  "(arrive q s)\<lparr>sc_raw_mode := c\<rparr> = arrive q (s\<lparr>sc_raw_mode := c\<rparr>)"
  "(arrive q s)\<lparr>sc_screen := d\<rparr> = arrive q (s\<lparr>sc_screen := d\<rparr>)"
  "(arrive q s)\<lparr>sc_deferred := e\<rparr> = arrive q (s\<lparr>sc_deferred := e\<rparr>)"
  "(arrive q s)\<lparr>sc_cursor := f\<rparr> = arrive q (s\<lparr>sc_cursor := f\<rparr>)"
  "(arrive q s)\<lparr>sc_cmask := g\<rparr> = arrive q (s\<lparr>sc_cmask := g\<rparr>)"
  "(arrive q s)\<lparr>sc_cfocus := h\<rparr> = arrive q (s\<lparr>sc_cfocus := h\<rparr>)"
  "(arrive q s)\<lparr>sc_expected := i\<rparr> = arrive q (s\<lparr>sc_expected := i\<rparr>)"
  "(arrive q s)\<lparr>sc_log := j\<rparr> = arrive q (s\<lparr>sc_log := j\<rparr>)"
  "(arrive q s)\<lparr>fc_deferred := k\<rparr> = arrive q (s\<lparr>fc_deferred := k\<rparr>)"
  by (simp_all add: Rfb_State.extend_def)

lemma do_undisturbed [simp]:
  "undisturbed s (t\<lparr>sc_image_mode := a\<rparr>) = undisturbed s t"
  "undisturbed s (t\<lparr>sc_raw_format := b\<rparr>) = undisturbed s t"
  "undisturbed s (t\<lparr>sc_raw_mode := c\<rparr>) = undisturbed s t"
  "undisturbed s (t\<lparr>sc_screen := d\<rparr>) = undisturbed s t"
  "undisturbed s (t\<lparr>sc_deferred := e\<rparr>) = undisturbed s t"
  "undisturbed s (t\<lparr>sc_cursor := f\<rparr>) = undisturbed s t"
  "undisturbed s (t\<lparr>sc_cmask := g\<rparr>) = undisturbed s t"
  "undisturbed s (t\<lparr>sc_cfocus := h\<rparr>) = undisturbed s t"
  "undisturbed s (t\<lparr>sc_expected := i\<rparr>) = undisturbed s t"
  "undisturbed s (t\<lparr>sc_log := j\<rparr>) = undisturbed s t"
  "undisturbed s (t\<lparr>fc_deferred := k\<rparr>) = undisturbed s t"
  by (simp_all add: undisturbed_def parser_state_def client_bypp_def)

lemma log_event_simps [simp]:
  "log_event e (arrive q s) = arrive q (log_event e s)" "undisturbed s (log_event e t) = undisturbed s t"
  by (simp_all add: log_event_def)

lemma clientConnection_frame [framing]:
  "clientConnectionFailed f (arrive q s) = map_outcome (arrive q) (clientConnectionFailed f s)"
  "clientConnectionMade (arrive q s) = map_outcome (arrive q) (clientConnectionMade s)"
  by (simp_all add: clientConnectionFailed_def clientConnectionMade_def)

lemma messages_frame [framing]:
  "setPixelFormat pf (arrive q s) = map_outcome (arrive q) (setPixelFormat pf s)"
  "offer_encodings es (arrive q s) = map_outcome (arrive q) (offer_encodings es s)"
  "setEncodings es (arrive q s) = map_outcome (arrive q) (setEncodings es s)"
  "request_update inc (arrive q s) = map_outcome (arrive q) (request_update inc s)"
proof -
  show "setPixelFormat pf (arrive q s) = map_outcome (arrive q) (setPixelFormat pf s)"
    unfolding setPixelFormat_def by (intro frame_intros) (simp_all add: framing)
  show offers: "offer_encodings es (arrive q s) = map_outcome (arrive q) (offer_encodings es s)" for es and s :: "'a client"
    by (induction es arbitrary: s) (auto intro!: and_then_frame simp: framing)
  show "setEncodings es (arrive q s) = map_outcome (arrive q) (setEncodings es s)"
    unfolding setEncodings_def by (intro frame_intros) (simp_all add: framing offers)
  show "request_update inc (arrive q s) = map_outcome (arrive q) (request_update inc s)"
    by (simp add: request_update_def framebufferUpdateRequest_def Let_def framing)
qed

lemma offered_encodings_extend [simp]: "offered_encodings (arrive q s) = offered_encodings s"
  by (simp add: offered_encodings_def)

lemma request_format_frame [framing]:
  "request_format pf (arrive q s) = map_outcome (arrive q) (request_format pf s)"
  unfolding request_format_def do_vncProtocolError_def
  by (cases "raw_mode pf") (auto intro!: frame_intros simp: framing)

lemma setImageMode_frame [framing]: "setImageMode (arrive q s) = map_outcome (arrive q) (setImageMode s)"
  unfolding setImageMode_def
  by (cases "sc_requested s"; cases "raw_mode (pixel_format s)") (auto intro!: frame_intros simp: framing)

lemma vncConnectionMade_frame [framing]:
  "do_vncConnectionMade (arrive q s) = map_outcome (arrive q) (do_vncConnectionMade s)"
  unfolding do_vncConnectionMade_def by (intro frame_intros) (simp_all add: framing)

lemma drawCursor_frame [framing]: "drawCursor P (arrive q s) = map_outcome (arrive q) (drawCursor P s)"
  unfolding drawCursor_def
  by (cases "sc_cursor s"; cases "sc_screen s"; cases "sc_cfocus s") (auto intro!: frame_intros)

lemma paste_update_frame [framing]:
  "paste_update P u x y w h (arrive q s) = map_outcome (arrive q) (paste_update P u x y w h s)"
  unfolding paste_update_def Let_def by (cases "sc_screen s") (auto intro!: frame_intros)

lemma rawModeFor_extend [simp]: "rawModeFor pf (arrive q s) = apsnd (arrive q) (rawModeFor pf s)"
  by (simp add: rawModeFor_def Let_def split: sum.split)

lemma updateRectangle_frame [framing]:
  "do_updateRectangle P x y w h d pf (arrive q s) = map_outcome (arrive q) (do_updateRectangle P x y w h d pf s)"
  unfolding do_updateRectangle_def
  by (cases "rawModeFor pf s"; cases "fst (rawModeFor pf s)") (auto intro!: frame_intros simp: framing)

lemma updateCursor_frame [framing]:
  "do_updateCursor P x y w h d m (arrive q s) = map_outcome (arrive q) (do_updateCursor P x y w h d m s)"
  unfolding do_updateCursor_def Let_def by (intro frame_intros) (simp_all add: framing)

lemma updateDesktopSize_frame [framing]:
  "do_updateDesktopSize P w h (arrive q s) = map_outcome (arrive q) (do_updateDesktopSize P w h s)"
  unfolding do_updateDesktopSize_def Let_def by (cases "sc_screen s") (auto intro!: frame_intros)

lemma run_waiter_frame [framing]:
  "run_waiter P d (arrive q s) = map_outcome (arrive q) (run_waiter P d s)"
  by (cases d)
    (auto simp: captureSave_def expectCompare_def Let_def framing intro!: frame_intros split: option.split)

lemma commitUpdate_frame [framing]:
  "do_commitUpdate P rs (arrive q s) = map_outcome (arrive q) (do_commitUpdate P rs s)"
proof -
  have "fire P d (arrive q s) = arrive q (fire P d s)" for d and s :: "('a, 'b) dclient"
    by (cases "run_waiter P d s") (simp_all add: fire_def framing)
  then show ?thesis unfolding do_commitUpdate_def by (auto simp: framing split: option.split)
qed

lemma do_hooks_frame: "do_hooks P env cb (arrive q s) = map_outcome (arrive q) (do_hooks P env cb s)"
  by (cases cb)
    (auto simp: do_hooks_def do_vncRequestPassword_def do_vncAuthFailed_def do_vncProtocolError_def
      default_fillRectangle_def call_def framing split: option.split)

text \<open>No callback touches what the receive loop owns.\<close>

lemma calm_and_then:
  "undisturbed s (final r) \<Longrightarrow> (\<And>t. undisturbed t (final (k t))) \<Longrightarrow> undisturbed s (final (and_then r k))"
  by (cases r) (auto intro: undisturbed_trans)

lemma calm_with_value:
  "undisturbed u s \<Longrightarrow> (\<And>v. r = Inr v \<Longrightarrow> undisturbed u (final (k v))) \<Longrightarrow> undisturbed u (final (with_value r s k))"
  by (cases r) auto

lemma calm_write: "undisturbed u s \<Longrightarrow> undisturbed u (final (transport_write r s))"
  unfolding transport_write_def by (rule calm_with_value) simp_all

lemma calm_connection:
  "undisturbed u s \<Longrightarrow> undisturbed u (final (clientConnectionFailed f s))"
  "undisturbed u s \<Longrightarrow> undisturbed u (final (clientConnectionMade s))"
  by (simp_all add: clientConnectionFailed_def clientConnectionMade_def)

lemma raw_mode_bypp: "raw_mode pf = Inr mode \<Longrightarrow> 0 \<le> pf_bypp pf"
  by (simp add: raw_mode_def pf_bypp_def split: if_splits)

lemma calm_format:
  assumes "0 \<le> pf_bypp pf"
  shows "undisturbed s (final (setPixelFormat pf s))"
proof -
  have "undisturbed t (t\<lparr>pixel_format := pf\<rparr>)" for t :: "'a client"
    using assms by (simp add: undisturbed_def parser_state_def client_bypp_def)
  then show ?thesis unfolding setPixelFormat_def by (auto intro!: calm_with_value calm_and_then calm_write)
qed

lemma calm_messages:
  "undisturbed s (final (setEncodings es s))" "undisturbed u s \<Longrightarrow> undisturbed u (final (request_update inc s))"
proof -
  have "undisturbed s (final (offer_encodings es s))" for s :: "'a client"
    by (induction es arbitrary: s) (auto intro!: calm_and_then calm_write)
  then show "undisturbed s (final (setEncodings es s))"
    unfolding setEncodings_def by (auto intro!: calm_and_then calm_write)
qed (simp add: request_update_def framebufferUpdateRequest_def Let_def calm_write)

lemma calm_request_format: "undisturbed s (final (request_format pf s))"
  unfolding request_format_def do_vncProtocolError_def
  by (cases "raw_mode pf") (auto intro!: calm_and_then calm_connection calm_format raw_mode_bypp)

lemma calm_connection_made: "undisturbed s (final (do_vncConnectionMade s))"
proof -
  have "undisturbed s (final (setImageMode s))" for s :: "('a, 'b) dclient"
    unfolding setImageMode_def
    by (auto intro!: calm_with_value calm_request_format split: option.split sum.split)
  then show ?thesis unfolding do_vncConnectionMade_def by (intro calm_and_then calm_messages calm_connection) simp_all
qed

lemma calm_cursor: "undisturbed u s \<Longrightarrow> undisturbed u (final (drawCursor P s))"
  unfolding drawCursor_def by (auto intro!: calm_with_value split: option.split)

lemma calm_rectangle: "undisturbed s (final (do_updateRectangle P x y w h d pf s))"
proof -
  have "undisturbed s (final (paste_update P i x y w h s))" for i and s :: "('a, 'b) dclient"
    unfolding paste_update_def Let_def by (auto intro!: calm_with_value split: option.split)
  moreover have "undisturbed s (snd (rawModeFor pf s))"
    by (simp add: rawModeFor_def Let_def split: sum.split)
  ultimately show ?thesis
    unfolding do_updateRectangle_def
    by (cases "rawModeFor pf s"; cases "fst (rawModeFor pf s)")
      (auto intro!: calm_with_value intro: undisturbed_trans calm_and_then calm_cursor)
qed

lemma calm_waiting: "undisturbed s (final (do_commitUpdate P rs s))"
proof -
  have calm: "undisturbed s (final (run_waiter P d s))" for d and s :: "('a, 'b) dclient"
    by (cases d)
      (auto simp: captureSave_def expectCompare_def Let_def intro!: calm_with_value calm_messages split: option.split)
  have "undisturbed s (fire P d s)" for d and s :: "('a, 'b) dclient"
    using calm [of s d] by (cases "run_waiter P d s") (simp_all add: fire_def)
  from this [of "s\<lparr>sc_deferred := None\<rparr>"] have "undisturbed s (fire P d (s\<lparr>sc_deferred := None\<rparr>))" for d
    using undisturbed_trans [of s "s\<lparr>sc_deferred := None\<rparr>"] by simp
  then show ?thesis unfolding do_commitUpdate_def by (auto intro!: calm_messages split: option.split)
qed

lemma do_hooks_calm: "undisturbed s (final (do_hooks P env cb s))"
proof (cases cb)
  case (UpdateCursor x y w h d m)
  then show ?thesis
    by (auto simp: do_hooks_def do_updateCursor_def Let_def intro!: calm_with_value calm_cursor)
next
  case (FillRectangle x y w h c)
  have "undisturbed s (final (do_updateRectangle P x y w h d pf (log_io a s)))" for a d pf
    using calm_rectangle [of "log_io a s"] by simp
  with FillRectangle show ?thesis
    by (simp add: do_hooks_def default_fillRectangle_def call_def split: option.split)
qed (auto simp: do_hooks_def do_vncRequestPassword_def do_vncAuthFailed_def do_vncProtocolError_def sendPassword_def
    do_updateDesktopSize_def Let_def intro!: calm_connection_made calm_connection calm_write calm_waiting calm_rectangle
    calm_with_value split: option.split)

interpretation do_client: client_hooks "do_hooks P env" for P env
  using do_hooks_calm by unfold_locales (auto simp: do_hooks_frame undisturbed_def)

section \<open>Properties\<close>

lemma offers_fit: "list_all i32 (offered_encodings s)" "length (offered_encodings s) < 65536"
  by (simp_all add: offered_encodings_def)

text \<open>What an offer of encodings puts in the trace.\<close>

definition offer_io :: "int list \<Rightarrow> io list" where
  "offer_io es = Write ([2, 0] @ to_be 2 (int (length es))) # map (\<lambda>e. Write (encoding_octets e)) es"

lemma encodings_offered:
  assumes "es = offered_encodings s"
  shows "setEncodings es t = Ret (t\<lparr>trace := trace t @ offer_io es\<rparr>)"
proof -
  have "list_all i32 es" "length es < 65536" using offers_fit [of s] assms by simp_all
  moreover from this(1) have "takeWhile i32 es = es" by (simp add: list_all_iff takeWhile_eq_all_conv)
  ultimately show ?thesis by (simp add: message_writes Let_def offer_io_def del: takeWhile_eq_all_conv)
qed

lemma written_encodings: "written (offer_io es) = msg_bytes (MsgEncodings es)"
proof -
  have "msg_bytes (MsgEncodings es) = [2, 0] @ to_be 2 (int (length es)) @ concat (map encoding_octets es)"
    by (simp add: encoding_octets_def [abs_def])
  then show ?thesis by (simp add: offer_io_def written_offers)
qed

text \<open>The format the client settles for when the server's own cannot be unpacked.\<close>

definition fallback_format :: "ver \<Rightarrow> PixelFormat" where
  "fallback_format v = (case map_of PIXEL_FORMATS (if v = (3, 889) then ''rgb565'' else ''rgbx8888'') of Some pf \<Rightarrow> pf | None \<Rightarrow> default_PixelFormat)"

lemma fallback_supported:
  "named_format (if v = (3, 889) then ''rgb565'' else ''rgbx8888'') = Inr (fallback_format v)"
  "\<exists>mode. raw_mode (fallback_format v) = Inr mode" "wire_format (fallback_format v)"
  by (simp_all add: fallback_format_def named_format_def format_defs bit_length_values wire_format_def in_u8_def in_u16_def)

lemma raw_mode_error:
  assumes "raw_mode pf = Inl e"
  shows "e = UnsupportedPixelFormat"
proof -
  have "add_positions be n ps cs = Inl e \<Longrightarrow> e = UnsupportedPixelFormat" for be n ps cs
    by (induction be n ps cs rule: add_positions.induct) (simp_all add: Let_def split: if_splits)
  then have "byte_positions pf n = Inl e \<Longrightarrow> e = UnsupportedPixelFormat" for n
    unfolding byte_positions_def by blast
  then have "byte_mode pf n idx modes = Inl e \<Longrightarrow> e = UnsupportedPixelFormat" for n idx modes
    by (cases "byte_positions pf n") (simp_all add: byte_mode_def Let_def split: if_splits)
  with assms show ?thesis by (simp add: raw_mode_def split: if_splits option.splits)
qed

text \<open>The client never reads pixels in a format it cannot unpack. Without a requested format, the
  connection is made with the server's format if it has a raw mode and with a fallback otherwise
  (rgb565 for Apple Remote Desktop, rgbx8888 else): the new format is put on the wire before the
  encodings are offered, and afterwards the image mode is the raw mode of the format in use.\<close>

lemma connection_settles_format:
  assumes "sc_requested s = None" "fc_deferred s = None"
  shows "\<exists>t io. do_vncConnectionMade s = Ret t \<and> trace t = trace s @ io \<and>
    raw_mode (pixel_format t) = Inr (sc_image_mode t) \<and> fc_deferred t = Some Connected \<and>
    (if \<exists>mode. raw_mode (pixel_format s) = Inr mode
     then pixel_format t = pixel_format s \<and> written io = msg_bytes (MsgEncodings (offered_encodings s))
     else pixel_format t = fallback_format (version_server s) \<and>
       written io = msg_bytes (MsgPixelFormat (pixel_format t)) @ msg_bytes (MsgEncodings (offered_encodings s)))"
proof -
  let ?es = "offered_encodings s"
  have offers: "offered_encodings (s\<lparr>sc_image_mode := m\<rparr>) = ?es" "offered_encodings (s\<lparr>pixel_format := pf, sc_image_mode := m, trace := tr\<rparr>) = ?es"
    for m pf tr by (simp_all add: offered_encodings_def)
  note offer = encodings_offered [OF refl, of s]
  show ?thesis
  proof (cases "raw_mode (pixel_format s)")
    case (Inr mode)
    let ?t = "s\<lparr>sc_image_mode := mode, trace := trace s @ offer_io ?es, fc_deferred := Some Connected\<rparr>"
    have "do_vncConnectionMade s = Ret ?t"
      using assms Inr by (simp add: do_vncConnectionMade_def setImageMode_def offers offer clientConnectionMade_def)
    with Inr show ?thesis
      by (intro exI [of _ ?t] exI [of _ "offer_io ?es"]) (simp add: written_encodings del: msg_bytes.simps)
  next
    case (Inl e)
    let ?pf = "fallback_format (version_server s)" let ?ask = "Write (msg_bytes (MsgPixelFormat ?pf))"
    obtain mode where mode: "raw_mode ?pf = Inr mode" using fallback_supported(2) by blast
    let ?u = "s\<lparr>pixel_format := ?pf, sc_image_mode := mode, trace := trace s @ [?ask]\<rparr>"
    let ?t = "?u\<lparr>trace := trace s @ ?ask # offer_io ?es, fc_deferred := Some Connected\<rparr>"
    have "request_format ?pf s = Ret ?u"
      using mode fallback_supported(3) by (simp add: request_format_def message_writes log_io_def del: msg_bytes.simps)
    then have "setImageMode s = Ret ?u"
      using assms(1) Inl raw_mode_error [OF Inl] fallback_supported(1) by (simp add: setImageMode_def)
    then have "do_vncConnectionMade s = Ret ?t"
      using assms(2) by (simp add: do_vncConnectionMade_def offers offer clientConnectionMade_def del: msg_bytes.simps)
    with Inl mode show ?thesis
      by (intro exI [of _ ?t] exI [of _ "?ask # offer_io ?es"]) (simp add: written_encodings del: msg_bytes.simps)
  qed
qed

definition sample_do_client :: "unit do_client" where
  "sample_do_client = (new_do_client None None None)\<lparr>pixel_format := default_PixelFormat\<lparr>bpp := 8, depth := 8, truecolor := False\<rparr>,
     fb_width := 640, fb_height := 480\<rparr>"

lemmas sample_client_defs = sample_do_client_def new_do_client_def new_vnc_client_def init_client_def vnc_client.defs
  do_client.defs


text \<open>What a waiter leaves when it fires.\<close>

lemma request_writes:
  assumes "u16 (fb_width t)" "u16 (fb_height t)"
  shows "request_update inc t = Ret (log_io (Write (msg_bytes (MsgUpdateRequest inc 0 0 (fb_width t) (fb_height t)))) t)"
  using assms by (simp add: request_update_def message_writes Let_def del: msg_bytes.simps)

definition fired :: "waiter \<Rightarrow> ('i, 'a) dclient \<Rightarrow> ('i, 'a) dclient \<Rightarrow> bool" where
  "fired d s t \<longleftrightarrow>
     sc_deferred t = None \<and> trace t = trace s \<and> (\<exists>e. sc_log t = sc_log s @ [e]) \<or>
     (case d of Compare b m \<Rightarrow> True | _ \<Rightarrow> False) \<and> sc_deferred t = Some d \<and> sc_log t = sc_log s \<and>
       trace t = trace s @ [Write (msg_bytes (MsgUpdateRequest (sc_screen s \<noteq> None) 0 0 (fb_width s) (fb_height s)))]"

lemma fire_outcome:
  assumes "u16 (fb_width s)" "u16 (fb_height s)" "sc_deferred s = None"
  shows "fired d s (fire P d s)"
proof (cases d)
  case Refresh
  with assms(3) show ?thesis by (simp add: fired_def fire_def log_event_def)
next
  case (Save fp args fmt)
  then show ?thesis
  proof (cases "sc_screen s")
    case (Some screen)
    let ?im = "case args of None \<Rightarrow> screen | Some b \<Rightarrow> im_crop P screen b"
    from Save Some assms(3) show ?thesis
      by (cases "im_save P ?im fp fmt") (simp_all add: fired_def fire_def captureSave_def log_event_def Let_def)
  qed (use assms(3) in \<open>simp add: fired_def fire_def captureSave_def log_event_def\<close>)
next
  case (Compare b m)
  let ?c = "case sc_screen s of None \<Rightarrow> Inr False
    | Some screen \<Rightarrow> rms_within (im_histogram P (im_crop P screen b)) (sc_expected s) m"
  from Compare assms request_writes [of "s\<lparr>sc_deferred := Some d\<rparr>"] show ?thesis
    by (cases ?c; cases "?c = Inr True") (auto simp: fired_def fire_def expectCompare_def log_event_def log_io_def simp del: msg_bytes.simps)
qed



text \<open>Once connected, the factory's \<open>Deferred\<close> has fired, so reporting a protocol error raises
  \<open>AlreadyCalledError\<close> out of \<open>vncProtocolError\<close>: the transport is not closed by the client and the
  error is not delivered to the factory. Before that, the failure is delivered and the connection closed.\<close>

lemma late_protocol_error_raises:
  "refuse (do_hooks P env) r s =
     (if fc_deferred s \<noteq> None then Raise AlreadyCalledError (log_io (Call (VncProtocolError r)) s)
      else Ret (loseConnection ((log_io (Call (VncProtocolError r)) s)\<lparr>fc_deferred := Some (ConnectFailed ConnProtocolError)\<rparr>)))"
  by (simp add: refuse_def call_def do_hooks_def do_vncProtocolError_def clientConnectionFailed_def log_io_def)

end
