(* ===== verification/Logging_Client.thy ===== *)
theory Logging_Client
  imports Client_Screen Handshake_Scrubber
begin

text \<open>
  \<open>loggingproxy.VNCLoggingClient\<close>: the client that decodes the server's side of a proxied session
  for the log. It writes to a \<open>NullTransport\<close>, so what it sends goes nowhere; its factory is the
  proxy's, which ignores a connection that is made and has no \<open>clientConnectionFailed\<close>. The class
  overrides \<open>_handleRectangle\<close>, to count encodings, and \<open>commitUpdate\<close>.

  The lemmas show that this observer always returns, so that it cannot hold up what the proxy
  forwards.
\<close>

section \<open>State\<close>

record 'i logging_client = "'i do_client" +
  lc_capturing :: bool
  lc_noted :: "int list"
  lc_capture_file :: "unicode option"
  lc_recorded :: unicode

type_synonym ('i, 'a) lclient = "('i, 'a) logging_client_scheme"

text \<open>\<open>startLogging\<close>: a new client parked on ServerInit. It starts with no bytes, so \<open>expect\<close> does
  not run the loop.\<close>

definition start_logging :: "string option \<Rightarrow> bool \<Rightarrow> 'i logging_client" where
  "start_logging passwd capturing =
     arm (Handshake ServerInit) 24
       ((do_client.extend (new_do_client None passwd None)
          \<lparr>lc_capturing = capturing, lc_noted = [], lc_capture_file = None, lc_recorded = []\<rparr>)
        \<lparr>top := HandleExpected\<rparr>)"

section \<open>Callbacks\<close>

text \<open>\<open>NullTransport.loseConnection\<close> does nothing, but the call is made.\<close>

definition log_vncRequestPassword :: "env \<Rightarrow> ('i, 'a) lclient \<Rightarrow> ('i, 'a) lclient outcome" where
  "log_vncRequestPassword env s =
     (case factory_password s of
        None \<Rightarrow> Raise AttributeError (loseConnection s)
      | Some password \<Rightarrow> sendPassword env password s)"

definition log_commitUpdate :: "'i pillow \<Rightarrow> ('i, 'a) lclient \<Rightarrow> ('i, 'a) lclient outcome" where
  "log_commitUpdate P s =
     (case lc_capture_file s of
        None \<Rightarrow> Ret s
      | Some name \<Rightarrow>
          if name = [] then Ret s
          else (case sc_screen s of
            None \<Rightarrow> Raise AssertionError s
          | Some screen \<Rightarrow>
              with_value (im_save P screen name None) s (\<lambda>_.
                Ret (s\<lparr>lc_recorded := lc_recorded s @ pts ''expect '' @ name @ [10], lc_capture_file := None\<rparr>))))"

definition logging_hooks :: "'i pillow \<Rightarrow> env \<Rightarrow> callback \<Rightarrow> ('i, 'a) lclient \<Rightarrow> ('i, 'a) lclient outcome" where
  "logging_hooks P env cb s =
     (case cb of
        VncConnectionMade \<Rightarrow> and_then (setImageMode s) (\<lambda>s. setEncodings (offered_encodings s) s)
      | VncRequestPassword \<Rightarrow> log_vncRequestPassword env s
      | VncAuthFailed r \<Rightarrow> Raise AttributeError s
      | VncProtocolError r \<Rightarrow> Raise AttributeError s
      | CommitUpdate rects \<Rightarrow> log_commitUpdate P s
      | _ \<Rightarrow> do_hooks P env cb s)"

section \<open>The receive loop\<close>

type_synonym ('i, 'a) lhook = "callback \<Rightarrow> ('i, 'a) lclient \<Rightarrow> ('i, 'a) lclient outcome"

definition log_handleRectangle :: "('i, 'a) lhook \<Rightarrow> bytes \<Rightarrow> ('i, 'a) lclient \<Rightarrow> ('i, 'a) lclient outcome" where
  "log_handleRectangle H block s =
     (if lc_capturing s then
        with_value (unpack1 ''!i'' (py_slice 8 12 block)) s (\<lambda>encoding.
          handleRectangle H block (s\<lparr>lc_noted := lc_noted s @ [encoding]\<rparr>))
      else handleRectangle H block s)"

definition log_dispatch ::
  "env \<Rightarrow> ('i, 'a) lhook \<Rightarrow> handler \<Rightarrow> bytes \<Rightarrow> ('i, 'a) lclient \<Rightarrow> ('i, 'a) lclient outcome" where
  "log_dispatch env H h block s =
     (if h = Message RectangleHeader then log_handleRectangle H block s else dispatch env H h block s)"

definition log_consume :: "env \<Rightarrow> ('i, 'a) lhook \<Rightarrow> ('i, 'a) lclient \<Rightarrow> ('i, 'a) lclient outcome" where
  "log_consume env H s =
     log_dispatch env H (expected_handler s) (py_prefix (expected_len s) (packet s))
       (s\<lparr>already_expecting := True, packet := py_suffix (expected_len s) (packet s)\<rparr>)"

partial_function (option) log_run_loop ::
  "env \<Rightarrow> ('i, 'a) lhook \<Rightarrow> ('i, 'a) lclient \<Rightarrow> ('i, 'a) lclient outcome option" where
  "log_run_loop env H s =
     (if has_block s then
        (case log_consume env H s of
           Raise e t \<Rightarrow> Some (Raise e t)
         | Ret t \<Rightarrow> log_run_loop env H t)
      else Some (Ret (s\<lparr>already_expecting := False\<rparr>)))"

text \<open>\<open>startLogging\<close> has set \<open>_handler\<close> to \<open>_handleExpected\<close>.\<close>

definition log_dataReceived ::
  "'i pillow \<Rightarrow> env \<Rightarrow> bytes \<Rightarrow> ('i, 'a) lclient \<Rightarrow> ('i, 'a) lclient outcome option" where
  "log_dataReceived P env data s =
     (if aborted s then Some (Ret s)
      else
        let s = s\<lparr>packet := packet s @ data\<rparr> in
        if expected_len s \<le> int (length (packet s)) then log_run_loop env (logging_hooks P env) s else Some (Ret s))"

section \<open>The callbacks keep the parser's contract\<close>

lemma lc_extend_fields [simp]:
  "lc_capturing (arrive q s) = lc_capturing s" "lc_noted (arrive q s) = lc_noted s"
  "lc_capture_file (arrive q s) = lc_capture_file s" "lc_recorded (arrive q s) = lc_recorded s"
  by (simp_all add: Rfb_State.extend_def)

lemma lc_extend_updates [simp]:
  "(arrive q s)\<lparr>lc_noted := ns\<rparr> = arrive q (s\<lparr>lc_noted := ns\<rparr>)"
  "(arrive q s)\<lparr>lc_capture_file := f\<rparr> = arrive q (s\<lparr>lc_capture_file := f\<rparr>)"
  "(arrive q s)\<lparr>lc_recorded := r\<rparr> = arrive q (s\<lparr>lc_recorded := r\<rparr>)"
  by (simp_all add: Rfb_State.extend_def)

lemma lc_undisturbed [simp]:
  "undisturbed s (t\<lparr>lc_noted := ns\<rparr>) = undisturbed s t" "undisturbed s (t\<lparr>lc_capture_file := f\<rparr>) = undisturbed s t"
  "undisturbed s (t\<lparr>lc_recorded := r\<rparr>) = undisturbed s t"
  by (simp_all add: undisturbed_def parser_state_def client_bypp_def)

lemma logging_hooks_frame: "logging_hooks P env cb (arrive q s) = map_outcome (arrive q) (logging_hooks P env cb s)"
proof (cases cb)
  case VncConnectionMade
  then show ?thesis
    unfolding logging_hooks_def by simp (intro frame_intros, simp_all add: framing)
next
  case (CommitUpdate rs)
  then show ?thesis
    by (auto simp: logging_hooks_def log_commitUpdate_def intro!: frame_intros split: option.split)
qed (simp_all add: logging_hooks_def do_hooks_frame log_vncRequestPassword_def framing split: option.split)

lemma calm_image_mode: "undisturbed s (final (setImageMode s))"
  unfolding setImageMode_def
  by (auto intro!: calm_with_value calm_request_format split: option.split sum.split)

lemma logging_hooks_calm: "undisturbed s (final (logging_hooks P env cb s))"
proof (cases cb)
  case VncConnectionMade
  then show ?thesis by (simp add: logging_hooks_def) (intro calm_and_then calm_image_mode calm_messages)
next
  case (CommitUpdate rs)
  then show ?thesis
    by (auto simp: logging_hooks_def log_commitUpdate_def intro!: calm_with_value split: option.split)
next
  case VncRequestPassword
  then show ?thesis
    by (auto simp: logging_hooks_def log_vncRequestPassword_def sendPassword_def intro!: calm_write split: option.split)
qed (simp_all add: logging_hooks_def do_hooks_calm)

interpretation logging_client: client_hooks "logging_hooks P env" for P env
  using logging_hooks_calm by unfold_locales (auto simp: logging_hooks_frame undisturbed_def)

section \<open>The observer returns\<close>

text \<open>Handlers of the logging client: from ServerInit on, so none that reports a refusal.\<close>

definition late :: "handler \<Rightarrow> bool" where
  "late h \<longleftrightarrow> session h \<or> h = Handshake ServerInit \<or> h = Handshake ServerName"

lemma settles_noted [simp]: "settles h (s\<lparr>lc_noted := ns\<rparr>) = settles h s"
  by (simp add: leaving_defs sized_def client_bypp_def fun_eq_iff)

lemma log_consume_settles:
  assumes "handler_ok (expected_handler s)"
  shows "ends (settles (expected_handler s)
    (s\<lparr>already_expecting := True, packet := py_suffix (expected_len s) (packet s)\<rparr>)) (log_consume env (logging_hooks P env) s)"
proof -
  let ?H = "logging_hooks P env" let ?u = "s\<lparr>already_expecting := True, packet := py_suffix (expected_len s) (packet s)\<rparr>"
  let ?b = "py_prefix (expected_len s) (packet s)"
  have plain: "ends (settles (expected_handler s) u) (dispatch env ?H (expected_handler s) b u)" for u b
    using assms by (rule logging_client.dispatch_settles)
  show ?thesis
  proof (cases "expected_handler s = Message RectangleHeader \<and> lc_capturing s")
    case True
    have noted: "ends (settles (Message RectangleHeader) (?u\<lparr>lc_noted := ns\<rparr>)) (handleRectangle ?H ?b (?u\<lparr>lc_noted := ns\<rparr>))" for ns
      using plain [of "?u\<lparr>lc_noted := ns\<rparr>" ?b] True by simp
    have "settles (Message RectangleHeader) ?u (Some e) ?u" for e
      by (rule settles_raise) (simp add: leaves_def keeps_stream_def)
    with True noted show ?thesis
      by (auto simp: log_consume_def log_dispatch_def log_handleRectangle_def intro!: ends_with_value)
  next
    case False
    with plain [of ?u ?b] show ?thesis
      by (auto simp: log_consume_def log_dispatch_def log_handleRectangle_def)
  qed
qed

lemma log_consume_late:
  assumes "good s" "has_block s" "late (expected_handler s)" "log_consume env (logging_hooks P env) s = Ret t" "\<not> aborted t"
  shows "good t \<and> late (expected_handler t) \<and> (loop_measure t, loop_measure s) \<in> less_than <*lex*> less_than"
proof -
  let ?u = "s\<lparr>already_expecting := True, packet := py_suffix (expected_len s) (packet s)\<rparr>" let ?h = "expected_handler s"
  from assms(1,2) have s: "sized s" "armed s" by (auto simp: good_def has_block_def)
  then have "handler_ok ?h" by (simp add: armed_def)
  from log_consume_settles [OF this, of env P] assms(4) have set: "settles ?h ?u None t" by simp
  then have t: "sized t" and pkt: "packet t = py_suffix (expected_len s) (packet s)" and to: "stays ?h s t \<or> moves ?h t"
    using s assms(5) by (auto simp: settles_def keeps_stream_def stays_def)
  have "good t" using t to s(2) by (auto simp: good_def stays_def moves_def armed_def)
  moreover have "late (expected_handler t)"
  proof (cases "session ?h")
    case True
    with to show ?thesis by (auto simp: late_def stays_def moves_def)
  next
    case False
    with assms(3,4) show ?thesis
      by (auto simp: late_def log_consume_def log_dispatch_def handleServerInit_def handleServerName_def arm_def Let_def
          and_then_Ret_iff with_value_Ret_iff)
  qed
  moreover have "(loop_measure t, loop_measure s) \<in> less_than <*lex*> less_than"
  proof (cases "expected_len s = 0")
    case True
    with s have "0 < rank ?h" by (simp add: armed_def)
    moreover have "\<not> reports_reason ?h" using assms(3) by (auto simp: late_def reports_reason_def)
    ultimately have "moves ?h t" using to by (auto simp: stays_def)
    with \<open>0 < rank ?h\<close> True pkt show ?thesis by (simp add: moves_def loop_measure_def)
  next
    case False
    with s(2) assms(2) have "0 < expected_len s" "nat (expected_len s) \<le> length (packet s)"
      by (auto simp: has_block_def armed_def nat_le_iff)
    then have "length (packet s) - nat (expected_len s) < length (packet s)" by linarith
    with pkt \<open>0 < expected_len s\<close> show ?thesis by (simp add: loop_measure_def)
  qed
  ultimately show ?thesis by blast
qed

lemma log_consume_raises:
  assumes "good s" "has_block s" "log_consume env (logging_hooks P env) s = Raise e t"
  shows "expected_handler t = expected_handler s \<and> (aborted t \<or> good t)"
proof -
  from assms(1,2) have "sized s" "armed s" by (auto simp: good_def has_block_def)
  then have "handler_ok (expected_handler s)" by (simp add: armed_def)
  from log_consume_settles [OF this, of env P] assms(3) \<open>sized s\<close> \<open>armed s\<close> show ?thesis
    by (auto simp: settles_def leaves_def keeps_stream_def good_def armed_def)
qed

text \<open>What the proxy keeps between the server's segments.\<close>

definition observer_ok :: "('i, 'a) lclient \<Rightarrow> bool" where
  "observer_ok s \<longleftrightarrow> aborted s \<or> good s \<and> late (expected_handler s)"

lemma log_run_loop_total:
  assumes "good s" "late (expected_handler s)"
  shows "\<exists>r. log_run_loop env (logging_hooks P env) s = Some r \<and> observer_ok (final r)"
  using assms
proof (induction "loop_measure s" arbitrary: s rule: wf_induct_rule [OF wf_lex_prod [OF wf_less_than wf_less_than]])
  case (1 s)
  let ?H = "logging_hooks P env"
  show ?case
  proof (cases "has_block s")
    case False
    with "1.prems" show ?thesis by (simp add: log_run_loop.simps [of env ?H s] observer_ok_def)
  next
    case True
    show ?thesis
    proof (cases "log_consume env ?H s")
      case (Raise e t)
      with log_consume_raises [OF "1.prems"(1) True Raise] "1.prems"(2) True show ?thesis
        by (auto simp: log_run_loop.simps [of env ?H s] observer_ok_def)
    next
      case (Ret t)
      with True have step: "log_run_loop env ?H s = log_run_loop env ?H t" by (simp add: log_run_loop.simps [of env ?H s])
      show ?thesis
      proof (cases "aborted t")
        case True
        then show ?thesis unfolding step by (simp add: log_run_loop.simps [of env ?H t] has_block_def observer_ok_def)
      next
        case False
        with log_consume_late [OF "1.prems"(1) True "1.prems"(2) Ret] "1.hyps" step show ?thesis by simp
      qed
    qed
  qed
qed

lemma log_dataReceived_total:
  assumes "observer_ok s"
  shows "\<exists>r. log_dataReceived P env data s = Some r \<and> observer_ok (final r)"
proof (cases "aborted s")
  case False
  with assms have "good (s\<lparr>packet := packet s @ data\<rparr>)" "late (expected_handler s)"
    by (auto simp: observer_ok_def good_def)
  with False log_run_loop_total [of "s\<lparr>packet := packet s @ data\<rparr>" env P] show ?thesis
    by (auto simp: log_dataReceived_def observer_ok_def Let_def)
qed (use assms in \<open>simp add: log_dataReceived_def\<close>)

lemma start_logging_ok: "observer_ok (start_logging pw cap)"
  by (simp add: observer_ok_def start_logging_def late_def good_def sized_def armed_def arm_def client_bypp_def
      sample_client_defs do_client.defs vnc_client.defs pf_bypp_def default_PixelFormat_def)

end
