(* ===== verification/Text_Files.thy ===== *)
theory Text_Files
  imports Session_Log
begin

text \<open>
  Text as bytes: \<open>str.encode()\<close>, which the capture of a session log goes through, and what a text file
  opened for reading yields, its bytes decoded and its line ends translated. Both are UTF-8.
\<close>

section \<open>Encoding\<close>

definition utf8_point :: "int \<Rightarrow> int list" where
  "utf8_point c =
     (if c < 128 then [c]
      else if c < 2048 then [192 + c div 64, 128 + c mod 64]
      else if c < 65536 then [224 + c div 4096, 128 + c div 64 mod 64, 128 + c mod 64]
      else [240 + c div 262144, 128 + c div 4096 mod 64, 128 + c div 64 mod 64, 128 + c mod 64])"

text \<open>A surrogate has no encoding.\<close>

definition is_surrogate :: "int \<Rightarrow> bool" where
  "is_surrogate c \<longleftrightarrow> 0xD800 \<le> c \<and> c \<le> 0xDFFF"

definition encode_unicode :: "unicode \<Rightarrow> exn + bytes" where
  "encode_unicode cs =
     (if list_ex is_surrogate cs then Inl UnicodeError else Inr (map word_of_int (concat (map utf8_point cs))))"

section \<open>Decoding\<close>

definition tail_value :: "int list \<Rightarrow> int" where
  "tail_value bs = foldl (\<lambda>a b. a * 64 + (b - 128)) 0 bs"

definition tail_ok :: "nat \<Rightarrow> int list \<Rightarrow> bool" where
  "tail_ok n bs \<longleftrightarrow> n \<le> length bs \<and> list_all (\<lambda>b. 128 \<le> b \<and> b < 192) (take n bs)"

text \<open>The first code point and the number of bytes it takes: no overlong form, no surrogate, nothing
  above \<open>0x10FFFF\<close>.\<close>

definition utf8_head :: "int \<Rightarrow> int list \<Rightarrow> (int \<times> nat) option" where
  "utf8_head b bs =
     (if b < 128 then Some (b, 0)
      else if b < 224 then
        (let c = (b - 192) * 64 + tail_value (take 1 bs) in if tail_ok 1 bs \<and> 128 \<le> c then Some (c, 1) else None)
      else if b < 240 then
        (let c = (b - 224) * 4096 + tail_value (take 2 bs) in
         if tail_ok 2 bs \<and> 2048 \<le> c \<and> \<not> is_surrogate c then Some (c, 2) else None)
      else
        (let c = (b - 240) * 262144 + tail_value (take 3 bs) in
         if tail_ok 3 bs \<and> 65536 \<le> c \<and> c < 0x110000 then Some (c, 3) else None))"

function utf8_decode :: "int list \<Rightarrow> unicode option" where
  "utf8_decode [] = Some []"
| "utf8_decode (b # bs) =
     (case utf8_head b bs of
        None \<Rightarrow> None
      | Some (c, n) \<Rightarrow> map_option (Cons c) (utf8_decode (drop n bs)))"
  by pat_completeness auto
termination by (relation "measure length") auto

text \<open>Universal newlines.\<close>

fun universal_newlines :: "unicode \<Rightarrow> unicode" where
  "universal_newlines [] = []"
| "universal_newlines [c] = [if c = 13 then 10 else c]"
| "universal_newlines (c # d # cs) =
     (if c = 13 then 10 # universal_newlines (if d = 10 then cs else d # cs) else c # universal_newlines (d # cs))"

definition read_text :: "bytes \<Rightarrow> exn + unicode" where
  "read_text bs =
     (case utf8_decode (map uint bs) of None \<Rightarrow> Inl UnicodeError | Some cs \<Rightarrow> Inr (universal_newlines cs))"

section \<open>Reading back what was written\<close>

definition text_point :: "int \<Rightarrow> bool" where
  "text_point c \<longleftrightarrow> 0 \<le> c \<and> c < 0x110000 \<and> \<not> is_surrogate c"

text \<open>The digits of a code point to the base of 64.\<close>

lemma sextets:
  assumes "0 \<le> (c :: int)"
  obtains p q r m where "c = p * 262144 + q * 4096 + r * 64 + m" "0 \<le> p" "0 \<le> q" "q < 64" "0 \<le> r" "r < 64" "0 \<le> m" "m < 64"
    "c mod 64 = m" "c div 64 = p * 4096 + q * 64 + r" "c div 64 mod 64 = r" "c div 4096 = p * 64 + q" "c div 4096 mod 64 = q"
    "c div 262144 = p"
proof -
  define m r q p where "m = c mod 64" and "r = c div 64 mod 64" and "q = c div 4096 mod 64" and "p = c div 262144"
  have d: "c div 4096 = c div 64 div 64" "c div 262144 = c div 4096 div 64"
    using zdiv_zmult2_eq [of 64 c 64] zdiv_zmult2_eq [of 64 c 4096] by simp_all
  have c: "c = c div 64 * 64 + m" "c div 64 = c div 4096 * 64 + r" "c div 4096 = p * 64 + q"
    unfolding m_def r_def q_def p_def d by (simp_all only: div_mult_mod_eq)
  have b: "0 \<le> m" "m < 64" "0 \<le> r" "r < 64" "0 \<le> q" "q < 64" "0 \<le> p"
    unfolding m_def r_def q_def p_def using assms by simp_all
  have e: "c div 64 = p * 4096 + q * 64 + r" using c(2,3) by simp
  then have "c = p * 262144 + q * 4096 + r * 64 + m" using c(1) by simp
  then show thesis
    by (rule that) (fact b c(3) e m_def [symmetric] r_def [symmetric] q_def [symmetric] p_def [symmetric])+
qed

lemma utf8_point_decoded:
  assumes "text_point c"
  shows "utf8_decode (utf8_point c @ bs) = map_option (Cons c) (utf8_decode bs)"
proof -
  from assms have "0 \<le> c" by (simp add: text_point_def)
  then obtain p q r m where c: "c = p * 262144 + q * 4096 + r * 64 + m" "0 \<le> p" "0 \<le> q" "q < 64" "0 \<le> r" "r < 64" "0 \<le> m" "m < 64"
    and d: "c mod 64 = m" "c div 64 = p * 4096 + q * 64 + r" "c div 64 mod 64 = r" "c div 4096 = p * 64 + q" "c div 4096 mod 64 = q"
      "c div 262144 = p" by (rule sextets)
  have limit: "c < 0x110000" "\<not> is_surrogate c" using assms by (simp_all add: text_point_def)
  consider "c < 128" | "128 \<le> c" "c < 2048" | "2048 \<le> c" "c < 65536" | "65536 \<le> c" by linarith
  then show ?thesis
  proof cases
    case 1
    then show ?thesis by (simp add: utf8_point_def utf8_head_def)
  next
    case 2
    then have "p = 0" "q = 0" using c by linarith+
    with 2 have v: "utf8_point c = [192 + r, 128 + m]" by (simp add: utf8_point_def d)
    have "c = r * 64 + m" "r < 32" using 2 c \<open>p = 0\<close> \<open>q = 0\<close> by linarith+
    with 2(1) c(5-8) have "utf8_head (192 + r) ((128 + m) # bs) = Some (c, 1)"
      by (simp add: utf8_head_def tail_ok_def tail_value_def Let_def)
    with v show ?thesis by simp
  next
    case 3
    then have "p = 0" using c by linarith
    with 3 c(5,6) have v: "utf8_point c = [224 + q, 128 + r, 128 + m]" by (simp add: utf8_point_def d)
    have eq: "c = q * 4096 + r * 64 + m" "q < 16" using 3 c \<open>p = 0\<close> by linarith+
    then have "q * 4096 + tail_value [128 + r, 128 + m] = c" by (simp add: tail_value_def)
    with eq(2) 3(1) c(3-8) limit(2) have "utf8_head (224 + q) ((128 + r) # (128 + m) # bs) = Some (c, 2)"
      by (simp add: utf8_head_def tail_ok_def Let_def eval_nat_numeral)
    with v show ?thesis by (simp add: eval_nat_numeral)
  next
    case 4
    have "p < 5" using c limit by linarith
    have "(p * 4096 + q * 64 + r) mod 64 = r" using d(2,3) by simp
    with 4 c(3-6) have v: "utf8_point c = [240 + p, 128 + q, 128 + r, 128 + m]" by (simp add: utf8_point_def d)
    from 4 c limit \<open>p < 5\<close> have "utf8_head (240 + p) ((128 + q) # (128 + r) # (128 + m) # bs) = Some (c, 3)"
      by (simp add: utf8_head_def tail_ok_def tail_value_def Let_def eval_nat_numeral)
    with v show ?thesis by (simp add: eval_nat_numeral)
  qed
qed

text \<open>A character a text file gives back: not a carriage return, which is read as a line feed.\<close>

definition plain_char :: "int \<Rightarrow> bool" where
  "plain_char c \<longleftrightarrow> text_point c \<and> c \<noteq> 13"

lemma utf8_round_trip:
  "list_all text_point cs \<Longrightarrow> utf8_decode (concat (map utf8_point cs)) = Some cs"
  by (induction cs) (simp_all add: utf8_point_decoded)

lemma utf8_point_octets:
  assumes "text_point c" "b \<in> set (utf8_point c)"
  shows "0 \<le> b \<and> b < 256"
proof -
  from assms have limit: "0 \<le> c" "c < 0x110000" by (simp_all add: text_point_def)
  from limit(1) obtain p q r m where c: "c = p * 262144 + q * 4096 + r * 64 + m" "0 \<le> p" "0 \<le> q" "q < 64" "0 \<le> r" "r < 64" "0 \<le> m" "m < 64"
    and d: "c mod 64 = m" "c div 64 = p * 4096 + q * 64 + r" "c div 64 mod 64 = r" "c div 4096 = p * 64 + q" "c div 4096 mod 64 = q"
      "c div 262144 = p" by (rule sextets)
  have "p < 5" "c < 2048 \<Longrightarrow> p * 4096 + q * 64 + r < 32" "c < 65536 \<Longrightarrow> p * 64 + q < 16" using c limit by linarith+
  with assms(2) c limit show ?thesis by (auto simp: utf8_point_def d split: if_splits)
qed

lemma universal_newlines_same: "13 \<notin> set cs \<Longrightarrow> universal_newlines cs = cs"
  by (induction cs rule: universal_newlines.induct) auto

lemma text_round_trip:
  assumes "list_all plain_char cs"
  shows "\<exists>bs. encode_unicode cs = Inr bs \<and> read_text bs = Inr cs"
proof -
  have cs: "list_all text_point cs" "13 \<notin> set cs" "\<not> list_ex is_surrogate cs"
    using assms by (auto simp: list_all_iff list_ex_iff plain_char_def text_point_def)
  let ?os = "concat (map utf8_point cs)"
  have "uint (word_of_int b :: byte) = b" if "b \<in> set ?os" for b
  proof -
    from that obtain c where "c \<in> set cs" "b \<in> set (utf8_point c)" by auto
    with cs(1) utf8_point_octets [of c b] show ?thesis by (simp add: list_all_iff uint_word_of_int)
  qed
  then have "map uint (map word_of_int ?os :: bytes) = ?os" unfolding map_map by (intro map_idI) simp
  with cs show ?thesis by (simp add: encode_unicode_def read_text_def utf8_round_trip universal_newlines_same)
qed

lemma encode_keeps_ascii:
  "encode_unicode cs = Inr bs \<Longrightarrow> c \<in> set cs \<Longrightarrow> c < 128 \<Longrightarrow> word_of_int c \<in> set bs"
  by (force simp: encode_unicode_def utf8_point_def split: if_splits)

section \<open>The session log is text\<close>

lemma plain_char_ascii: "32 \<le> c \<Longrightarrow> c < 128 \<Longrightarrow> plain_char c" "plain_char 10"
  by (simp_all add: plain_char_def text_point_def is_surrogate_def)

lemma safe_is_plain: "is_safe c \<Longrightarrow> plain_char c"
  by (rule plain_char_ascii(1)) (auto simp: is_safe_def)

lemma quote_plain: "list_all plain_char w \<Longrightarrow> list_all plain_char (shlex_quote w)"
  by (auto simp: shlex_quote_def list_all_iff plain_char_ascii)

lemma key_name_plain: "plain_char k \<Longrightarrow> list_all plain_char (key_name k)"
proof (cases "reverse_get k")
  case (Some n)
  with reverse_name(4) [OF Some] show ?thesis by (fastforce simp: key_name_def list_all_iff intro: plain_char_ascii)
qed (simp add: key_name_def)

lemma key_tokens_plain:
  assumes "plain_char k" "w \<in> set (key_tokens dt k down)"
  shows "list_all plain_char w"
proof -
  have words: "list_all plain_char (pts ''pause'')" "list_all plain_char (pts ''keydown'')" "list_all plain_char (pts ''keyup'')"
    by code_simp+
  have "list_all plain_char (show_ticks dt)"
    using show_ticks_safe [of dt] safe_is_plain by (auto simp: list_all_iff)
  with words key_name_plain [OF assms(1)] assms(2) show ?thesis by (auto simp: key_tokens_def)
qed

lemma record_keys_plain:
  "list_all (\<lambda>i. plain_char (fst (snd i))) is \<Longrightarrow> record_keys is r = Ret r' \<Longrightarrow> list_all plain_char (rec_out r) \<Longrightarrow>
     list_all plain_char (rec_out r')"
proof (induction "is" arbitrary: r)
  case (Cons i "is")
  obtain now k down where i: "i = (now, k, down)" by (cases i) auto
  with Cons.prems(1) have k: "plain_char k" "0 \<le> k" "k < 0x110000" by (auto simp: plain_char_def text_point_def)
  let ?line = "concat (map (\<lambda>w. shlex_quote w @ [32]) (key_tokens (now - rec_last r) k down)) @ [10]"
  let ?u = "r\<lparr>rec_last := now, rec_out := rec_out r @ ?line\<rparr>"
  have "list_all plain_char (shlex_quote w)" if "w \<in> set (key_tokens (now - rec_last r) k down)" for w
    using key_tokens_plain [OF k(1) that] by (rule quote_plain)
  then have "list_all plain_char ?line" using plain_char_ascii by (auto simp: list_all_iff)
  with Cons.prems(3) have "list_all plain_char (rec_out ?u)" by simp
  moreover have "record_keys is ?u = Ret r'"
    using Cons.prems(2) record_key_line [OF k(2,3), of now down r] by (simp add: i)
  ultimately show ?case using Cons.IH [of ?u] Cons.prems(1) by simp
qed simp

end
