(* ===== verification/Logging_Proxy.thy ===== *)
theory Logging_Proxy
  imports Logging_Client Text_Files Capture_Archive
begin

text \<open>
  \<open>loggingproxy.VNCLoggingServerProxy\<close>, \<open>VNCLoggingClientProxy\<close> and their factory: one connection of
  a viewer through the proxy, with the two parsers that observe it and the capture.

  The bytes are forwarded by \<open>twisted.protocols.portforward\<close>, which is a parameter: its state is
  \<open>'n\<close>, and the program calls its three methods and asks on either side for \<open>peer\<close>. \<open>C2S\<close> names the
  side that takes the viewer's bytes, \<open>S2C\<close> the side that takes the server's.
\<close>

section \<open>State\<close>

record ('i, 'n) proxy_env =
  pf_made :: "'n \<Rightarrow> 'n"
  pf_data :: "tap \<Rightarrow> bytes \<Rightarrow> 'n \<Rightarrow> 'n outcome"
  pf_lost :: "'n \<Rightarrow> 'n"
  pf_peer :: "tap \<Rightarrow> 'n \<Rightarrow> bool"
  pe_env :: env
  pe_pillow :: "'i pillow"
  pe_tick :: "nat \<Rightarrow> int"
  pe_writable :: "unicode \<Rightarrow> bool"
  pe_version :: string
  pe_timestamp :: string

text \<open>\<open>_capture_vdo\<close> and \<open>_out\<close> are known by the connection they were made for; \<open>output\<close> is a
  directory when it is a string.\<close>

record proxy_factory =
  fa_password_required :: bool
  fa_password :: "string option"
  fa_directory :: "string option"
  fa_one_shot :: bool
  fa_session_taken :: bool
  fa_capture_path :: "string option"
  fa_preserve_auth :: bool
  fa_capture_failed :: bool
  fa_server_address :: string
  fa_vdo :: "nat option"
  fa_out :: "nat option"
  fa_stopped :: bool

text \<open>What \<open>recorder\<close> writes to: the \<open>StringIO\<close> of a capture, a file of the connection's own, which
  may have been closed, or the output all connections share.\<close>

datatype sink = CaptureBuffer | ClientFile bool | SharedOutput

record ('i, 'n) proxy_server = recording_server +
  px_link :: 'n
  px_sink :: "sink option"
  px_capture :: "capture option"
  px_saw_bytes :: bool
  px_refused :: bool
  px_took_session :: bool
  px_closing :: bool
  px_vnclog :: "'i logging_client option"

type_synonym ('i, 'n) proxied = "proxy_factory \<times> ('i, 'n) proxy_server"

definition new_proxy_server :: "('i, 'n) proxy_env \<Rightarrow> proxy_factory \<Rightarrow> 'n \<Rightarrow> ('i, 'n) proxy_server" where
  "new_proxy_server E fa link =
     new_server (fa_password_required fa)
       \<lparr>rs_recorder = \<lparr>rec_mouse = None, rec_last = pe_tick E 0, rec_out = []\<rparr>,
        px_link = link, px_sink = None, px_capture = None, px_saw_bytes = False, px_refused = False,
        px_took_session = False, px_closing = False, px_vnclog = None\<rparr>"

section \<open>The factory\<close>

definition capturing :: "proxy_factory \<Rightarrow> bool" where
  "capturing fa \<longleftrightarrow> fa_capture_path fa \<noteq> None \<and> fa_capture_path fa \<noteq> Some []"

text \<open>\<open>opened\<close>: whether \<open>open(outfile, "w")\<close> succeeds.\<close>

definition getRecorder :: "bool \<Rightarrow> nat \<Rightarrow> proxy_factory \<Rightarrow> (exn + sink) \<times> proxy_factory" where
  "getRecorder opened i fa =
     (if capturing fa then (Inr CaptureBuffer, fa\<lparr>fa_vdo := Some i\<rparr>)
      else if fa_directory fa \<noteq> None then
        (if opened then (Inr (ClientFile True), fa\<lparr>fa_out := Some i\<rparr>) else (Inl OSError, fa))
      else (Inr SharedOutput, fa))"

text \<open>\<open>vdo\<close>: what has been written to \<open>_capture_vdo\<close>, \<open>None\<close> when there is none.\<close>

definition getRecordedSession :: "unicode option \<Rightarrow> exn + bytes" where
  "getRecordedSession vdo = (case vdo of None \<Rightarrow> Inr [] | Some text \<Rightarrow> encode_unicode text)"

definition sessionFinished :: "proxy_factory \<Rightarrow> proxy_factory" where
  "sessionFinished fa = fa\<lparr>fa_stopped := True\<rparr>"

definition clientConnectionLost :: "proxy_factory \<Rightarrow> proxy_factory" where
  "clientConnectionLost fa = fa\<lparr>fa_out := None, fa_vdo := None\<rparr>"

section \<open>The recorder and the logging client\<close>

definition writes_log :: "srv_event \<Rightarrow> bool" where
  "writes_log e = (case e of OnKeyEvent k d \<Rightarrow> True | OnKeyExtended k d c \<Rightarrow> True | OnPointerEvent x y b \<Rightarrow> True | _ \<Rightarrow> False)"

definition sink_fault :: "('i, 'n) proxy_env \<Rightarrow> unicode \<Rightarrow> sink option \<Rightarrow> exn option" where
  "sink_fault E line k =
     (case k of
        None \<Rightarrow> Some AssertionError
      | Some CaptureBuffer \<Rightarrow> None
      | Some (ClientFile is_open) \<Rightarrow>
          if \<not> is_open then Some ValueError else if pe_writable E line then None else Some UnicodeError
      | Some SharedOutput \<Rightarrow> if pe_writable E line then None else Some UnicodeError)"

text \<open>\<open>startLogging\<close>, called on \<open>self.peer\<close>, which calls back \<open>self.peer.factory\<close>.\<close>

definition proxy_hooks ::
  "('i, 'n) proxy_env \<Rightarrow> proxy_factory \<Rightarrow> srv_event \<Rightarrow> ('i, 'n) proxy_server \<Rightarrow> ('i, 'n) proxy_server outcome" where
  "proxy_hooks E fa e s =
     (case e of
        OnClientInit shrd \<Rightarrow>
          if pf_peer E C2S (px_link s) \<and> pf_peer E S2C (px_link s)
          then Ret (s\<lparr>px_vnclog := Some (start_logging (fa_password fa) (px_capture s \<noteq> None))\<rparr>)
          else Raise AttributeError s
      | OnLoseConnection \<Rightarrow> Ret (s\<lparr>px_closing := True\<rparr>)
      | _ \<Rightarrow>
          and_then (recorder_hooks (pe_tick E) e s) (\<lambda>t.
            let old = rec_out (rs_recorder s); line = drop (length old) (rec_out (rs_recorder t)) in
            if \<not> writes_log e then Ret t
            else (case sink_fault E line (px_sink t) of
                None \<Rightarrow> Ret t
              | Some x \<Rightarrow> Raise x (t\<lparr>rs_recorder := (rs_recorder t)\<lparr>rec_out := old\<rparr>\<rparr>))))"

section \<open>Operations\<close>

definition proxy_connectionMade ::
  "('i, 'n) proxy_env \<Rightarrow> bool \<Rightarrow> nat \<Rightarrow> ('i, 'n) proxied \<Rightarrow> ('i, 'n) proxied outcome" where
  "proxy_connectionMade E opened i p =
     (let (fa, s) = p in
      if fa_one_shot fa \<and> fa_session_taken fa then Ret (fa, s\<lparr>px_refused := True, px_closing := True\<rparr>)
      else
        let s = s\<lparr>px_link := pf_made E (px_link s)\<rparr> in
        case getRecorder opened i fa of
          (Inl e, fa) \<Rightarrow> Raise e (fa, s)
        | (Inr k, fa) \<Rightarrow>
            Ret (if fa_one_shot fa then fa\<lparr>fa_session_taken := True\<rparr> else fa,
              s\<lparr>px_sink := Some k, px_took_session := fa_one_shot fa,
                px_capture := if capturing fa then Some (new_capture (fa_preserve_auth fa)) else None\<rparr>))"

definition abortCapture :: "('i, 'n) proxy_env \<Rightarrow> ('i, 'n) proxied \<Rightarrow> ('i, 'n) proxied" where
  "abortCapture E p =
     (let (fa, s) = p in
      (fa\<lparr>fa_capture_failed := True\<rparr>,
       s\<lparr>px_capture := None, px_closing := True,
         px_vnclog := if pf_peer E C2S (px_link s) then map_option (\<lambda>v. v\<lparr>lc_capturing := False\<rparr>) (px_vnclog s)
                      else px_vnclog s\<rparr>))"

text \<open>The head of both \<open>dataReceived\<close> methods: the capture takes the bytes before anything else.\<close>

definition capture_first ::
  "('i, 'n) proxy_env \<Rightarrow> tap \<Rightarrow> bytes \<Rightarrow> (('i, 'n) proxied \<Rightarrow> ('i, 'n) proxied outcome option) \<Rightarrow>
   ('i, 'n) proxied \<Rightarrow> ('i, 'n) proxied outcome option" where
  "capture_first E tap data k p =
     (let (fa, s) = p; s = s\<lparr>px_saw_bytes := px_saw_bytes s \<or> data \<noteq> []\<rparr> in
      case px_capture s of
        None \<Rightarrow> k (fa, s)
      | Some c \<Rightarrow>
          let s = s\<lparr>px_capture := Some (cap_feed tap data c)\<rparr> in
          if capture_abort_reason (cap_feed tap data c) \<noteq> None then Some (Ret (abortCapture E (fa, s)))
          else k (fa, s))"

definition forward :: "('i, 'n) proxy_env \<Rightarrow> tap \<Rightarrow> bytes \<Rightarrow> ('i, 'n) proxied \<Rightarrow> ('i, 'n) proxied outcome" where
  "forward E tap data p =
     (let (fa, s) = p in map_outcome (\<lambda>l. (fa, s\<lparr>px_link := l\<rparr>)) (pf_data E tap data (px_link s)))"

text \<open>Whatever a parser raises is logged and dropped; \<open>None\<close> is a parser that does not return.\<close>

definition observe_client ::
  "('i, 'n) proxy_env \<Rightarrow> bytes \<Rightarrow> ('i, 'n) proxied \<Rightarrow> ('i, 'n) proxied outcome option" where
  "observe_client E data p =
     (let (fa, s) = p in
      case srv_dataReceived (proxy_hooks E fa) data s of
        None \<Rightarrow> None
      | Some r \<Rightarrow> Some (forward E C2S data (fa, final r)))"

definition proxy_client_data ::
  "('i, 'n) proxy_env \<Rightarrow> bytes \<Rightarrow> ('i, 'n) proxied \<Rightarrow> ('i, 'n) proxied outcome option" where
  "proxy_client_data E data p =
     (if px_refused (snd p) then Some (Ret p) else capture_first E C2S data (observe_client E data) p)"

text \<open>The rectangles the decoder noted go into the capture it shares with the proxy.\<close>

definition take_notes :: "'i logging_client \<Rightarrow> ('i, 'n) proxy_server \<Rightarrow> ('i, 'n) proxy_server" where
  "take_notes v s = s\<lparr>px_vnclog := Some (v\<lparr>lc_noted := []\<rparr>), px_capture := map_option (fold note_encoding (lc_noted v)) (px_capture s)\<rparr>"

definition observe_server ::
  "('i, 'n) proxy_env \<Rightarrow> bytes \<Rightarrow> ('i, 'n) proxied \<Rightarrow> ('i, 'n) proxied outcome option" where
  "observe_server E data p =
     (let (fa, s) = p in
      case px_vnclog s of
        None \<Rightarrow> Some (forward E S2C data p)
      | Some v \<Rightarrow>
          (case log_dataReceived (pe_pillow E) (pe_env E) data v of
             None \<Rightarrow> None
           | Some r \<Rightarrow> Some (forward E S2C data (fa, take_notes (final r) s))))"

definition proxy_server_data ::
  "('i, 'n) proxy_env \<Rightarrow> bytes \<Rightarrow> ('i, 'n) proxied \<Rightarrow> ('i, 'n) proxied outcome option" where
  "proxy_server_data E data p =
     (if pf_peer E S2C (px_link (snd p)) then capture_first E S2C data (observe_server E data) p
      else observe_server E data p)"

text \<open>\<open>_writeCapture\<close> with the file system: \<open>meta\<close> and \<open>getRecordedSession\<close> are evaluated before
  \<open>write_archive\<close> flushes.\<close>

definition writeCapture ::
  "('i, 'n) proxy_env \<Rightarrow> (nat \<times> disk_file option) option \<Rightarrow> unicode option \<Rightarrow> ('i, 'n) proxied \<times> files \<Rightarrow>
   (('i, 'n) proxied \<times> files) outcome" where
  "writeCapture E fault vdo w =
     (let ((fa, s), fs) = w in
      case (px_capture s, fa_capture_path fa) of
        (Some c, Some path) \<Rightarrow>
          let m = capture_meta (fa_server_address fa) (pe_timestamp E) (pe_version E) c in
          with_value (getRecordedSession vdo) w (\<lambda>session.
            case write_archive fault path m session c fs of
              (c, states, True) \<Rightarrow> Raise OSError ((fa, s\<lparr>px_capture := Some c\<rparr>), last states)
            | (c, states, False) \<Rightarrow> Ret ((fa, s\<lparr>px_capture := None\<rparr>), last states))
      | _ \<Rightarrow> Raise AssertionError w)"

definition proxy_connectionLost ::
  "('i, 'n) proxy_env \<Rightarrow> (nat \<times> disk_file option) option \<Rightarrow> unicode option \<Rightarrow> ('i, 'n) proxied \<times> files \<Rightarrow>
   ('i, 'n) proxied \<times> files" where
  "proxy_connectionLost E fault vdo w =
     (let ((fa, s), fs) = w in
      if px_refused s then w
      else
        let ((fa, s), fs) =
          (if px_saw_bytes s then
             let ((fa, s), fs) =
               (if px_capture s = None then w
                else case writeCapture E fault vdo w of
                    Ret w \<Rightarrow> w
                  | Raise e ((fa, s), fs) \<Rightarrow> ((fa\<lparr>fa_capture_failed := True\<rparr>, s), fs))
             in ((if fa_one_shot fa then sessionFinished fa else fa, s), fs)
           else ((if px_took_session s then fa\<lparr>fa_session_taken := False\<rparr> else fa, s\<lparr>px_capture := None\<rparr>), fs))
        in ((clientConnectionLost fa, s\<lparr>px_link := pf_lost E (px_link s)\<rparr>), fs))"

end
