(* ===== verification/Screen_Sessions.thy ===== *)
theory Screen_Sessions
  imports Client_Screen Rfb_Sessions
begin

text \<open>
  What the screen of \<open>VNCDoToolClient\<close> shows. A picture is a size and the colours inside it;
  \<open>draw_spec\<close> and \<open>resize_spec\<close> say what an update and a new desktop size do to it. Pillow is the
  parameter \<open>P\<close> with a function \<open>px\<close> that reads a pixel, and \<open>pillow_laws\<close> is what its manual
  promises of \<open>Image.new\<close>, \<open>paste\<close> without a mask, and \<open>frombytes\<close> with a raw mode of whole bytes.

  The lemmas show that the client's screen refines pictures, and follow an update from its bytes
  on the wire to the file \<open>captureScreen\<close> writes.
\<close>

section \<open>Pictures\<close>

type_synonym rgb = "int \<times> int \<times> int"
type_synonym picture = "(int \<times> int) \<times> (int \<times> int \<rightharpoonup> rgb)"

definition inside :: "int \<times> int \<Rightarrow> int \<Rightarrow> int \<Rightarrow> bool" where
  "inside sz i j \<longleftrightarrow> 0 \<le> i \<and> i < fst sz \<and> 0 \<le> j \<and> j < snd sz"

definition blank :: "int \<times> int \<Rightarrow> picture" where
  "blank sz = (sz, \<lambda>(i, j). if inside sz i j then Some (0, 0, 0) else None)"

text \<open>On a canvas of another size: cut off, or black where there was nothing.\<close>

definition on_canvas :: "int \<times> int \<Rightarrow> picture \<Rightarrow> picture" where
  "on_canvas sz p = (sz, \<lambda>(i, j). if inside sz i j then (case snd p (i, j) of None \<Rightarrow> Some (0, 0, 0) | Some c \<Rightarrow> Some c) else None)"

definition draw :: "rect \<Rightarrow> (int \<Rightarrow> int \<Rightarrow> rgb) \<Rightarrow> picture \<Rightarrow> picture" where
  "draw r col p = (case r of (x, y, w, h) \<Rightarrow>
     (fst p, \<lambda>(i, j). if inside (fst p) i j \<and> inside (w, h) (i - x) (j - y) then Some (col (i - x) (j - y)) else snd p (i, j)))"

text \<open>The first update makes a screen of the framebuffer's size, a later one enlarges it.\<close>

definition draw_spec :: "int \<times> int \<Rightarrow> rect \<Rightarrow> (int \<Rightarrow> int \<Rightarrow> rgb) \<Rightarrow> picture option \<Rightarrow> picture" where
  "draw_spec fb r col p = draw r col
     (case p of
        None \<Rightarrow> blank fb
      | Some p \<Rightarrow> (case r of (x, y, w, h) \<Rightarrow> on_canvas (max (x + w) (fst (fst p)), max (y + h) (snd (fst p))) p))"

definition resize_spec :: "int \<times> int \<Rightarrow> picture option \<Rightarrow> picture" where
  "resize_spec sz p = (case p of None \<Rightarrow> blank sz | Some p \<Rightarrow> on_canvas sz p)"

section \<open>Colours on the wire\<close>

definition wire_rgb :: "PixelFormat \<Rightarrow> bytes \<Rightarrow> rgb" where
  "wire_rgb pf bs = (let v = pixel_value pf bs in
     (channel_value (redshift pf) 255 v, channel_value (greenshift pf) 255 v, channel_value (blueshift pf) 255 v))"

definition pixel_at :: "nat \<Rightarrow> int \<Rightarrow> bytes \<Rightarrow> int \<Rightarrow> int \<Rightarrow> bytes" where
  "pixel_at n w data i j = take n (drop (nat (j * w + i) * n) data)"

definition rect_colours :: "PixelFormat \<Rightarrow> int \<Rightarrow> bytes \<Rightarrow> int \<Rightarrow> int \<Rightarrow> rgb" where
  "rect_colours pf w data i j = wire_rgb pf (pixel_at (nat (pf_bypp pf)) w data i j)"

text \<open>What the letters of a raw mode of whole bytes say.\<close>

definition octet :: "string \<Rightarrow> bytes \<Rightarrow> char \<Rightarrow> int" where
  "octet mode bs c = uint (bs ! length (takeWhile (\<lambda>m. m \<noteq> c) mode))"

definition raw_pixel :: "string \<Rightarrow> bytes \<Rightarrow> rgb" where
  "raw_pixel mode bs = (octet mode bs CHR ''R'', octet mode bs CHR ''G'', octet mode bs CHR ''B'')"

section \<open>What is promised of Pillow\<close>

definition new_law :: "'i pillow \<Rightarrow> ('i \<Rightarrow> int \<Rightarrow> int \<Rightarrow> rgb) \<Rightarrow> bool" where
  "new_law P px \<longleftrightarrow> (\<forall>w h. 0 \<le> w \<longrightarrow> 0 \<le> h \<longrightarrow>
     im_size P (im_new P (w, h)) = (w, h) \<and> (\<forall>i j. inside (w, h) i j \<longrightarrow> px (im_new P (w, h)) i j = (0, 0, 0)))"

definition paste_law :: "'i pillow \<Rightarrow> ('i \<Rightarrow> int \<Rightarrow> int \<Rightarrow> rgb) \<Rightarrow> bool" where
  "paste_law P px \<longleftrightarrow> (\<forall>a b x y. \<exists>c. im_paste P a b (x, y) None = Inr c \<and> im_size P c = im_size P a \<and>
     (\<forall>i j. inside (im_size P a) i j \<longrightarrow>
        px c i j = (if inside (im_size P b) (i - x) (j - y) then px b (i - x) (j - y) else px a i j)))"

definition raw_law :: "'i pillow \<Rightarrow> ('i \<Rightarrow> int \<Rightarrow> int \<Rightarrow> rgb) \<Rightarrow> bool" where
  "raw_law P px \<longleftrightarrow> (\<forall>mode w h data. mode \<in> set (MODES_32BPP @ MODES_24BPP) \<longrightarrow> 0 < w \<longrightarrow> 0 < h \<longrightarrow>
     int (length data) = w * h * int (length mode) \<longrightarrow>
     (\<exists>u. im_frombytes P ''RGB'' (w, h) data (Some mode) = Inr u \<and> im_size P u = (w, h) \<and>
        (\<forall>i j. inside (w, h) i j \<longrightarrow> px u i j = raw_pixel mode (pixel_at (length mode) w data i j))))"

definition pillow_laws :: "'i pillow \<Rightarrow> ('i \<Rightarrow> int \<Rightarrow> int \<Rightarrow> rgb) \<Rightarrow> bool" where
  "pillow_laws P px \<longleftrightarrow> new_law P px \<and> paste_law P px \<and> raw_law P px"

definition image_view :: "'i pillow \<Rightarrow> ('i \<Rightarrow> int \<Rightarrow> int \<Rightarrow> rgb) \<Rightarrow> 'i \<Rightarrow> picture" where
  "image_view P px im = (im_size P im, \<lambda>(i, j). if inside (im_size P im) i j then Some (px im i j) else None)"

definition screen_view :: "'i pillow \<Rightarrow> ('i \<Rightarrow> int \<Rightarrow> int \<Rightarrow> rgb) \<Rightarrow> ('i, 'a) dclient \<Rightarrow> picture option" where
  "screen_view P px s = map_option (image_view P px) (sc_screen s)"

section \<open>The laws on pictures\<close>

lemma new_view:
  assumes "pillow_laws P px" "0 \<le> w" "0 \<le> h"
  shows "image_view P px (im_new P (w, h)) = blank (w, h)" "im_size P (im_new P (w, h)) = (w, h)"
  using assms by (auto simp: pillow_laws_def new_law_def image_view_def blank_def fun_eq_iff)

lemma paste_view:
  assumes "pillow_laws P px"
  shows "\<exists>c. im_paste P a b (x, y) None = Inr c \<and> im_size P c = im_size P a \<and>
    image_view P px c = draw (x, y, fst (im_size P b), snd (im_size P b)) (px b) (image_view P px a)"
proof -
  from assms obtain c where "im_paste P a b (x, y) None = Inr c" "im_size P c = im_size P a"
    "\<And>i j. inside (im_size P a) i j \<Longrightarrow>
      px c i j = (if inside (im_size P b) (i - x) (j - y) then px b (i - x) (j - y) else px a i j)"
    unfolding pillow_laws_def paste_law_def by blast
  then show ?thesis by (auto simp: image_view_def draw_def fun_eq_iff)
qed

lemma draw_cong: "(\<And>i j. inside (w, h) i j \<Longrightarrow> f i j = g i j) \<Longrightarrow> draw (x, y, w, h) f p = draw (x, y, w, h) g p"
  by (auto simp: draw_def fun_eq_iff)

text \<open>Pasting a picture at the corner of a blank canvas puts it on that canvas.\<close>

lemma paste_on_blank:
  "draw (0, 0, fst (im_size P a), snd (im_size P a)) (px a) (blank sz) = on_canvas sz (image_view P px a)"
  by (auto simp: draw_def blank_def on_canvas_def image_view_def fun_eq_iff)

lemma on_canvas_same: "on_canvas (im_size P a) (image_view P px a) = image_view P px a"
  by (auto simp: on_canvas_def image_view_def fun_eq_iff)

lemma raw_pixel_wire:
  assumes "raw_mode pf = Inr mode" "bpp pf = 32 \<or> bpp pf = 24" "8 * int (length bs) = bpp pf"
  shows "raw_pixel mode bs = wire_rgb pf bs" "length mode = length bs"
proof -
  obtain n modes where m: "byte_mode pf (int n) (map int [0..<n]) modes = Inr mode" and n: "bpp pf = 8 * int n"
    and rgb: "\<forall>m \<in> set modes. CHR ''R'' \<in> set m \<and> CHR ''G'' \<in> set m \<and> CHR ''B'' \<in> set m"
    using raw_mode_byte_mode [OF assms(1,2)] by blast
  from m obtain ps where ps: "byte_positions pf (int n) = Inr ps" "mode = mode_string ps (map int [0..<n])" "mode \<in> set modes"
    by (auto simp: byte_mode_def bind_sum_Inr_iff Let_def split: if_splits)
  have len: "length bs = n" "length mode = n" using assms(3) n ps(2) by (simp_all add: mode_string_def)
  then show "length mode = length bs" by simp
  have "octet mode bs c = channel_value shift 255 (pixel_value pf bs)" if "(c, shift) \<in> set (channel_list pf)" for c shift
  proof -
    let ?k = "length (takeWhile (\<lambda>m. m \<noteq> c) mode)"
    from that rgb ps(3) have "c \<in> set mode" by (auto simp: channel_list_def)
    then have "takeWhile (\<lambda>m. m \<noteq> c) mode \<noteq> mode" by (auto simp: takeWhile_eq_all_conv)
    then have "?k \<noteq> length mode" by (metis takeWhile_eq_take take_all order_refl)
    then have "?k < n" using len(2) length_takeWhile_le [of "\<lambda>m. m \<noteq> c" mode] by linarith
    with len(2) have k: "?k < n" "mode ! ?k = c" using nth_length_takeWhile [of "\<lambda>m. m \<noteq> c" mode] by auto
    with mode_string_channel [OF ps(1) _ _ that, of ?k "map int [0..<n]"] ps(2)
    have "shift mod 8 = 0" "byte_of_shift pf (int n) shift = int ?k" by auto
    with byte_channel_value [of pf bs shift ?k] k len show ?thesis by (simp add: octet_def)
  qed
  then show "raw_pixel mode bs = wire_rgb pf bs"
    by (simp add: raw_pixel_def wire_rgb_def channel_list_def Let_def)
qed

section \<open>Updates\<close>

text \<open>The cached raw mode is the one of the cached format.\<close>

definition mode_cached :: "('i, 'a) dclient \<Rightarrow> bool" where
  "mode_cached s \<longleftrightarrow> (case sc_raw_format s of None \<Rightarrow> True
     | Some pf \<Rightarrow> (case raw_mode pf of Inl e \<Rightarrow> True | Inr mode \<Rightarrow> sc_raw_mode s = mode))"

definition drawable :: "('i, 'a) dclient \<Rightarrow> bool" where
  "drawable s \<longleftrightarrow> sc_cursor s = None \<and> mode_cached s \<and> 0 \<le> fb_width s \<and> 0 \<le> fb_height s"

text \<open>Formats whose channels are whole bytes, which the client asks for by default.\<close>

definition byte_format :: "PixelFormat \<Rightarrow> string \<Rightarrow> bool" where
  "byte_format pf mode \<longleftrightarrow> raw_mode pf = Inr mode \<and> (bpp pf = 32 \<or> bpp pf = 24)"

definition drawn :: "PixelFormat \<Rightarrow> string \<Rightarrow> 'i \<Rightarrow> ('i, 'a) dclient \<Rightarrow> ('i, 'a) dclient" where
  "drawn pf mode im s = s\<lparr>sc_raw_format := Some pf, sc_raw_mode := mode, sc_screen := Some im\<rparr>"

lemma byte_format_size:
  assumes "byte_format pf mode"
  shows "mode \<in> set (MODES_32BPP @ MODES_24BPP)" "pf_bypp pf = int (length mode)" "bpp pf = 8 * int (length mode)"
proof -
  let ?bs = "replicate (nat (pf_bypp pf)) 0 :: bytes"
  from assms have bypp: "8 * pf_bypp pf = bpp pf" "0 \<le> pf_bypp pf" by (auto simp: byte_format_def pf_bypp_def)
  with assms raw_pixel_wire(2) [of pf mode ?bs] have "length mode = nat (pf_bypp pf)" by (simp add: byte_format_def)
  with bypp show "pf_bypp pf = int (length mode)" "bpp pf = 8 * int (length mode)" by simp_all
  from assms show "mode \<in> set (MODES_32BPP @ MODES_24BPP)"
    by (auto simp: byte_format_def raw_mode_def byte_mode_def bind_sum_Inr_iff Let_def split: if_splits)
qed

lemma rawModeFor_cached:
  assumes "mode_cached s" "raw_mode pf = Inr mode"
  shows "rawModeFor pf s = (Inr mode, s\<lparr>sc_raw_format := Some pf, sc_raw_mode := mode\<rparr>)"
  using assms by (auto simp: rawModeFor_def mode_cached_def Let_def)

lemma pixel_at_length:
  assumes "inside (w, h) i j" "int (length data) = w * h * int n"
  shows "length (pixel_at n w data i j) = n"
proof -
  have "j * w + i + 1 \<le> j * w + w" using assms(1) by (simp add: inside_def)
  also have "\<dots> = (j + 1) * w" by (simp add: algebra_simps)
  also have "\<dots> \<le> h * w" using assms(1) by (intro mult_right_mono) (auto simp: inside_def)
  finally have "(j * w + i + 1) * int n \<le> w * h * int n" by (intro mult_right_mono) (auto simp: algebra_simps)
  moreover have "0 \<le> j * w + i" using assms(1) by (simp add: inside_def)
  ultimately have "int (nat (j * w + i) * n + n) \<le> int (length data)" using assms(2) by (simp add: algebra_simps)
  then have "nat (j * w + i) * n + n \<le> length data" by (simp only: of_nat_le_iff)
  then show ?thesis by (simp add: pixel_at_def)
qed

lemma decode_view:
  assumes "pillow_laws P px" "byte_format pf mode" "0 < w" "0 < h" "int (length data) = w * h * pf_bypp pf"
  shows "\<exists>u. im_frombytes P ''RGB'' (w, h) data (Some mode) = Inr u \<and> im_size P u = (w, h) \<and>
    (\<forall>i j. inside (w, h) i j \<longrightarrow> px u i j = rect_colours pf w data i j)"
proof -
  note size = byte_format_size [OF assms(2)]
  from assms(1,3-) size(1,2) obtain u where u: "im_frombytes P ''RGB'' (w, h) data (Some mode) = Inr u"
    "im_size P u = (w, h)" "\<And>i j. inside (w, h) i j \<Longrightarrow> px u i j = raw_pixel mode (pixel_at (length mode) w data i j)"
    unfolding pillow_laws_def raw_law_def by metis
  have "raw_pixel mode (pixel_at (length mode) w data i j) = rect_colours pf w data i j" if "inside (w, h) i j" for i j
    using raw_pixel_wire(1) [of pf mode "pixel_at (length mode) w data i j"] pixel_at_length [OF that] assms(2,5) size
    by (simp add: byte_format_def rect_colours_def)
  with u show ?thesis by auto
qed

lemma paste_update_view:
  assumes "pillow_laws P px" "0 \<le> fb_width s" "0 \<le> fb_height s" "0 \<le> x" "0 \<le> y" "0 \<le> w" "0 \<le> h"
    and u: "im_size P u = (w, h)" "\<And>i j. inside (w, h) i j \<Longrightarrow> px u i j = col i j"
  shows "\<exists>im. paste_update P u x y w h s = Ret (s\<lparr>sc_screen := Some im\<rparr>) \<and>
    image_view P px im = draw_spec (fb_width s, fb_height s) (x, y, w, h) col (screen_view P px s)"
proof -
  have pasted: "\<exists>c. im_paste P a u (x, y) None = Inr c \<and> image_view P px c = draw (x, y, w, h) col (image_view P px a)" for a
    using paste_view [OF assms(1), of a u x y] draw_cong [of w h "px u" col x y "image_view P px a"] u by auto
  show ?thesis
  proof (cases "sc_screen s")
    case None
    with pasted [of "im_new P (fb_width s, fb_height s)"] assms(1-3) show ?thesis
      by (auto simp: paste_update_def Let_def draw_spec_def screen_view_def new_view)
  next
    case (Some a)
    let ?sz = "(max (x + w) (fst (im_size P a)), max (y + h) (snd (im_size P a)))"
    have spec: "draw_spec fb (x, y, w, h) col (screen_view P px s) = draw (x, y, w, h) col (on_canvas ?sz (image_view P px a))" for fb
      by (simp add: draw_spec_def screen_view_def Some image_view_def)
    show ?thesis
    proof (cases "fst (im_size P a) < x + w \<or> snd (im_size P a) < y + h")
      case True
      from paste_view [OF assms(1), of "im_new P ?sz" a 0 0] obtain n where
        n: "im_paste P (im_new P ?sz) a (0, 0) None = Inr n"
        "image_view P px n = draw (0, 0, fst (im_size P a), snd (im_size P a)) (px a) (image_view P px (im_new P ?sz))" by blast
      have "image_view P px (im_new P ?sz) = blank ?sz" using assms by (intro new_view) auto
      with n(2) paste_on_blank [of P a px ?sz] have "image_view P px n = on_canvas ?sz (image_view P px a)" by simp
      with n(1) pasted [of n] spec True Some show ?thesis by (auto simp: paste_update_def Let_def)
    next
      case False
      then have "?sz = im_size P a" by (auto simp: max_def prod_eq_iff)
      then have "on_canvas ?sz (image_view P px a) = image_view P px a" by (metis on_canvas_same)
      with pasted [of a] spec False Some show ?thesis by (auto simp: paste_update_def Let_def)
    qed
  qed
qed

lemma update_draws:
  assumes "pillow_laws P px" "byte_format pf mode" "drawable s" "0 \<le> x" "0 \<le> y" "0 < w" "0 < h"
    and "int (length data) = w * h * pf_bypp pf"
  shows "\<exists>im. do_updateRectangle P x y w h data pf s = Ret (drawn pf mode im s) \<and>
    image_view P px im = draw_spec (fb_width s, fb_height s) (x, y, w, h) (rect_colours pf w data) (screen_view P px s)"
proof -
  let ?s = "s\<lparr>sc_raw_format := Some pf, sc_raw_mode := mode\<rparr>"
  have "0 < pf_bypp pf" using assms(2) by (auto simp: byte_format_def pf_bypp_def)
  with assms(6-8) have "data \<noteq> []" by auto
  moreover from assms(2,3) have "rawModeFor pf s = (Inr mode, ?s)"
    by (simp add: rawModeFor_cached drawable_def byte_format_def)
  moreover obtain u where u: "im_frombytes P ''RGB'' (w, h) data (Some mode) = Inr u" "im_size P u = (w, h)"
    "\<And>i j. inside (w, h) i j \<Longrightarrow> px u i j = rect_colours pf w data i j"
    using decode_view [OF assms(1,2,6,7,8)] by blast
  moreover obtain im where im: "paste_update P u x y w h ?s = Ret (?s\<lparr>sc_screen := Some im\<rparr>)"
    "image_view P px im = draw_spec (fb_width s, fb_height s) (x, y, w, h) (rect_colours pf w data) (screen_view P px s)"
    using paste_update_view [of P px ?s x y w h u "rect_colours pf w data"] assms u(2,3)
    by (auto simp: drawable_def screen_view_def)
  moreover have "sc_cursor s = None" using assms(3) by (simp add: drawable_def)
  ultimately show ?thesis
    by (intro exI [of _ im]) (simp add: do_updateRectangle_def drawn_def drawCursor_def)
qed

section \<open>Rectangles of an update\<close>

text \<open>A rectangle's place and its pixels as sent; the pictures they make one after another.\<close>

type_synonym raw_rect = "rect \<times> bytes"

definition raw_colours :: "PixelFormat \<Rightarrow> raw_rect \<Rightarrow> int \<Rightarrow> int \<Rightarrow> rgb" where
  "raw_colours pf r = (case r of ((x, y, w, h), data) \<Rightarrow> rect_colours pf w data)"

fun paint_all :: "PixelFormat \<Rightarrow> int \<times> int \<Rightarrow> raw_rect list \<Rightarrow> picture option \<Rightarrow> picture option" where
  "paint_all pf fb [] p = p"
| "paint_all pf fb (r # rs) p = paint_all pf fb rs (Some (draw_spec fb (fst r) (raw_colours pf r) p))"

definition wraw :: "raw_rect \<Rightarrow> wire_rect" where
  "wraw r = WRaw (fst r) (snd r)"

definition solid :: "rect \<Rightarrow> bool" where
  "solid r \<longleftrightarrow> (case r of (x, y, w, h) \<Rightarrow> 0 < w \<and> 0 < h)"

text \<open>What drawing leaves alone.\<close>

definition same_session :: "('i, 'a) dclient \<Rightarrow> ('i, 'a) dclient \<Rightarrow> bool" where
  "same_session s t \<longleftrightarrow> top t = top s \<and> pixel_format t = pixel_format s \<and> fb_width t = fb_width s \<and>
     fb_height t = fb_height s \<and> sc_deferred t = sc_deferred s \<and> sc_log t = sc_log s \<and> sc_cursor t = sc_cursor s \<and> keyLen t = keyLen s"

lemma same_session_simps [simp]:
  "same_session s (arm hdl n t) = same_session s t" "same_session s (log_io a t) = same_session s t"
  "same_session s (drawn pf mode im t) = same_session s t" "same_session s (received r bk hdl n rest t) = same_session s t"
  by (simp_all add: same_session_def arm_def log_io_def drawn_def received_def)

lemma same_session_refl [simp]: "same_session s s"
  by (simp add: same_session_def)

lemma same_session_trans: "same_session s t \<Longrightarrow> same_session t u \<Longrightarrow> same_session s u"
  by (simp add: same_session_def)

lemma view_simps [simp]:
  "screen_view P px (arm hdl n s) = screen_view P px s" "screen_view P px (log_io a s) = screen_view P px s"
  "screen_view P px (received r bk hdl n rest s) = screen_view P px s"
  "screen_view P px (drawn pf mode im s) = Some (image_view P px im)"
  "drawable (arm hdl n s) = drawable s" "drawable (log_io a s) = drawable s"
  "drawable (received r bk hdl n rest s) = drawable s"
  by (simp_all add: screen_view_def arm_def log_io_def received_def drawn_def drawable_def mode_cached_def
      cong: option.case_cong sum.case_cong)

lemma drawable_drawn: "byte_format pf mode \<Longrightarrow> drawable s \<Longrightarrow> drawable (drawn pf mode im s)"
  by (simp add: drawn_def drawable_def mode_cached_def byte_format_def)

text \<open>One rectangle: it is on the screen when the client turns to what follows.\<close>

lemma do_rect_drawn:
  assumes "pillow_laws P px" "byte_format (pixel_format s) mode" "drawable s" "solid (fst r)"
    and "awaiting (wraw r) rest s"
  shows "\<exists>t. (\<forall>t'. doConnection (do_hooks P env) t = Ret t' \<longrightarrow> run_loop env (do_hooks P env) s = run_loop env (do_hooks P env) t') \<and>
    same_session s t \<and> drawable t \<and> aborted t = aborted s \<and> packet t = rest \<and> rectangles t = rectangles s - 1 \<and>
    rectanglePos t = rectanglePos s @ [fst r] \<and>
    screen_view P px t = Some (draw_spec (fb_width s, fb_height s) (fst r) (raw_colours (pixel_format s) r) (screen_view P px s))"
proof -
  let ?H = "do_hooks P env" let ?pf = "pixel_format s"
  obtain x y w h data where r: "r = ((x, y, w, h), data)" by (metis surj_pair)
  from assms(4,5) have rect: "0 \<le> x" "0 \<le> y" "0 < w" "0 < h" "int (length data) = w * h * pf_bypp ?pf"
    by (simp_all add: r solid_def awaiting_def wraw_def client_bypp_def)
  from assms(5) obtain bk hdl n where
    step: "\<And>t t'. call ?H (UpdateRectangle x y w h data ?pf) (received (x, y, w, h) bk hdl n rest s) = Ret t \<Longrightarrow>
      doConnection ?H t = Ret t' \<Longrightarrow> run_loop env ?H s = run_loop env ?H t'"
    using raw_rect_step [of x y w h data rest s ?H env] unfolding r wraw_def fst_conv snd_conv by blast
  let ?u = "log_io (Call (UpdateRectangle x y w h data ?pf)) (received (x, y, w, h) bk hdl n rest s)"
  have size: "fb_width ?u = fb_width s" "fb_height ?u = fb_height s" by (simp_all add: log_io_def received_def arm_def)
  from update_draws [OF assms(1,2), of ?u x y w h data] rect assms(3) obtain im where
    im: "do_updateRectangle P x y w h data ?pf ?u = Ret (drawn ?pf mode im ?u)"
    "image_view P px im = draw_spec (fb_width s, fb_height s) (x, y, w, h) (rect_colours ?pf w data) (screen_view P px s)"
    unfolding size by auto
  then have "call ?H (UpdateRectangle x y w h data ?pf) (received (x, y, w, h) bk hdl n rest s) = Ret (drawn ?pf mode im ?u)"
    by (simp add: call_def do_hooks_def)
  moreover have "aborted (drawn ?pf mode im ?u) = aborted s" "packet (drawn ?pf mode im ?u) = rest"
    "rectangles (drawn ?pf mode im ?u) = rectangles s - 1" "rectanglePos (drawn ?pf mode im ?u) = rectanglePos s @ [(x, y, w, h)]"
    by (simp_all add: drawn_def received_def arm_def log_io_def)
  ultimately show ?thesis
    using step assms(2,3) im(2) by (intro exI [of _ "drawn ?pf mode im ?u"]) (simp add: drawable_drawn r raw_colours_def)
qed

lemma do_rects_drawn:
  assumes "pillow_laws P px" "byte_format (pixel_format s) mode" "drawable s" "\<not> aborted s"
    and "expected_handler s = Message RectangleHeader" "expected_len s = 12"
    and "rectangles s = int (length rs)" "rs \<noteq> []" "packet s = concat (map (\<lambda>r. encode_rect (wraw r)) rs) @ rest"
    and "list_all (\<lambda>r. solid (fst r) \<and> valid_rect (fb_width s) (fb_height s) (client_bypp s) (wraw r)) rs"
  shows "\<exists>t. (\<forall>t'. doConnection (do_hooks P env) t = Ret t' \<longrightarrow> run_loop env (do_hooks P env) s = run_loop env (do_hooks P env) t') \<and>
    same_session s t \<and> \<not> aborted t \<and> packet t = rest \<and> rectangles t = 0 \<and>
    rectanglePos t = rectanglePos s @ map fst rs \<and>
    screen_view P px t = paint_all (pixel_format s) (fb_width s, fb_height s) rs (screen_view P px s)"
  using assms(2-)
proof (induction rs arbitrary: s)
  case (Cons r rs)
  let ?H = "do_hooks P env"
  let ?rest = "concat (map (\<lambda>r. encode_rect (wraw r)) rs) @ rest"
  have "0 \<le> client_bypp s"
    using Cons.prems(1) by (auto simp: byte_format_def client_bypp_def pf_bypp_def)
  with Cons.prems have "awaiting (wraw r) ?rest s" "solid (fst r)" by (simp_all add: awaiting_def)
  from do_rect_drawn [OF assms(1) Cons.prems(1,2) this(2,1), of env] obtain t where
    step: "\<And>t'. doConnection ?H t = Ret t' \<Longrightarrow> run_loop env ?H s = run_loop env ?H t'"
    and t: "same_session s t" "drawable t" "\<not> aborted t" "packet t = ?rest" "rectangles t = int (length rs)"
      "rectanglePos t = rectanglePos s @ [fst r]"
      "screen_view P px t = Some (draw_spec (fb_width s, fb_height s) (fst r) (raw_colours (pixel_format s) r) (screen_view P px s))"
    using Cons.prems by auto
  show ?case
  proof (cases "rs = []")
    case True
    with step t show ?thesis by (intro exI [of _ t]) auto
  next
    case False
    let ?t = "arm (Message RectangleHeader) 12 t"
    from t(1) have same: "pixel_format ?t = pixel_format s" "fb_width ?t = fb_width s" "fb_height ?t = fb_height s"
      "client_bypp ?t = client_bypp s"
      by (simp_all add: same_session_def arm_def client_bypp_def)
    from False t(5) have on: "run_loop env ?H s = run_loop env ?H ?t"
      by (intro step) (simp add: doConnection_def)
    have pos: "rectanglePos ?t = rectanglePos s @ [fst r]" "same_session s ?t"
      using t by (simp_all, simp_all add: arm_def)
    have "\<exists>u. (\<forall>t'. doConnection ?H u = Ret t' \<longrightarrow> run_loop env ?H ?t = run_loop env ?H t') \<and>
      same_session ?t u \<and> \<not> aborted u \<and> packet u = rest \<and> rectangles u = 0 \<and>
      rectanglePos u = rectanglePos ?t @ map fst rs \<and>
      screen_view P px u = paint_all (pixel_format ?t) (fb_width ?t, fb_height ?t) rs (screen_view P px ?t)"
      using Cons.prems t False by (intro Cons.IH) (simp_all add: same, simp_all add: arm_def)
    then obtain u where u: "\<And>t'. doConnection ?H u = Ret t' \<Longrightarrow> run_loop env ?H ?t = run_loop env ?H t'"
      "same_session ?t u" "\<not> aborted u" "packet u = rest" "rectangles u = 0" "rectanglePos u = rectanglePos ?t @ map fst rs"
      "screen_view P px u = paint_all (pixel_format ?t) (fb_width ?t, fb_height ?t) rs (screen_view P px ?t)" by blast
    from u(1) on have "\<forall>t'. doConnection ?H u = Ret t' \<longrightarrow> run_loop env ?H s = run_loop env ?H t'" by metis
    moreover have "same_session s u" using pos(2) u(2) by (rule same_session_trans)
    moreover have "screen_view P px u = paint_all (pixel_format s) (fb_width s, fb_height s) (r # rs) (screen_view P px s)"
      using u(7) t(7) by (simp add: same)
    ultimately show ?thesis using u(3-6) pos(1) by auto
  qed
qed simp

section \<open>Whole updates\<close>

text \<open>Waiting for a message, with nothing unread.\<close>

definition at_rest :: "'a client \<Rightarrow> bool" where
  "at_rest s \<longleftrightarrow> \<not> aborted s \<and> top s = HandleExpected \<and> expected_handler s = Message Connection \<and>
     expected_len s = 1 \<and> packet s = [] \<and> 0 \<le> keyLen s"

definition drawable_rects :: "raw_rect list \<Rightarrow> ('i, 'a) dclient \<Rightarrow> bool" where
  "drawable_rects rs s \<longleftrightarrow> rs \<noteq> [] \<and> length rs < 65536 \<and>
     list_all (\<lambda>r. solid (fst r) \<and> valid_rect (fb_width s) (fb_height s) (client_bypp s) (wraw r)) rs"

lemma do_update_drawn:
  assumes "pillow_laws P px" "byte_format (pixel_format s) mode" "drawable s" "at_rest s" "drawable_rects rs s"
  shows "\<exists>t. (\<forall>u. call (do_hooks P env) (CommitUpdate (map fst rs)) t = Ret u \<longrightarrow>
      dataReceived env (do_hooks P env) (encode_update (map wraw rs)) s =
        Some (Ret ((arm (Message Connection) 1 u)\<lparr>already_expecting := False\<rparr>))) \<and>
    same_session s t \<and> \<not> aborted t \<and> packet t = [] \<and>
    screen_view P px t = paint_all (pixel_format s) (fb_width s, fb_height s) rs (screen_view P px s)"
proof -
  let ?H = "do_hooks P env" let ?body = "concat (map (\<lambda>r. encode_rect (wraw r)) rs)" let ?n = "to_be 2 (int (length rs))"
  let ?enc = "encode_update (map wraw rs)"
  let ?s0 = "s\<lparr>packet := ?enc\<rparr>"
  let ?s1 = "arm (Message FramebufferUpdate) 3 (s\<lparr>already_expecting := True, packet := [0] @ ?n @ ?body\<rparr>)"
  let ?s2 = "arm (Message RectangleHeader) 12 (s\<lparr>already_expecting := True, packet := ?body, rectangles := int (length rs),
    rectanglePos := [], trace := trace s @ [Call BeginUpdate]\<rparr>)"
  have enc: "?enc = [0] @ [0] @ ?n @ ?body" by (simp add: encode_update_def comp_def)
  have n: "from_be ?n = int (length rs)" "rs \<noteq> []" using assms(5) by (simp_all add: drawable_rects_def to_be_16)
  have s2: "same_session s ?s2" "screen_view P px ?s2 = screen_view P px s" "drawable ?s2" "client_bypp ?s2 = client_bypp s"
    using assms(3) by (simp_all, simp_all add: same_session_def screen_view_def arm_def client_bypp_def drawable_def mode_cached_def
        cong: option.case_cong sum.case_cong)
  have "dataReceived env ?H ?enc s = run_loop env ?H ?s0"
    using assms(4) by (simp add: at_rest_def dataReceived_def handleExpected_def enc)
  also have "\<dots> = run_loop env ?H ?s1"
    using assms(4) by (intro run_loop_block [where blk = "[0]"])
      (simp_all add: at_rest_def enc handleConnection_def wire arm_def)
  also have "\<dots> = run_loop env ?H ?s2"
    using assms(4) n by (intro run_loop_block [where blk = "[0] @ ?n"])
      (auto simp: at_rest_def arm_def handleFramebufferUpdate_def wire call_def do_hooks_def log_io_def doConnection_def
        intro!: rfb_client.equality)
  finally have run: "dataReceived env ?H ?enc s = run_loop env ?H ?s2" .
  have same: "pixel_format ?s2 = pixel_format s" "fb_width ?s2 = fb_width s" "fb_height ?s2 = fb_height s"
    using s2(1) by (simp_all add: same_session_def)
  have "\<exists>t. (\<forall>t'. doConnection ?H t = Ret t' \<longrightarrow> run_loop env ?H ?s2 = run_loop env ?H t') \<and>
    same_session ?s2 t \<and> \<not> aborted t \<and> packet t = [] \<and> rectangles t = 0 \<and> rectanglePos t = rectanglePos ?s2 @ map fst rs \<and>
    screen_view P px t = paint_all (pixel_format ?s2) (fb_width ?s2, fb_height ?s2) rs (screen_view P px ?s2)"
    using assms s2 same n(2) by (intro do_rects_drawn) (simp_all add: drawable_rects_def, simp_all add: arm_def at_rest_def)
  then obtain t where step: "\<And>t'. doConnection ?H t = Ret t' \<Longrightarrow> run_loop env ?H ?s2 = run_loop env ?H t'"
    and t: "same_session ?s2 t" "\<not> aborted t" "packet t = []" "rectangles t = 0" "rectanglePos t = map fst rs"
      "screen_view P px t = paint_all (pixel_format s) (fb_width s, fb_height s) rs (screen_view P px s)"
    unfolding same s2(2) by (auto simp: arm_def)
  have "dataReceived env ?H ?enc s = Some (Ret ((arm (Message Connection) 1 u)\<lparr>already_expecting := False\<rparr>))"
    if "call ?H (CommitUpdate (map fst rs)) t = Ret u" for u
  proof -
    let ?t = "log_io (Call (CommitUpdate (map fst rs))) t"
    have "undisturbed t u" using do_hooks_calm [of ?t P env] that by (metis call_def outcome.sel(1) undisturbed_io(2))
    with t(3) have "packet u = []" by (simp add: undisturbed_def parser_state_def)
    then have "packet (arm (Message Connection) 1 u) = []" "0 < expected_len (arm (Message Connection) 1 u)"
      by (simp_all add: arm_def)
    moreover have "run_loop env ?H ?s2 = run_loop env ?H (arm (Message Connection) 1 u)"
      using that t(4,5) by (intro step) (simp add: doConnection_def)
    ultimately show ?thesis using run run_loop_end by metis
  qed
  moreover have "same_session s t" using s2(1) t(1) by (rule same_session_trans)
  ultimately show ?thesis using t(2,3,6) by blast
qed

lemma visible_Ret: "map_option visible r = Some (Ret t) \<longleftrightarrow> r = Some (Ret t)"
  by (cases r; cases "the r") auto

section \<open>Images as functions\<close>

text \<open>A Pillow that keeps the laws: an image is its size and the colour of each pixel.\<close>

definition plain_pillow :: "((int \<times> int) \<times> (int \<Rightarrow> int \<Rightarrow> rgb)) pillow" where
  "plain_pillow = \<lparr>
     im_frombytes = \<lambda>kind sz data raw. Inr (sz, \<lambda>i j. case raw of None \<Rightarrow> (0, 0, 0)
       | Some mode \<Rightarrow> raw_pixel mode (pixel_at (length mode) (fst sz) data i j)),
     im_new = \<lambda>sz. (sz, \<lambda>i j. (0, 0, 0)),
     im_paste = \<lambda>a b (x, y) msk. Inr (fst a, \<lambda>i j. if inside (fst b) (i - x) (j - y) then snd b (i - x) (j - y) else snd a i j),
     im_size = fst,
     im_crop = \<lambda>a (x, y, x', y'). ((x' - x, y' - y), \<lambda>i j. snd a (i + x) (j + y)),
     im_histogram = \<lambda>a. [fst (fst a) * snd (fst a)],
     im_open = \<lambda>name. Inl OSError,
     im_save = \<lambda>a name fmt. Inr ()\<rparr>"

lemma plain_pillow_laws: "pillow_laws plain_pillow snd"
  by (auto simp: pillow_laws_def new_law_def paste_law_def raw_law_def plain_pillow_def)

section \<open>Properties\<close>

text \<open>C3. A screenshot shows the server's framebuffer. After \<open>captureScreen\<close> the client asks for the
  screen, and however the network cuts the server's answer, an update of Raw rectangles in a format
  of whole bytes, it then saves an image that is the old screen with every rectangle drawn where the
  server put it, in the colours of the pixels it sent, and waits for the next message.\<close>

theorem screenshot_shows_framebuffer:
  assumes "pillow_laws P px" "byte_format (pixel_format s) mode" "drawable s" "at_rest s" "drawable_rects rs s"
    and "fb_width s < 65536" "fb_height s < 65536" "\<And>im. im_save P im fp fmt = Inr ()"
    and "concat (d # ds) = encode_update (map wraw rs)"
  shows "\<exists>u t im. captureScreen fp inc fmt s = Ret u \<and>
    trace u = trace s @ [Write (msg_bytes (MsgUpdateRequest inc 0 0 (fb_width s) (fb_height s)))] \<and>
    deliver env (do_hooks P env) (d # ds) u = Some (Ret t) \<and> sc_log t = sc_log s @ [Saved fp im] \<and>
    Some (image_view P px im) = paint_all (pixel_format s) (fb_width s, fb_height s) rs (screen_view P px s) \<and>
    sc_screen t = Some im \<and> sc_deferred t = None \<and> at_rest t"
proof -
  let ?H = "do_hooks P env" let ?w = "Write (msg_bytes (MsgUpdateRequest inc 0 0 (fb_width s) (fb_height s)))"
  let ?u = "s\<lparr>trace := trace s @ [?w], sc_deferred := Some (Save fp None fmt)\<rparr>"
  have cap: "captureScreen fp inc fmt s = Ret ?u"
    using assms(3,6,7)
    by (simp add: captureScreen_def do_capture_def refreshScreen_def request_update_def framebufferUpdateRequest_def
        transport_write_def wire drawable_def log_io_def)
  have u: "byte_format (pixel_format ?u) mode" "drawable ?u" "at_rest ?u" "drawable_rects rs ?u"
    using assms(2-5) by (simp_all add: drawable_def mode_cached_def at_rest_def drawable_rects_def client_bypp_def
        cong: option.case_cong sum.case_cong)
  from do_update_drawn [OF assms(1) u, of env] obtain t where
    step: "\<And>v. call ?H (CommitUpdate (map fst rs)) t = Ret v \<Longrightarrow>
      dataReceived env ?H (encode_update (map wraw rs)) ?u = Some (Ret ((arm (Message Connection) 1 v)\<lparr>already_expecting := False\<rparr>))"
    and t: "same_session ?u t" "\<not> aborted t" "packet t = []"
      "screen_view P px t = paint_all (pixel_format s) (fb_width s, fb_height s) rs (screen_view P px s)"
    by (auto simp: screen_view_def)
  have "rs \<noteq> []" using assms(5) by (simp add: drawable_rects_def)
  then obtain r rs' where "rs = r # rs'" by (cases rs) auto
  then have "paint_all pf fb rs p \<noteq> None" for pf fb p
    by (induction rs' arbitrary: rs r p) auto
  with t(4) have "screen_view P px t \<noteq> None" by metis
  then obtain im where im: "sc_screen t = Some im" by (auto simp: screen_view_def)
  with t(4) have view: "Some (image_view P px im) = paint_all (pixel_format s) (fb_width s, fb_height s) rs (screen_view P px s)"
    by (simp add: screen_view_def)
  let ?v = "(log_io (Call (CommitUpdate (map fst rs))) t)\<lparr>sc_deferred := None, sc_log := sc_log s @ [Saved fp im]\<rparr>"
  let ?t = "(arm (Message Connection) 1 ?v)\<lparr>already_expecting := False\<rparr>"
  have "call ?H (CommitUpdate (map fst rs)) t = Ret ?v"
    using t(1) im \<open>rs \<noteq> []\<close> assms(8)
    by (simp add: call_def do_hooks_def do_commitUpdate_def same_session_def fire_def captureSave_def log_event_def log_io_def)
  from step [OF this] have whole: "dataReceived env ?H (concat (d # ds)) ?u = Some (Ret ?t)" using assms(9) by metis
  have inv: "client_inv ?u"
    using assms(2,4) by (auto simp: client_inv_def sized_def armed_def at_rest_def byte_format_def client_bypp_def pf_bypp_def)
  have ok: "greeting_ok ?u (concat (d # ds))" using assms(4) by (simp add: greeting_ok_def at_rest_def)
  have "map_option visible (deliver env ?H (d # ds) ?u) = map_option visible (dataReceived env ?H (concat (d # ds)) ?u)"
    by (rule do_client.deliver_concat [OF inv ok])
  then have "deliver env ?H (d # ds) ?u = Some (Ret ?t)"
    unfolding whole by (simp only: option.map visible.simps visible_Ret)
  moreover have "0 \<le> keyLen t" "top t = HandleExpected" using t(1) assms(4) by (simp_all add: same_session_def at_rest_def)
  ultimately show ?thesis
    using cap im view t(2,3) by (intro exI [of _ ?u] exI [of _ ?t] exI [of _ im]) (simp add: at_rest_def arm_def log_io_def)
qed

text \<open>A client at rest, with a screen of two pixels.\<close>

definition sample_screen :: "((int \<times> int) \<times> (int \<Rightarrow> int \<Rightarrow> rgb)) do_client" where
  "sample_screen = (new_do_client None None None)\<lparr>top := HandleExpected, expected_handler := Message Connection,
     expected_len := 1, fb_width := 2, fb_height := 1\<rparr>"

lemma sample_screen_ok:
  "byte_format (pixel_format sample_screen) ''RGBX''" "drawable sample_screen" "at_rest sample_screen"
  "fb_width sample_screen = 2" "fb_height sample_screen = 1" "screen_view P px sample_screen = None"
  "sc_log sample_screen = []" "pixel_format sample_screen = default_PixelFormat"
  by (simp_all add: sample_screen_def sample_client_defs byte_format_def drawable_def mode_cached_def at_rest_def
      screen_view_def format_defs bit_length_values)

theorem screenshot_shows_framebuffer_witness:
  "\<exists>u t im. captureScreen [97] False None sample_screen = Ret u \<and>
     deliver plain_env (do_hooks plain_pillow plain_env)
       [take 5 (encode_update [WRaw (0, 0, 2, 1) [1, 2, 3, 0, 4, 5, 6, 0]]),
        drop 5 (encode_update [WRaw (0, 0, 2, 1) [1, 2, 3, 0, 4, 5, 6, 0]])] u = Some (Ret t) \<and>
     sc_log t = [Saved [97] im] \<and> snd (image_view plain_pillow snd im) (1, 0) = Some (4, 5, 6)"
proof -
  let ?rs = "[((0, 0, 2, 1), [1, 2, 3, 0, 4, 5, 6, 0])] :: raw_rect list"
  let ?enc = "encode_update (map wraw ?rs)"
  have rs: "drawable_rects ?rs sample_screen"
    by (simp add: drawable_rects_def solid_def wraw_def sample_screen_def sample_client_defs size_limit_def client_bypp_def
        pf_bypp_def default_PixelFormat_def)
  have save: "im_save plain_pillow im [97] None = Inr ()" for im by (simp add: plain_pillow_def)
  from screenshot_shows_framebuffer [OF plain_pillow_laws sample_screen_ok(1-3) rs _ _ save, where d = "take 5 ?enc" and
      ds = "[drop 5 ?enc]" and env = plain_env and inc = False]
  obtain u t im where run: "captureScreen [97] False None sample_screen = Ret u"
    "deliver plain_env (do_hooks plain_pillow plain_env) [take 5 ?enc, drop 5 ?enc] u = Some (Ret t)"
    "sc_log t = [Saved [97] im]"
    and view: "Some (image_view plain_pillow snd im) = paint_all default_PixelFormat (2, 1) ?rs None"
    by (auto simp: sample_screen_ok)
  have "map_option (\<lambda>p. snd p (1, 0)) (paint_all default_PixelFormat (2, 1) ?rs None) = Some (Some (4, 5, 6))"
    by (simp add: draw_spec_def draw_def blank_def raw_colours_def rect_colours_def wire_rgb_def pixel_at_def inside_def
        pf_bypp_def default_PixelFormat_def pixel_value_def channel_value_def from_be_def Let_def)
  then have "snd (image_view plain_pillow snd im) (1, 0) = Some (4, 5, 6)"
    unfolding view [symmetric] by (simp only: option.map option.inject)
  moreover have "map wraw ?rs = [WRaw (0, 0, 2, 1) [1, 2, 3, 0, 4, 5, 6, 0]]" by (simp add: wraw_def)
  ultimately show ?thesis using run by metis
qed

text \<open>What the protocol does to the screen.\<close>

datatype screen_op = Draw raw_rect | Resize int int

fun run_screen_op :: "'i pillow \<Rightarrow> screen_op \<Rightarrow> ('i, 'a) dclient \<Rightarrow> ('i, 'a) dclient outcome" where
  "run_screen_op P (Draw ((x, y, w, h), data)) s = do_updateRectangle P x y w h data (pixel_format s) s"
| "run_screen_op P (Resize w h) s = do_updateDesktopSize P w h s"

fun screen_op_ok :: "PixelFormat \<Rightarrow> screen_op \<Rightarrow> bool" where
  "screen_op_ok pf (Draw ((x, y, w, h), data)) \<longleftrightarrow>
     0 \<le> x \<and> 0 \<le> y \<and> 0 < w \<and> 0 < h \<and> int (length data) = w * h * pf_bypp pf"
| "screen_op_ok pf (Resize w h) \<longleftrightarrow> 0 \<le> w \<and> w < 0x10000 \<and> 0 \<le> h \<and> h < 0x10000"

fun screen_op_spec :: "PixelFormat \<Rightarrow> int \<times> int \<Rightarrow> screen_op \<Rightarrow> picture option \<Rightarrow> picture" where
  "screen_op_spec pf fb (Draw r) p = draw_spec fb (fst r) (raw_colours pf r) p"
| "screen_op_spec pf fb (Resize w h) p = resize_spec (w, h) p"

lemma resize_shows:
  assumes "pillow_laws P px" "0 \<le> w" "w < 0x10000" "0 \<le> h" "h < 0x10000"
  shows "\<exists>im. do_updateDesktopSize P w h s = Ret (s\<lparr>sc_screen := Some im\<rparr>) \<and>
    image_view P px im = resize_spec (w, h) (screen_view P px s)"
proof (cases "sc_screen s")
  case None
  with assms show ?thesis
    by (intro exI [of _ "im_new P (w, h)"]) (simp add: do_updateDesktopSize_def resize_spec_def screen_view_def new_view)
next
  case (Some a)
  from paste_view [OF assms(1), of "im_new P (w, h)" a 0 0] obtain c where
    "im_paste P (im_new P (w, h)) a (0, 0) None = Inr c"
    "image_view P px c = draw (0, 0, fst (im_size P a), snd (im_size P a)) (px a) (image_view P px (im_new P (w, h)))" by blast
  with Some assms show ?thesis
    by (intro exI [of _ c]) (simp add: do_updateDesktopSize_def resize_spec_def screen_view_def new_view paste_on_blank del: prod.collapse)
qed

lemma screen_op_shows:
  assumes "pillow_laws P px" "byte_format (pixel_format s) mode" "drawable s" "screen_op_ok (pixel_format s) op"
  shows "\<exists>t. run_screen_op P op s = Ret t \<and> drawable t \<and> same_session s t \<and>
    screen_view P px t = Some (screen_op_spec (pixel_format s) (fb_width s, fb_height s) op (screen_view P px s))"
proof (cases op)
  case (Draw r)
  obtain x y w h data where r: "r = ((x, y, w, h), data)" by (metis surj_pair)
  from update_draws [OF assms(1-3), of x y w h data] assms(4) obtain im where
    "do_updateRectangle P x y w h data (pixel_format s) s = Ret (drawn (pixel_format s) mode im s)"
    "image_view P px im = draw_spec (fb_width s, fb_height s) (x, y, w, h) (rect_colours (pixel_format s) w data) (screen_view P px s)"
    by (auto simp: Draw r)
  with assms(2,3) show ?thesis by (simp add: Draw r drawable_drawn raw_colours_def)
next
  case (Resize w h)
  from resize_shows [OF assms(1), of w h s] assms(4) obtain im where
    im: "do_updateDesktopSize P w h s = Ret (s\<lparr>sc_screen := Some im\<rparr>)"
    "image_view P px im = resize_spec (w, h) (screen_view P px s)" by (auto simp: Resize)
  moreover have "drawable (s\<lparr>sc_screen := Some im\<rparr>)"
    using assms(3) by (simp add: drawable_def mode_cached_def cong: option.case_cong sum.case_cong)
  ultimately show ?thesis by (simp add: Resize same_session_def screen_view_def)
qed

text \<open>C19. The screen refines a picture: through any sequence of drawn rectangles and new desktop sizes,
  \<open>updateRectangle\<close> and \<open>updateDesktopSize\<close> succeed and leave on \<open>screen\<close> what the same operations
  make of a picture: later rectangles over earlier ones, the canvas grown where an update reaches beyond
  it, cut or filled with black where the desktop changed size.\<close>

theorem screen_refines_picture:
  assumes "pillow_laws P px" "byte_format (pixel_format s) mode" "drawable s" "list_all (screen_op_ok (pixel_format s)) ops"
  shows "\<exists>t. for_each (run_screen_op P) ops s = Ret t \<and>
    screen_view P px t = fold (\<lambda>op p. Some (screen_op_spec (pixel_format s) (fb_width s, fb_height s) op p)) ops (screen_view P px s)"
  using assms(2-)
proof (induction ops arbitrary: s)
  case (Cons op ops)
  from screen_op_shows [OF assms(1) Cons.prems(1,2), of op] Cons.prems(3) obtain t where
    t: "run_screen_op P op s = Ret t" "drawable t" "same_session s t"
    "screen_view P px t = Some (screen_op_spec (pixel_format s) (fb_width s, fb_height s) op (screen_view P px s))" by auto
  then have "pixel_format t = pixel_format s" "fb_width t = fb_width s" "fb_height t = fb_height s" by (simp_all add: same_session_def)
  with Cons.IH [of t] Cons.prems t show ?case by simp
qed simp

theorem screen_refines_picture_witness:
  "\<exists>t. for_each (run_screen_op plain_pillow) [Draw ((0, 0, 1, 1), [1, 2, 3, 0]), Resize 1 2, Draw ((1, 0, 1, 1), [7, 8, 9, 0])] sample_screen = Ret t \<and>
     map_option (\<lambda>p. (fst p, snd p (0, 0), snd p (1, 0), snd p (1, 1))) (screen_view plain_pillow snd t) =
       Some ((2, 2), Some (1, 2, 3), Some (7, 8, 9), Some (0, 0, 0))"
proof -
  let ?ops = "[Draw ((0, 0, 1, 1), [1, 2, 3, 0]), Resize 1 2, Draw ((1, 0, 1, 1), [7, 8, 9, 0])]"
  have "list_all (screen_op_ok (pixel_format sample_screen)) ?ops"
    by (simp add: sample_screen_ok pf_bypp_def default_PixelFormat_def)
  from screen_refines_picture [OF plain_pillow_laws sample_screen_ok(1,2) this] show ?thesis
    by (auto simp: sample_screen_ok draw_spec_def resize_spec_def draw_def blank_def on_canvas_def raw_colours_def rect_colours_def
        wire_rgb_def pixel_at_def inside_def pf_bypp_def default_PixelFormat_def pixel_value_def channel_value_def from_be_def Let_def)
qed

lemma single_pixel_update: "SINGLE_PIXEL_UPDATE = Inr (encode_update [WRaw (0, 0, 1, 1) [0, 0, 0, 0]])"
  by (simp add: SINGLE_PIXEL_UPDATE_def pack_defs one_octet encode_update_def encode_corners.simps)

lemma small_fields: "to_be 2 0 = [0, 0]" "to_be 2 1 = [0, 1]" "to_be 2 2 = [0, 2]" "to_be 4 0 = [0, 0, 0, 0]"
  by code_simp+

lemma encode_single_pixel:
  "encode_update [WRaw (0, 0, 1, 1) p] = [0, 0] @ [0, 1, 0, 0, 0, 0, 0, 1, 0, 1, 0, 0, 0, 0] @ p"
  by (simp add: encode_update_def encode_corners.simps small_fields)

lemma is_single_pixel_update_iff:
  "is_single_pixel_update data \<longleftrightarrow> (\<exists>p pad. length p = 4 \<and> data = list_update (encode_update [WRaw (0, 0, 1, 1) p]) 1 pad)"
proof
  assume "is_single_pixel_update data"
  then have len: "length data = 20" and head: "take 1 data = [0]"
    and mid: "py_slice 2 16 data = [0, 1, 0, 0, 0, 0, 0, 1, 0, 1, 0, 0, 0, 0]"
    by (simp_all add: is_single_pixel_update_def single_pixel_update encode_single_pixel py_slice_def)
  from len obtain a b rest where data: "data = a # b # rest" "length rest = 18"
    by (cases data; cases "tl data") auto
  with mid have "take 14 rest = [0, 1, 0, 0, 0, 0, 0, 1, 0, 1, 0, 0, 0, 0]" by (simp add: py_slice_def)
  then have "rest = [0, 1, 0, 0, 0, 0, 0, 1, 0, 1, 0, 0, 0, 0] @ drop 14 rest" by (metis append_take_drop_id)
  with data head have "data = list_update (encode_update [WRaw (0, 0, 1, 1) (drop 14 rest)]) 1 b \<and> length (drop 14 rest) = 4"
    by (simp add: encode_single_pixel)
  then show "\<exists>p pad. length p = 4 \<and> data = list_update (encode_update [WRaw (0, 0, 1, 1) p]) 1 pad" by blast
qed (auto simp: is_single_pixel_update_def single_pixel_update encode_single_pixel py_slice_def)

text \<open>VMware's polls are answered without being decoded: a segment that is an update of one Raw
  pixel at the origin, four bytes per pixel, makes a client at rest ask for the whole screen and change
  nothing else; every other segment goes to the parser.\<close>

lemma vmware_poll_answered:
  assumes "at_rest s" "\<not> already_expecting s" "u16 (fb_width s)" "u16 (fb_height s)"
  shows "vmware_dataReceived env H data s =
    (if \<exists>p pad. length p = 4 \<and> data = list_update (encode_update [WRaw (0, 0, 1, 1) p]) 1 pad
     then Some (Ret (log_io (Write (msg_bytes (MsgUpdateRequest False 0 0 (fb_width s) (fb_height s)))) s))
     else dataReceived env H data s)"
proof (cases "is_single_pixel_update data")
  case True
  let ?t = "log_io (Write (msg_bytes (MsgUpdateRequest False 0 0 (fb_width s) (fb_height s)))) s"
  have "top ?t = HandleExpected" "\<not> expected_len ?t \<le> int (length (packet ?t))"
    using assms(1) by (simp_all add: at_rest_def log_io_def)
  moreover have "request_update False s = Ret ?t"
    using assms(3,4) by (simp add: request_update_def message_writes Let_def del: msg_bytes.simps)
  ultimately have "vmware_dataReceived env H data s = Some (Ret ?t)"
    using True by (simp add: vmware_dataReceived_def handleExpected_def del: msg_bytes.simps)
  with True show ?thesis by (simp only: is_single_pixel_update_iff if_True)
qed (simp only: vmware_dataReceived_def if_False is_single_pixel_update_iff)


end
