(* ===== verification/Proxy_Sessions.thy ===== *)
theory Proxy_Sessions
  imports Logging_Proxy Screen_Sessions
begin

text \<open>
  What the logging proxy guarantees, for one connection and for all the connections a factory has
  had: the bytes go through whatever the parsers make of them, the capture is the wire, only a
  capture that was not aborted is written, and \<open>--one-shot\<close> serves one session.
\<close>

section \<open>What a segment leaves alone\<close>

text \<open>The part of a connection that only its beginning and its end change.\<close>

definition px_fixed :: "('i, 'n) proxy_server \<Rightarrow> bool \<times> bool \<times> sink option" where
  "px_fixed s = (px_refused s, px_took_session s, px_sink s)"

definition observed :: "('i, 'n) proxy_server \<Rightarrow> bool" where
  "observed s \<longleftrightarrow> (case px_vnclog s of None \<Rightarrow> True | Some v \<Rightarrow> observer_ok v)"

definition parser_keeps :: "('i, 'n) proxy_server \<Rightarrow> ('i, 'n) proxy_server \<Rightarrow> bool" where
  "parser_keeps s t \<longleftrightarrow> px_fixed t = px_fixed s \<and> px_link t = px_link s \<and> px_capture t = px_capture s \<and>
     px_saw_bytes t = px_saw_bytes s \<and> (observed s \<longrightarrow> observed t)"

lemma parser_keeps_refl [simp, intro]: "parser_keeps s s"
  by (simp add: parser_keeps_def)

lemma parser_keeps_trans: "parser_keeps s t \<Longrightarrow> parser_keeps t u \<Longrightarrow> parser_keeps s u"
  by (simp add: parser_keeps_def)

lemma parser_keeps_update [simp]:
  "parser_keeps s (t\<lparr>ls_buffer := b\<rparr>) = parser_keeps s t" "parser_keeps s (t\<lparr>ls_events := es\<rparr>) = parser_keeps s t"
  "parser_keeps s (await h n t) = parser_keeps s t" "parser_keeps s (t\<lparr>rs_recorder := r\<rparr>) = parser_keeps s t"
  "parser_keeps s (t\<lparr>px_closing := c\<rparr>) = parser_keeps s t"
  by (simp_all add: parser_keeps_def px_fixed_def observed_def await_def)

lemma recorder_hooks_keeps: "parser_keeps s (final (recorder_hooks tick e s))"
  by (simp add: recorder_hooks_def on_recorder_def Let_def split: srv_event.split outcome.split)

lemma proxy_hooks_keeps: "parser_keeps s (final (proxy_hooks E fa e s))"
proof -
  have logging: "parser_keeps s (s\<lparr>px_vnclog := Some (start_logging pw cap)\<rparr>)" for pw cap
    by (simp add: parser_keeps_def px_fixed_def observed_def start_logging_ok)
  have recording: "parser_keeps s (final (and_then (recorder_hooks (pe_tick E) e' s) k))"
    if "\<And>t. parser_keeps s t \<Longrightarrow> parser_keeps s (final (k t))" for k e'
    using recorder_hooks_keeps [of s "pe_tick E" e'] that by (cases "recorder_hooks (pe_tick E) e' s") auto
  show ?thesis
    by (cases e) (auto simp: proxy_hooks_def Let_def logging split: option.split intro!: recording)
qed

lemma client_parser_keeps: "srv_dataReceived (proxy_hooks E fa) data s = Some r \<Longrightarrow> parser_keeps s (final r)"
  by (rule srv_dataReceived_keeps [where R = parser_keeps]) (auto intro: proxy_hooks_keeps parser_keeps_trans)

section \<open>The proxy is transparent\<close>

definition link_outcome :: "('i, 'n) proxied outcome \<Rightarrow> 'n outcome" where
  "link_outcome r = map_outcome (\<lambda>p. px_link (snd p)) r"

lemma link_forward [simp]: "link_outcome (forward E tap data (fa, s)) = pf_data E tap data (px_link s)"
  by (simp add: link_outcome_def forward_def outcome.map_comp comp_def outcome.map_ident)

lemma observed_notes: "observer_ok v \<Longrightarrow> observed (take_notes v s)"
  by (simp add: observed_def take_notes_def observer_ok_def good_def sized_def armed_def client_bypp_def)

text \<open>The capture goes on: it is off, or these bytes do not make it give up.\<close>

definition goes_on :: "tap \<Rightarrow> bytes \<Rightarrow> ('i, 'n) proxy_server \<Rightarrow> bool" where
  "goes_on tap data s \<longleftrightarrow> (case px_capture s of None \<Rightarrow> True | Some c \<Rightarrow> capture_abort_reason (cap_feed tap data c) = None)"

definition fed :: "tap \<Rightarrow> bytes \<Rightarrow> ('i, 'n) proxy_server \<Rightarrow> ('i, 'n) proxy_server" where
  "fed tap data s = s\<lparr>px_saw_bytes := px_saw_bytes s \<or> data \<noteq> [], px_capture := map_option (cap_feed tap data) (px_capture s)\<rparr>"

lemma no_capture: "px_capture s = None \<Longrightarrow> s\<lparr>px_saw_bytes := b, px_capture := None\<rparr> = s\<lparr>px_saw_bytes := b\<rparr>"
  by (cases s) simp

lemma capture_first_goes_on: "goes_on tap data s \<Longrightarrow> capture_first E tap data k (fa, s) = k (fa, fed tap data s)"
  by (cases "px_capture s") (simp_all add: goes_on_def capture_first_def fed_def Let_def no_capture)

lemma capture_first_aborts:
  "\<not> goes_on tap data s \<Longrightarrow> capture_first E tap data k (fa, s) = Some (Ret (abortCapture E (fa, fed tap data s)))"
  by (cases "px_capture s") (simp_all add: goes_on_def capture_first_def fed_def Let_def no_capture)

lemma fed_fields [simp]:
  "px_link (fed tap data s) = px_link s" "px_vnclog (fed tap data s) = px_vnclog s" "px_fixed (fed tap data s) = px_fixed s"
  "observed (fed tap data s) = observed s"
  by (simp_all add: fed_def px_fixed_def observed_def)

lemma observe_server_link:
  "observed s \<Longrightarrow> \<exists>r. observe_server E data (fa, s) = Some r \<and> link_outcome r = pf_data E S2C data (px_link s)"
proof (cases "px_vnclog s")
  case (Some v)
  assume "observed s"
  with Some have "observer_ok v" by (simp add: observed_def)
  from log_dataReceived_total [OF this, of "pe_pillow E" "pe_env E" data] Some show ?thesis
    by (auto simp: observe_server_def take_notes_def)
qed (simp add: observe_server_def)

lemma server_bytes_pass:
  assumes "observed s" "pf_peer E S2C (px_link s) \<longrightarrow> goes_on S2C data s"
  shows "\<exists>r. proxy_server_data E data (fa, s) = Some r \<and> link_outcome r = pf_data E S2C data (px_link s)"
  using assms observe_server_link [of s E data fa] observe_server_link [of "fed S2C data s" E data fa]
  by (auto simp: proxy_server_data_def capture_first_goes_on)

text \<open>A factory of \<open>vnclog --capture-raw a.zip\<close>, a relay that collects what it is given, and the
  connection the two accept.\<close>

definition sample_proxy :: "((int \<times> int) \<times> (int \<Rightarrow> int \<Rightarrow> rgb), bytes \<times> bytes) proxy_env" where
  "sample_proxy = \<lparr>pf_made = id, pf_data = (\<lambda>tap d l. Ret (if tap = S2C then (fst l @ d, snd l) else (fst l, snd l @ d))),
     pf_lost = id, pf_peer = (\<lambda>tap l. True), pe_env = plain_env, pe_pillow = plain_pillow, pe_tick = int,
     pe_writable = (\<lambda>line. True), pe_version = [], pe_timestamp = []\<rparr>"

definition sample_factory :: proxy_factory where
  "sample_factory = \<lparr>fa_password_required = False, fa_password = None, fa_directory = None, fa_one_shot = True,
     fa_session_taken = False, fa_capture_path = Some ''a.zip'', fa_preserve_auth = False, fa_capture_failed = False,
     fa_server_address = [], fa_vdo = None, fa_out = None, fa_stopped = False\<rparr>"

definition sample_conn :: "((int \<times> int) \<times> (int \<Rightarrow> int \<Rightarrow> rgb), bytes \<times> bytes) proxy_server" where
  "sample_conn = (new_proxy_server sample_proxy sample_factory ([], []))
     \<lparr>px_sink := Some CaptureBuffer, px_took_session := True, px_capture := Some (new_capture False)\<rparr>"

lemma sample_conn_fields [simp]:
  "px_refused sample_conn = False" "px_capture sample_conn = Some (new_capture False)" "px_link sample_conn = ([], [])"
  "px_vnclog sample_conn = None" "ls_buffer sample_conn = []" "ls_need sample_conn = 12" "px_saw_bytes sample_conn = False"
  by (simp_all add: sample_conn_def new_proxy_server_def new_server_def)

lemma sample_proxy_fields [simp]:
  "pf_data sample_proxy tap d l = Ret (if tap = S2C then (fst l @ d, snd l) else (fst l, snd l @ d))"
  "pf_peer sample_proxy tap l = True" "pf_made sample_proxy l = l" "pf_lost sample_proxy l = l"
  by (simp_all add: sample_proxy_def)

lemma sample_goes_on: "goes_on tap [82] sample_conn"
  by (cases tap) (simp_all add: goes_on_def; code_simp)+

text \<open>C22. The viewer's bytes get through. On a connection that is not refused, and whose capture does not
  give up on them, a segment is handed to \<open>portforward\<close> unchanged and exactly once whatever the
  parser makes of it, exceptions included; it is not forwarded only when the parser does not return.\<close>

theorem client_bytes_forwarded:
  assumes "\<not> px_refused s" "goes_on C2S data s"
  shows "case srv_dataReceived (proxy_hooks E fa) data (fed C2S data s) of
      None \<Rightarrow> proxy_client_data E data (fa, s) = None
    | Some q \<Rightarrow> \<exists>r. proxy_client_data E data (fa, s) = Some r \<and> link_outcome r = pf_data E C2S data (px_link s)"
  using assms client_parser_keeps [of E fa data "fed C2S data s"]
  by (auto simp: proxy_client_data_def capture_first_goes_on observe_client_def parser_keeps_def split: option.split)

theorem client_bytes_forwarded_witness:
  "\<exists>r. proxy_client_data sample_proxy [82] (sample_factory, sample_conn) = Some r \<and> link_outcome r = Ret ([], [82])"
proof -
  have "srv_dataReceived (proxy_hooks sample_proxy sample_factory) [82] (fed C2S [82] sample_conn) =
      Some (Ret ((fed C2S [82] sample_conn)\<lparr>ls_buffer := [82]\<rparr>))"
    by (simp add: srv_dataReceived_def srv_loop.simps fed_def)
  with client_bytes_forwarded [of sample_conn "[82]" sample_proxy sample_factory] sample_goes_on show ?thesis by simp
qed

section \<open>The capture is the wire\<close>

text \<open>A capture without the tally of encodings, which comes from the decoder.\<close>

definition wire_part :: "capture \<Rightarrow> capture" where
  "wire_part c = c\<lparr>encodings_seen := []\<rparr>"

lemma wire_part_feed: "wire_part (cap_feed tap d c) = cap_feed tap d (wire_part c)"
  by (simp add: wire_part_def cap_feed_def feed_s2c_def feed_c2s_def Let_def split: tap.split prod.split)

lemma wire_part_notes [simp]: "wire_part (fold note_encoding es c) = wire_part c"
  by (induction es arbitrary: c) (simp_all add: wire_part_def note_encoding_def)

lemma wire_part_run: "wire_part (capture_run fs c) = capture_run fs (wire_part c)"
  by (induction fs arbitrary: c) (auto simp: capture_run_Cons wire_part_feed)

lemma wire_part_abort: "capture_abort_reason (wire_part c) = capture_abort_reason c"
  by (simp add: wire_part_def capture_abort_reason_def)

abbreviation wire_capture :: "('i, 'n) proxy_server \<Rightarrow> capture option" where
  "wire_capture s \<equiv> map_option wire_part (px_capture s)"

lemma wire_capture_notes: "wire_capture (take_notes v s) = wire_capture s"
  by (simp add: take_notes_def option.map_comp comp_def)

lemma forward_final:
  "final (forward E tap d (fa, s)) = (fa, s\<lparr>px_link := final (pf_data E tap d (px_link s))\<rparr>)"
  by (cases "pf_data E tap d (px_link s)") (simp_all add: forward_def)

text \<open>What either parser leaves of the connection once the bytes are forwarded.\<close>

definition passed :: "('i, 'n) proxy_env \<Rightarrow> tap \<Rightarrow> bytes \<Rightarrow> ('i, 'n) proxy_server \<Rightarrow> ('i, 'n) proxy_server \<Rightarrow> bool" where
  "passed E tap d s t \<longleftrightarrow> px_fixed t = px_fixed s \<and> wire_capture t = wire_capture s \<and> px_saw_bytes t = px_saw_bytes s \<and>
     px_link t = final (pf_data E tap d (px_link s)) \<and> (observed s \<longrightarrow> observed t)"

lemma observe_client_passed:
  assumes "observe_client E d (fa, s) = Some r" "final r = (fa', t)"
  shows "fa' = fa \<and> passed E C2S d s t"
proof -
  from assms(1) obtain q where q: "srv_dataReceived (proxy_hooks E fa) d s = Some q" "r = forward E C2S d (fa, final q)"
    by (auto simp: observe_client_def split: option.splits)
  with client_parser_keeps [OF q(1)] assms(2) show ?thesis
    by (auto simp: forward_final passed_def parser_keeps_def px_fixed_def observed_def)
qed

lemma observe_server_passed:
  assumes "observe_server E d (fa, s) = Some r" "final r = (fa', t)"
  shows "fa' = fa \<and> passed E S2C d s t"
proof (cases "px_vnclog s")
  case None
  with assms show ?thesis by (auto simp: observe_server_def forward_final passed_def px_fixed_def observed_def)
next
  case (Some v)
  with assms(1) obtain q where q: "log_dataReceived (pe_pillow E) (pe_env E) d v = Some q"
    "r = forward E S2C d (fa, take_notes (final q) s)" by (auto simp: observe_server_def split: option.splits)
  have "observed (take_notes (final q) s)" if "observer_ok v"
    using log_dataReceived_total [OF that, of "pe_pillow E" "pe_env E" d] q(1) by (auto intro: observed_notes)
  with q(2) assms(2) Some wire_capture_notes [of "final q" s] show ?thesis
    by (auto simp: forward_final passed_def observed_def take_notes_def px_fixed_def)
qed

text \<open>One segment, in either direction.\<close>

definition proxy_segment ::
  "('i, 'n) proxy_env \<Rightarrow> tap \<Rightarrow> bytes \<Rightarrow> ('i, 'n) proxied \<Rightarrow> ('i, 'n) proxied outcome option" where
  "proxy_segment E tap = (case tap of S2C \<Rightarrow> proxy_server_data E | C2S \<Rightarrow> proxy_client_data E)"

definition listens :: "('i, 'n) proxy_env \<Rightarrow> tap \<Rightarrow> ('i, 'n) proxy_server \<Rightarrow> bool" where
  "listens E tap s \<longleftrightarrow> (case tap of S2C \<Rightarrow> pf_peer E S2C (px_link s) | C2S \<Rightarrow> \<not> px_refused s)"

lemma segment_taken:
  assumes "proxy_segment E tap d (fa, s) = Some r" "final r = (fa', t)" "listens E tap s" "goes_on tap d s"
  shows "fa' = fa \<and> passed E tap d (fed tap d s) t"
  using assms observe_client_passed [of E d fa "fed tap d s" r fa' t] observe_server_passed [of E d fa "fed tap d s" r fa' t]
  by (cases tap) (auto simp: proxy_segment_def listens_def proxy_client_data_def proxy_server_data_def capture_first_goes_on)

lemma segment_aborts:
  assumes "listens E tap s" "\<not> goes_on tap d s"
  shows "proxy_segment E tap d (fa, s) = Some (Ret (abortCapture E (fa, fed tap d s)))"
  using assms
  by (cases tap) (simp_all add: proxy_segment_def listens_def proxy_client_data_def proxy_server_data_def capture_first_aborts)

lemma segment_unheard:
  assumes "proxy_segment E tap d (fa, s) = Some r" "final r = (fa', t)" "\<not> listens E tap s"
  shows "fa' = fa \<and> (t = s \<or> passed E tap d s t)"
  using assms observe_server_passed [of E d fa s r fa' t]
  by (cases tap) (auto simp: proxy_segment_def listens_def proxy_client_data_def proxy_server_data_def)

lemma abortCapture_fields:
  "px_fixed (snd (abortCapture E (fa, s))) = px_fixed s" "px_capture (snd (abortCapture E (fa, s))) = None"
  "px_saw_bytes (snd (abortCapture E (fa, s))) = px_saw_bytes s" "px_link (snd (abortCapture E (fa, s))) = px_link s"
  "fst (abortCapture E (fa, s)) = fa\<lparr>fa_capture_failed := True\<rparr>"
  by (simp_all add: abortCapture_def px_fixed_def)

lemma abortCapture_observed: "observed s \<Longrightarrow> observed (snd (abortCapture E (fa, s)))"
  by (simp add: abortCapture_def observed_def observer_ok_def good_def sized_def armed_def client_bypp_def split: option.splits)

fun proxy_run :: "('i, 'n) proxy_env \<Rightarrow> (tap \<times> bytes) list \<Rightarrow> ('i, 'n) proxied \<Rightarrow> ('i, 'n) proxied outcome option" where
  "proxy_run E [] p = Some (Ret p)"
| "proxy_run E ((tap, d) # fs) p =
     (case proxy_segment E tap d p of
        Some (Ret q) \<Rightarrow> proxy_run E fs q
      | r \<Rightarrow> r)"

text \<open>Forwarding does not take the peers apart.\<close>

definition steady :: "('i, 'n) proxy_env \<Rightarrow> bool" where
  "steady E \<longleftrightarrow> (\<forall>tap d l. pf_peer E S2C (final (pf_data E tap d l)) = pf_peer E S2C l)"

lemma no_capture_stays:
  "proxy_run E fs (fa, s) = Some (Ret (fa', t)) \<Longrightarrow> px_capture s = None \<Longrightarrow> px_capture t = None"
proof (induction fs arbitrary: fa s)
  case (Cons f fs)
  obtain tap d where f: "f = (tap, d)" by fastforce
  from Cons.prems(1) obtain fa1 u where u: "proxy_segment E tap d (fa, s) = Some (Ret (fa1, u))" "proxy_run E fs (fa1, u) = Some (Ret (fa', t))"
    by (auto simp: f split: option.splits outcome.splits)
  have "goes_on tap d s" using Cons.prems(2) by (simp add: goes_on_def)
  then have "px_capture u = None"
    using segment_taken [OF u(1)] segment_unheard [OF u(1)] Cons.prems(2) by (auto simp: passed_def fed_def)
  with Cons.IH [OF u(2)] show ?case by simp
qed simp

text \<open>C11. The capture is the wire. After any segments in either direction, whatever the two parsers and the
  recorder made of them, the capture has the bytes that the capture writer alone makes of those
  segments; it is dropped exactly when it gave up after some segment.\<close>

theorem capture_is_the_wire:
  assumes "steady E" "pf_peer E S2C (px_link s)" "\<not> px_refused s" "px_capture s = Some c"
    and "proxy_run E fs (fa, s) = Some (Ret (fa', t))"
  shows "wire_capture t =
    (if \<exists>n\<in>{1..length fs}. capture_abort_reason (capture_run (take n fs) c) \<noteq> None then None
     else Some (capture_run fs (wire_part c)))"
  using assms(2-)
proof (induction fs arbitrary: fa s c)
  case (Cons f fs)
  obtain tap d where f: "f = (tap, d)" by fastforce
  from Cons.prems(4) obtain fa1 u where u: "proxy_segment E tap d (fa, s) = Some (Ret (fa1, u))" "proxy_run E fs (fa1, u) = Some (Ret (fa', t))"
    by (auto simp: f split: option.splits outcome.splits)
  have heard: "listens E tap s" using Cons.prems(1,2) by (simp add: listens_def split: tap.split)
  have "(\<exists>n\<in>{1..length (f # fs)}. Q (take n (f # fs))) \<longleftrightarrow> Q [f] \<or> (\<exists>n\<in>{1..length fs}. Q (f # take n fs))" for Q
  proof -
    have "{1..length (f # fs)} = insert 1 (Suc ` {1..length fs})" by (auto simp: image_iff Bex_def)
    then show ?thesis by (simp only: bex_simps take_Suc_Cons One_nat_def take_0)
  qed
  note prefixes = this [of "\<lambda>gs. capture_abort_reason (capture_run gs c) \<noteq> None"]
  show ?case
  proof (cases "goes_on tap d s")
    case False
    have "u = snd (abortCapture E (fa, fed tap d s))" using segment_aborts [OF heard False, of fa] u(1) by (metis option.inject outcome.inject(1) snd_conv)
    then have "px_capture u = None" by (simp add: abortCapture_fields)
    with no_capture_stays [OF u(2)] False Cons.prems(3) show ?thesis
      unfolding prefixes by (simp add: f capture_run_Cons goes_on_def)
  next
    case True
    from segment_taken [OF u(1) _ heard True] have ok: "passed E tap d (fed tap d s) u" by simp
    with Cons.prems(3) obtain c' where c': "px_capture u = Some c'" "wire_part c' = cap_feed tap d (wire_part c)"
      by (auto simp: passed_def fed_def wire_part_feed)
    have alive: "pf_peer E S2C (px_link u)" "\<not> px_refused u"
      using ok assms(1) Cons.prems(1,2) by (auto simp: passed_def steady_def px_fixed_def fed_def)
    have same: "capture_abort_reason (capture_run gs c') = capture_abort_reason (capture_run (f # gs) c)" for gs
      using c'(2) by (metis f capture_run_Cons wire_part_abort wire_part_feed wire_part_run)
    from Cons.IH [OF alive c'(1) u(2)] True Cons.prems(3) c'(2) show ?thesis
      unfolding prefixes by (simp add: same f capture_run_Cons goes_on_def)
  qed
qed (simp add: wire_part_def)

theorem capture_is_the_wire_witness:
  "\<exists>fa t. proxy_run sample_proxy [(S2C, [82])] (sample_factory, sample_conn) = Some (Ret (fa, t)) \<and>
     wire_capture t = Some (capture_run [(S2C, [82])] (wire_part (new_capture False)))"
proof -
  have "proxy_run sample_proxy [(S2C, [82])] (sample_factory, sample_conn) =
      Some (Ret (sample_factory, (fed S2C [82] sample_conn)\<lparr>px_link := ([82], [])\<rparr>))"
    by (simp add: proxy_segment_def proxy_server_data_def capture_first_goes_on [OF sample_goes_on] observe_server_def forward_def)
  moreover from this have "wire_capture ((fed S2C [82] sample_conn)\<lparr>px_link := ([82], [])\<rparr>) =
     Some (capture_run [(S2C, [82])] (wire_part (new_capture False)))"
    using capture_is_the_wire [of sample_proxy sample_conn "new_capture False" "[(S2C, [82])]" sample_factory sample_factory]
      sample_goes_on [of S2C] by (auto simp: steady_def goes_on_def cap_feed_def split: if_splits)
  ultimately show ?thesis by blast
qed

section \<open>The end of a session\<close>

definition session_meta :: "('i, 'n) proxy_env \<Rightarrow> proxy_factory \<Rightarrow> capture \<Rightarrow> meta" where
  "session_meta E fa c = capture_meta (fa_server_address fa) (pe_timestamp E) (pe_version E) c"

definition session_archive :: "('i, 'n) proxy_env \<Rightarrow> proxy_factory \<Rightarrow> capture \<Rightarrow> bytes \<Rightarrow> disk_file" where
  "session_archive E fa c vlog = Zip (archive_members (flush_capture c) (session_meta E fa c) vlog) True"

lemma writeCapture_result:
  assumes "px_capture s = Some c" "fa_capture_path fa = Some path"
  shows "writeCapture E fault vdo ((fa, s), fs) =
    (case getRecordedSession vdo of
       Inl e \<Rightarrow> Raise e ((fa, s), fs)
     | Inr vlog \<Rightarrow>
         let (c', states, raised) = write_archive fault path (session_meta E fa c) vlog c fs
         in if raised then Raise OSError ((fa, s\<lparr>px_capture := Some c'\<rparr>), last states)
            else Ret ((fa, s\<lparr>px_capture := None\<rparr>), last states))"
  using assms by (cases "getRecordedSession vdo")
    (simp_all add: writeCapture_def session_meta_def Let_def split: prod.split bool.split)

text \<open>The file system after a session that had a capture, and whether it failed.\<close>

definition lost_archive ::
  "('i, 'n) proxy_env \<Rightarrow> (nat \<times> disk_file option) option \<Rightarrow> unicode option \<Rightarrow> proxy_factory \<Rightarrow> capture \<Rightarrow> string \<Rightarrow>
   files \<Rightarrow> files \<times> bool" where
  "lost_archive E fault vdo fa c path fs =
     (case getRecordedSession vdo of
        Inl e \<Rightarrow> (fs, True)
      | Inr vlog \<Rightarrow>
          let r = snd (write_archive fault path (session_meta E fa c) vlog c fs) in (last (fst r), snd r))"

lemma lost_archive_files:
  assumes "lost_archive E fault vdo fa c path fs = (fs', failed)"
  shows "fs' path \<noteq> fs path \<Longrightarrow> \<exists>vlog. fs' path = Some (session_archive E fa c vlog)"
    "\<not> failed \<Longrightarrow> \<exists>vlog. getRecordedSession vdo = Inr vlog \<and> fs' path = Some (session_archive E fa c vlog)"
    "p \<noteq> path \<Longrightarrow> p \<noteq> partial_name path \<Longrightarrow> fs' p = fs p"
  using assms write_archive_last [where fault = fault and path = path and m = "session_meta E fa c" and c = c and fs = fs]
    write_archive_done [where fault = fault and path = path and m = "session_meta E fa c" and c = c and fs = fs]
  by (auto simp: lost_archive_def session_archive_def Let_def split: sum.splits)

definition session_over :: "proxy_factory \<Rightarrow> proxy_factory" where
  "session_over fa = clientConnectionLost (if fa_one_shot fa then sessionFinished fa else fa)"

lemma session_over_fields [simp]:
  "fa_stopped (session_over fa) \<longleftrightarrow> fa_stopped fa \<or> fa_one_shot fa" "fa_session_taken (session_over fa) = fa_session_taken fa"
  "fa_capture_failed (session_over fa) = fa_capture_failed fa" "fa_vdo (session_over fa) = None"
  by (simp_all add: session_over_def clientConnectionLost_def sessionFinished_def)

lemma lost_with_capture:
  assumes "\<not> px_refused s" "px_saw_bytes s" "px_capture s = Some c" "fa_capture_path fa = Some path"
    and "proxy_connectionLost E fault vdo ((fa, s), fs) = ((fa', t), fs')"
  shows "\<exists>failed. lost_archive E fault vdo fa c path fs = (fs', failed) \<and> px_fixed t = px_fixed s \<and>
    px_vnclog t = px_vnclog s \<and> fa' = session_over (if failed then fa\<lparr>fa_capture_failed := True\<rparr> else fa)"
proof (cases "getRecordedSession vdo")
  case (Inl e)
  with assms(3,4) have "writeCapture E fault vdo ((fa, s), fs) = Raise e ((fa, s), fs)" by (simp add: writeCapture_result)
  with assms have "((fa', t), fs') = ((session_over (fa\<lparr>fa_capture_failed := True\<rparr>), s\<lparr>px_link := pf_lost E (px_link s)\<rparr>), fs)"
    by (simp add: proxy_connectionLost_def session_over_def)
  with Inl show ?thesis by (intro exI [of _ True]) (simp add: lost_archive_def px_fixed_def)
next
  case (Inr vlog)
  obtain c' states failed where w: "write_archive fault path (session_meta E fa c) vlog c fs = (c', states, failed)"
    by (metis prod.exhaust)
  from Inr w assms(3,4) have "writeCapture E fault vdo ((fa, s), fs) =
      (if failed then Raise OSError ((fa, s\<lparr>px_capture := Some c'\<rparr>), last states) else Ret ((fa, s\<lparr>px_capture := None\<rparr>), last states))"
    by (simp add: writeCapture_result)
  with assms have "((fa', t), fs') = ((session_over (if failed then fa\<lparr>fa_capture_failed := True\<rparr> else fa),
      s\<lparr>px_capture := (if failed then Some c' else None), px_link := pf_lost E (px_link s)\<rparr>), last states)"
    by (cases failed) (simp_all add: proxy_connectionLost_def session_over_def)
  with Inr w show ?thesis by (intro exI [of _ failed]) (simp add: lost_archive_def px_fixed_def)
qed

lemma lost_without_capture:
  assumes "\<not> px_refused s" "px_saw_bytes s" "px_capture s = None"
    and "proxy_connectionLost E fault vdo ((fa, s), fs) = ((fa', t), fs')"
  shows "fs' = fs \<and> px_fixed t = px_fixed s \<and> px_vnclog t = px_vnclog s \<and> fa' = session_over fa"
  using assms by (auto simp: proxy_connectionLost_def session_over_def px_fixed_def)

lemma lost_without_path:
  assumes "\<not> px_refused s" "px_saw_bytes s" "px_capture s = Some c" "fa_capture_path fa = None"
    and "proxy_connectionLost E fault vdo ((fa, s), fs) = ((fa', t), fs')"
  shows "fs' = fs \<and> px_fixed t = px_fixed s \<and> px_vnclog t = px_vnclog s \<and> fa' = session_over (fa\<lparr>fa_capture_failed := True\<rparr>)"
  using assms by (auto simp: proxy_connectionLost_def writeCapture_def session_over_def px_fixed_def)

lemma lost_without_bytes:
  assumes "\<not> px_refused s" "\<not> px_saw_bytes s"
    and "proxy_connectionLost E fault vdo ((fa, s), fs) = ((fa', t), fs')"
  shows "fs' = fs \<and> px_fixed t = px_fixed s \<and> px_vnclog t = px_vnclog s \<and>
    fa' = clientConnectionLost (if px_took_session s then fa\<lparr>fa_session_taken := False\<rparr> else fa)"
  using assms by (auto simp: proxy_connectionLost_def px_fixed_def)

lemma lost_refused: "px_refused s \<Longrightarrow> proxy_connectionLost E fault vdo ((fa, s), fs) = ((fa, s), fs)"
  by (simp add: proxy_connectionLost_def)

text \<open>A keysym in the range of the surrogates.\<close>

lemma surrogate_quoted: "is_surrogate k \<Longrightarrow> list_ex is_surrogate (shlex_quote [k])"
  by (auto simp: shlex_quote_def is_surrogate_def is_safe_def)

text \<open>C24. One key event with a keysym in the range of the surrogates costs the capture of the session: the
  key is written to the session log as that character, which \<open>getRecordedSession\<close> cannot encode, so
  at the end no file is written and the capture has failed.\<close>

theorem surrogate_key_loses_capture:
  assumes "is_surrogate k" "\<not> px_refused s" "px_saw_bytes s" "px_capture s = Some c" "fa_capture_path fa = Some path"
    and "record_key now k down r = Ret r'"
  shows "let ((fa', t), fs') = proxy_connectionLost E fault (Some (rec_out r' @ later)) ((fa, s), fs) in
    fs' = fs \<and> fa_capture_failed fa'"
proof -
  have "list_all (\<lambda>(v, n). \<not> is_surrogate v) REVERSE_MAP" by code_simp
  with assms(1) have unnamed: "reverse_get k = None"
    by (auto simp: reverse_get_def map_of_eq_None_iff list_all_iff)
  from assms(1,6) have "list_ex is_surrogate (rec_out r')"
    by (auto simp: record_key_def unnamed Let_def surrogate_quoted split: if_splits)
  then have "getRecordedSession (Some (rec_out r' @ later)) = Inl UnicodeError"
    by (simp add: getRecordedSession_def encode_unicode_def)
  moreover obtain fa' t fs' where l: "proxy_connectionLost E fault (Some (rec_out r' @ later)) ((fa, s), fs) = ((fa', t), fs')"
    by (metis prod.exhaust)
  ultimately show ?thesis
    using lost_with_capture [OF assms(2-5) l] by (auto simp: lost_archive_def)
qed

theorem surrogate_key_loses_capture_witness:
  "\<exists>r. record_key 0 0xD800 1 \<lparr>rec_mouse = None, rec_last = 0, rec_out = []\<rparr> = Ret r \<and>
     (let ((fa', t), fs') = proxy_connectionLost sample_proxy None (Some (rec_out r @ []))
            ((sample_factory, sample_conn\<lparr>px_saw_bytes := True\<rparr>), \<lambda>path. None)
      in fs' = (\<lambda>path. None) \<and> fa_capture_failed fa')"
proof -
  let ?r0 = "\<lparr>rec_mouse = None, rec_last = 0, rec_out = []\<rparr>"
  obtain r where r: "record_key 0 0xD800 1 ?r0 = Ret r" by (auto simp: record_key_def Let_def)
  from surrogate_key_loses_capture [OF _ _ _ _ _ r, of "sample_conn\<lparr>px_saw_bytes := True\<rparr>" "new_capture False" sample_factory "''a.zip''"
      sample_proxy None "[]" "\<lambda>path. None"] r
  show ?thesis by (simp add: is_surrogate_def sample_factory_def)
qed

end
