(* ===== verification/Proxy_World.thy ===== *)
theory Proxy_World
  imports Proxy_Sessions
begin

text \<open>
  All the connections of one \<open>VNCLoggingServerFactory\<close>, in the order they were accepted, with the
  file system: a step is a call that Twisted makes on one of them, in any interleaving and with any
  fault. \<open>relayed\<close> stands for what \<open>portforward\<close> does by itself, such as connecting to the server.
\<close>

section \<open>Steps\<close>

record ('i, 'n) world =
  wo_factory :: proxy_factory
  wo_conns :: "(('i, 'n) proxy_server \<times> bool) list"
  wo_files :: files

text \<open>What the buffer of the latest recorder holds.\<close>

definition recorded_log :: "('i, 'n) world \<Rightarrow> unicode option" where
  "recorded_log w = map_option (\<lambda>i. rec_out (rs_recorder (fst (wo_conns w ! i)))) (fa_vdo (wo_factory w))"

inductive proxy_step :: "('i, 'n) proxy_env \<Rightarrow> ('i, 'n) world \<Rightarrow> ('i, 'n) world \<Rightarrow> bool" for E where
  accepted:
    "final (proxy_connectionMade E opened (length (wo_conns w)) (wo_factory w, new_proxy_server E (wo_factory w) l)) = (fa, s) \<Longrightarrow>
     proxy_step E w (w\<lparr>wo_factory := fa, wo_conns := wo_conns w @ [(s, True)]\<rparr>)"
| segment:
    "i < length (wo_conns w) \<Longrightarrow> wo_conns w ! i = (s, alive) \<Longrightarrow> if tap = C2S then alive else \<not> px_refused s \<Longrightarrow>
     proxy_segment E tap data (wo_factory w, s) = Some r \<Longrightarrow> final r = (fa, t) \<Longrightarrow>
     proxy_step E w (w\<lparr>wo_factory := fa, wo_conns := (wo_conns w)[i := (t, alive)]\<rparr>)"
| lost:
    "i < length (wo_conns w) \<Longrightarrow> wo_conns w ! i = (s, True) \<Longrightarrow>
     proxy_connectionLost E fault (recorded_log w) ((wo_factory w, s), wo_files w) = ((fa, t), fs) \<Longrightarrow>
     proxy_step E w (w\<lparr>wo_factory := fa, wo_conns := (wo_conns w)[i := (t, False)], wo_files := fs\<rparr>)"
| relayed:
    "i < length (wo_conns w) \<Longrightarrow> wo_conns w ! i = (s, alive) \<Longrightarrow>
     proxy_step E w (w\<lparr>wo_conns := (wo_conns w)[i := (s\<lparr>px_link := l\<rparr>, alive)]\<rparr>)"

inductive proxy_reach :: "('i, 'n) proxy_env \<Rightarrow> proxy_factory \<Rightarrow> files \<Rightarrow> ('i, 'n) world \<Rightarrow> bool" for E fa0 fs0 where
  start: "proxy_reach E fa0 fs0 \<lparr>wo_factory = fa0, wo_conns = [], wo_files = fs0\<rparr>"
| step: "proxy_reach E fa0 fs0 w \<Longrightarrow> proxy_step E w w' \<Longrightarrow> proxy_reach E fa0 fs0 w'"

section \<open>One connection at a time\<close>

definition fa_config :: "proxy_factory \<Rightarrow> bool \<times> string option \<times> bool \<times> string option" where
  "fa_config fa = (fa_one_shot fa, fa_capture_path fa, fa_preserve_auth fa, fa_directory fa)"

lemma capturing_config: "fa_config fa = fa_config fb \<Longrightarrow> capturing fa = capturing fb"
  by (simp add: fa_config_def capturing_def)

lemma session_over_config [simp]: "fa_config (session_over fa) = fa_config fa"
  by (simp add: session_over_def clientConnectionLost_def sessionFinished_def fa_config_def)

definition segment_keeps ::
  "tap \<Rightarrow> bytes \<Rightarrow> proxy_factory \<Rightarrow> ('i, 'n) proxy_server \<Rightarrow> proxy_factory \<Rightarrow> ('i, 'n) proxy_server \<Rightarrow> bool" where
  "segment_keeps tap d fa s fa' t \<longleftrightarrow>
     px_fixed t = px_fixed s \<and> (observed s \<longrightarrow> observed t) \<and> (fa' = fa \<or> fa' = fa\<lparr>fa_capture_failed := True\<rparr>) \<and>
     (px_capture t = None \<or> wire_capture t = wire_capture s \<or>
      goes_on tap d s \<and> wire_capture t = map_option (cap_feed tap d) (wire_capture s)) \<and>
     (px_capture t = None \<longrightarrow> px_capture s = None \<or> fa_capture_failed fa')"

lemma segment_result:
  assumes "proxy_segment E tap d (fa, s) = Some r" "final r = (fa', t)"
  shows "segment_keeps tap d fa s fa' t"
proof (cases "listens E tap s")
  case False
  with segment_unheard [OF assms] show ?thesis by (auto simp: passed_def segment_keeps_def)
next
  case heard: True
  show ?thesis
  proof (cases "goes_on tap d s")
    case True
    from segment_taken [OF assms heard True] True show ?thesis
      by (auto simp: segment_keeps_def passed_def fed_def option.map_comp comp_def wire_part_feed observed_def px_fixed_def)
  next
    case False
    with segment_aborts [OF heard False, of fa] assms have "(fa', t) = abortCapture E (fa, fed tap d s)" by simp
    then have "t = snd (abortCapture E (fa, fed tap d s))" "fa' = fst (abortCapture E (fa, fed tap d s))" by (metis snd_conv, metis fst_conv)
    then show ?thesis using abortCapture_observed [of "fed tap d s" E fa] by (simp add: abortCapture_fields segment_keeps_def)
  qed
qed

lemma accepted_result:
  assumes "final (proxy_connectionMade E opened n (fa, new_proxy_server E fa l)) = (fa', s)"
  shows "observed s" "fa_config fa' = fa_config fa" "px_capture s = None \<or> px_capture s = Some (new_capture (fa_preserve_auth fa))"
    "fa_stopped fa' = fa_stopped fa" "px_refused s \<longleftrightarrow> fa_one_shot fa \<and> fa_session_taken fa"
    "fa_session_taken fa \<Longrightarrow> fa_session_taken fa'"
    "fa_one_shot fa \<Longrightarrow> capturing fa \<or> fa_directory fa = None \<Longrightarrow> \<not> px_refused s \<Longrightarrow> fa_session_taken fa' \<and> px_took_session s"
  using assms
  by (auto simp: proxy_connectionMade_def getRecorder_def new_proxy_server_def new_server_def observed_def fa_config_def Let_def capturing_def
      split: if_splits)

definition lost_factory :: "('i, 'n) proxy_server \<Rightarrow> proxy_factory \<Rightarrow> proxy_factory \<Rightarrow> bool" where
  "lost_factory s fa fa' \<longleftrightarrow> fa_config fa' = fa_config fa \<and>
     (if px_refused s then fa' = fa
      else if px_saw_bytes s then fa_stopped fa' = (fa_stopped fa \<or> fa_one_shot fa) \<and> fa_session_taken fa' = fa_session_taken fa
      else fa_stopped fa' = fa_stopped fa \<and> fa_session_taken fa' = (fa_session_taken fa \<and> \<not> px_took_session s))"

lemma session_over_lost:
  "\<not> px_refused s \<Longrightarrow> px_saw_bytes s \<Longrightarrow> lost_factory s fa (session_over fa)"
  "\<not> px_refused s \<Longrightarrow> px_saw_bytes s \<Longrightarrow> lost_factory s fa (session_over (fa\<lparr>fa_capture_failed := True\<rparr>))"
  by (simp_all add: lost_factory_def) (simp add: fa_config_def)

lemma lost_result:
  assumes "proxy_connectionLost E fault vdo ((fa, s), fs) = ((fa', t), fs')"
  shows "px_fixed t = px_fixed s" "px_vnclog t = px_vnclog s" "lost_factory s fa fa'"
    "fs' = fs \<or> (\<exists>c path failed. px_capture s = Some c \<and> fa_capture_path fa = Some path \<and>
       lost_archive E fault vdo fa c path fs = (fs', failed))"
proof -
  have "px_fixed t = px_fixed s \<and> px_vnclog t = px_vnclog s \<and> lost_factory s fa fa' \<and>
    (fs' = fs \<or> (\<exists>c path failed. px_capture s = Some c \<and> fa_capture_path fa = Some path \<and>
       lost_archive E fault vdo fa c path fs = (fs', failed)))"
  proof (cases "px_refused s")
    case True
    with assms show ?thesis by (simp add: lost_refused lost_factory_def)
  next
    case took: False
    show ?thesis
    proof (cases "px_saw_bytes s")
      case False
      with lost_without_bytes [OF took False assms] took show ?thesis
        by (auto simp: lost_factory_def fa_config_def clientConnectionLost_def)
    next
      case saw: True
      note over = session_over_lost [OF took saw]
      show ?thesis
      proof (cases "px_capture s")
        case None
        with lost_without_capture [OF took saw None assms] over show ?thesis by auto
      next
        case (Some c)
        with lost_with_capture [OF took saw Some _ assms] lost_without_path [OF took saw Some _ assms] over show ?thesis
          by (cases "fa_capture_path fa") (auto split: if_splits)
      qed
    qed
  qed
  then show "px_fixed t = px_fixed s" "px_vnclog t = px_vnclog s" "lost_factory s fa fa'"
    "fs' = fs \<or> (\<exists>c path failed. px_capture s = Some c \<and> fa_capture_path fa = Some path \<and>
       lost_archive E fault vdo fa c path fs = (fs', failed))" by auto
qed

section \<open>Invariants\<close>

text \<open>The connections that are open and were not refused.\<close>

definition serving :: "('i, 'n) world \<Rightarrow> nat set" where
  "serving w = {i. i < length (wo_conns w) \<and> snd (wo_conns w ! i) \<and> \<not> px_refused (fst (wo_conns w ! i))}"

lemma serving_append [simp]:
  "serving (w\<lparr>wo_factory := fa, wo_conns := wo_conns w @ [(s, b)]\<rparr>) =
     serving w \<union> (if b \<and> \<not> px_refused s then {length (wo_conns w)} else {})"
  by (auto simp: serving_def nth_append)

lemma serving_update:
  "i < length (wo_conns w) \<Longrightarrow> wo_conns w' = (wo_conns w)[i := (t, b)] \<Longrightarrow>
     serving w' = serving w - {i} \<union> (if b \<and> \<not> px_refused t then {i} else {})"
  by (auto simp: serving_def nth_list_update split: if_splits)

lemma serving_same:
  "i < length (wo_conns w) \<Longrightarrow> wo_conns w ! i = (s, b) \<Longrightarrow> px_refused t = px_refused s \<Longrightarrow>
     wo_conns w' = (wo_conns w)[i := (t, b)] \<Longrightarrow> serving w' = serving w"
  by (auto simp: serving_def nth_list_update split: if_splits)

definition config_ok :: "proxy_factory \<Rightarrow> ('i, 'n) world \<Rightarrow> bool" where
  "config_ok fa0 w \<longleftrightarrow> fa_config (wo_factory w) = fa_config fa0 \<and> (\<forall>p\<in>set (wo_conns w). observed (fst p))"

lemma observed_link [simp]: "observed (s\<lparr>px_link := l\<rparr>) = observed s"
  by (simp add: observed_def)

lemma reach_config: "proxy_reach E fa0 fs0 w \<Longrightarrow> config_ok fa0 w"
proof (induction rule: proxy_reach.induct)
  case (step w w')
  from step(2,3) show ?case
  proof (cases rule: proxy_step.cases)
    case (accepted opened l fa s)
    with accepted_result [OF accepted(2)] step(3) show ?thesis by (simp add: config_ok_def)
  next
    case (segment i s alive tap data r fa t)
    have "(s, alive) \<in> set (wo_conns w)" using segment(2,3) by (metis nth_mem)
    have "observed s \<longrightarrow> observed t" "fa_config fa = fa_config (wo_factory w)"
      using segment_result [OF segment(5,6)] by (auto simp: segment_keeps_def fa_config_def)
    with segment \<open>(s, alive) \<in> set (wo_conns w)\<close> step(3) show ?thesis
      by (auto simp: config_ok_def dest!: set_update_subset_insert [THEN subsetD])
  next
    case (lost i s fault fa t fs)
    have "(s, True) \<in> set (wo_conns w)" using lost(2,3) by (metis nth_mem)
    with lost lost_result [OF lost(4)] step(3) show ?thesis
      by (auto simp: config_ok_def lost_factory_def observed_def dest!: set_update_subset_insert [THEN subsetD])
  next
    case (relayed i s alive l)
    have "(s, alive) \<in> set (wo_conns w)" using relayed(2,3) by (metis nth_mem)
    with relayed step(3) show ?thesis
      by (auto simp: config_ok_def dest!: set_update_subset_insert [THEN subsetD])
  qed
qed (simp add: config_ok_def)

text \<open>The claim on the session, under \<open>--one-shot\<close>.\<close>

definition claim_ok :: "('i, 'n) world \<Rightarrow> bool" where
  "claim_ok w \<longleftrightarrow> (let fa = wo_factory w in
     (\<forall>i\<in>serving w. fa_session_taken fa \<and> \<not> fa_stopped fa \<and> px_took_session (fst (wo_conns w ! i)) \<and> serving w = {i}) \<and>
     (fa_stopped fa \<longrightarrow> fa_session_taken fa))"

lemma reach_claim:
  assumes "proxy_reach E fa0 fs0 w" "fa_one_shot fa0" "capturing fa0 \<or> fa_directory fa0 = None" "\<not> fa_stopped fa0"
  shows "claim_ok w"
  using assms
proof (induction rule: proxy_reach.induct)
  case (step w w')
  have cfg: "fa_config (wo_factory w) = fa_config fa0" using reach_config [OF step(1)] by (simp add: config_ok_def)
  with step(4,5) have cfg: "fa_one_shot (wo_factory w)" "capturing (wo_factory w) \<or> fa_directory (wo_factory w) = None"
    using capturing_config [OF cfg] by (simp_all add: fa_config_def)
  have IH: "claim_ok w" using step by blast
  from step(2) show ?case
  proof (cases rule: proxy_step.cases)
    case (accepted opened l fa s)
    with accepted_result [OF accepted(2)] IH cfg show ?thesis
      by (cases "px_refused s") (auto simp: claim_ok_def Let_def nth_append serving_def)
  next
    case (segment i s alive tap data r fa t)
    from segment_result [OF segment(5,6)] have f: "px_refused t = px_refused s" "px_took_session t = px_took_session s"
      "fa_session_taken fa = fa_session_taken (wo_factory w)" "fa_stopped fa = fa_stopped (wo_factory w)"
      by (auto simp: segment_keeps_def px_fixed_def)
    have "serving w' = serving w" by (rule serving_same [OF segment(2,3) f(1)]) (simp add: segment(1))
    with IH segment(1-3) f show ?thesis by (auto simp: claim_ok_def Let_def nth_list_update)
  next
    case (lost i s fault fa t fs)
    from lost_result [OF lost(4)] have f: "px_refused t = px_refused s" "lost_factory s (wo_factory w) fa"
      by (auto simp: px_fixed_def)
    have sv: "serving w' = serving w - {i}" using lost(1) serving_update [OF lost(2), of w' t False] by simp
    show ?thesis
    proof (cases "px_refused s")
      case True
      then have "i \<notin> serving w" using lost(3) by (simp add: serving_def)
      with sv True f(2) IH lost(1) show ?thesis by (auto simp: claim_ok_def Let_def lost_factory_def nth_list_update)
    next
      case False
      then have "i \<in> serving w" using lost(2,3) by (simp add: serving_def)
      with IH have "serving w = {i}" "fa_session_taken (wo_factory w)" "\<not> fa_stopped (wo_factory w)" "px_took_session s"
        using lost(3) by (auto simp: claim_ok_def Let_def)
      with sv f(2) False lost(1) show ?thesis by (auto simp: claim_ok_def Let_def lost_factory_def split: if_splits)
    qed
  next
    case (relayed i s alive l)
    have "serving w' = serving w" by (rule serving_same [OF relayed(2,3), of "s\<lparr>px_link := l\<rparr>"]) (simp_all add: relayed(1))
    with IH relayed(1-3) show ?thesis by (auto simp: claim_ok_def Let_def nth_list_update)
  qed
qed (simp add: claim_ok_def serving_def)

section \<open>What is written\<close>

text \<open>A capture of segments that were on the wire, which did not give up.\<close>

definition genuine :: "bool \<Rightarrow> capture \<Rightarrow> bool" where
  "genuine p c \<longleftrightarrow> (\<exists>ws. wire_part c = capture_run ws (new_capture p)) \<and> capture_abort_reason c = None"

lemma genuine_new [simp]: "genuine p (new_capture p)"
  unfolding genuine_def
  by (auto simp: wire_part_def new_capture_def capture_abort_reason_def new_scrubber_def intro!: exI [of _ "[]"])

lemma genuine_wire: "wire_part c = wire_part c' \<Longrightarrow> genuine p c \<Longrightarrow> genuine p c'"
  by (metis genuine_def wire_part_abort)

lemma genuine_feed: "genuine p c \<Longrightarrow> capture_abort_reason (cap_feed tap d c) = None \<Longrightarrow> genuine p (cap_feed tap d c)"
proof -
  assume c: "genuine p c" "capture_abort_reason (cap_feed tap d c) = None"
  then obtain ws where "wire_part c = capture_run ws (new_capture p)" by (auto simp: genuine_def)
  then have "wire_part (cap_feed tap d c) = capture_run (ws @ [(tap, d)]) (new_capture p)"
    by (simp add: wire_part_feed capture_run_append capture_run_Cons)
  with c(2) show ?thesis by (auto simp: genuine_def)
qed

definition capture_ok :: "bool \<Rightarrow> ('i, 'n) proxy_server \<Rightarrow> bool" where
  "capture_ok p s \<longleftrightarrow> (\<forall>c. px_capture s = Some c \<longrightarrow> genuine p c)"

lemma segment_capture_ok:
  assumes "proxy_segment E tap d (fa, s) = Some r" "final r = (fa', t)" "capture_ok p s"
  shows "capture_ok p t"
proof -
  have fed: "genuine p c'" if "goes_on tap d s" "wire_capture t = map_option (cap_feed tap d) (wire_capture s)" "px_capture t = Some c'" for c'
  proof -
    from that obtain c where c: "px_capture s = Some c" "wire_part c' = cap_feed tap d (wire_part c)"
      by (cases "px_capture s") auto
    with that(1) assms(3) have "genuine p (cap_feed tap d c)" by (auto simp: capture_ok_def goes_on_def intro: genuine_feed)
    with c(2) show ?thesis using genuine_wire [of "cap_feed tap d c" c'] by (simp add: wire_part_feed)
  qed
  have same: "genuine p c'" if "wire_capture t = wire_capture s" "px_capture t = Some c'" for c'
  proof -
    from that obtain c where c: "px_capture s = Some c" "wire_part c = wire_part c'" by (cases "px_capture s") auto
    with assms(3) have "genuine p c" by (simp add: capture_ok_def)
    with c(2) show ?thesis by (rule genuine_wire)
  qed
  from segment_result [OF assms(1,2)] fed same show ?thesis by (auto simp: segment_keeps_def capture_ok_def)
qed

text \<open>The archive of a genuine capture.\<close>

definition genuine_file :: "bool \<Rightarrow> disk_file \<Rightarrow> bool" where
  "genuine_file p f \<longleftrightarrow> (\<exists>c m vlog. f = Zip (archive_members (flush_capture c) m vlog) True \<and> genuine p c)"

definition files_ok :: "proxy_factory \<Rightarrow> files \<Rightarrow> files \<Rightarrow> bool" where
  "files_ok fa0 fs0 fs \<longleftrightarrow>
     (\<forall>path. fa_capture_path fa0 = Some path \<longrightarrow> fs path = fs0 path \<or> (\<exists>f. fs path = Some f \<and> genuine_file (fa_preserve_auth fa0) f)) \<and>
     (\<forall>q. fs q = fs0 q \<or> (\<exists>path. fa_capture_path fa0 = Some path \<and> q \<in> {path, partial_name path}))"

lemma lost_files_ok:
  assumes "proxy_connectionLost E fault vdo ((fa, s), fs) = ((fa', t), fs')" "capture_ok (fa_preserve_auth fa0) s"
    and "fa_capture_path fa = fa_capture_path fa0" "files_ok fa0 fs0 fs"
  shows "files_ok fa0 fs0 fs'"
proof (cases "fs' = fs")
  case False
  with lost_result(4) [OF assms(1)] obtain c path failed where c: "px_capture s = Some c" "fa_capture_path fa = Some path"
    and w: "lost_archive E fault vdo fa c path fs = (fs', failed)" by blast
  then have "genuine (fa_preserve_auth fa0) c" using assms(2) by (simp add: capture_ok_def)
  then have "genuine_file (fa_preserve_auth fa0) (session_archive E fa c vlog)" for vlog
    by (auto simp: genuine_file_def session_archive_def)
  then have "fs' path = fs path \<or> (\<exists>f. fs' path = Some f \<and> genuine_file (fa_preserve_auth fa0) f)"
    using lost_archive_files(1) [OF w] by blast
  moreover have "fs' q = fs q \<or> q \<in> {path, partial_name path}" for q using lost_archive_files(3) [OF w] by blast
  moreover have "fa_capture_path fa0 = Some path" using c(2) assms(3) by simp
  ultimately show ?thesis using assms(4) unfolding files_ok_def by (metis option.inject)
qed (use assms in simp)

definition captures_ok :: "proxy_factory \<Rightarrow> files \<Rightarrow> ('i, 'n) world \<Rightarrow> bool" where
  "captures_ok fa0 fs0 w \<longleftrightarrow> (\<forall>p\<in>set (wo_conns w). snd p \<longrightarrow> capture_ok (fa_preserve_auth fa0) (fst p)) \<and> files_ok fa0 fs0 (wo_files w)"

lemma reach_captures: "proxy_reach E fa0 fs0 w \<Longrightarrow> captures_ok fa0 fs0 w"
proof (induction rule: proxy_reach.induct)
  case (step w w')
  have cfg: "fa_preserve_auth (wo_factory w) = fa_preserve_auth fa0" "fa_capture_path (wo_factory w) = fa_capture_path fa0"
    using reach_config [OF step(1)] by (simp_all add: config_ok_def fa_config_def)
  from step(2,3) show ?case
  proof (cases rule: proxy_step.cases)
    case (accepted opened l fa s)
    with accepted_result(3) [OF accepted(2)] step(3) cfg show ?thesis by (auto simp: captures_ok_def capture_ok_def)
  next
    case (segment i s alive tap data r fa t)
    have "(s, alive) \<in> set (wo_conns w)" using segment(2,3) by (metis nth_mem)
    with segment segment_capture_ok [OF segment(5,6)] step(3) show ?thesis
      by (auto simp: captures_ok_def dest!: set_update_subset_insert [THEN subsetD])
  next
    case (lost i s fault fa t fs)
    have "(s, True) \<in> set (wo_conns w)" using lost(2,3) by (metis nth_mem)
    with lost lost_files_ok [OF lost(4) _ cfg(2)] step(3) show ?thesis
      by (auto simp: captures_ok_def dest!: set_update_subset_insert [THEN subsetD])
  next
    case (relayed i s alive l)
    have "(s, alive) \<in> set (wo_conns w)" using relayed(2,3) by (metis nth_mem)
    with relayed step(3) show ?thesis
      by (auto simp: captures_ok_def capture_ok_def dest!: set_update_subset_insert [THEN subsetD])
  qed
qed (simp add: captures_ok_def files_ok_def)

lemma flush_wire_part:
  "cap_s2c (flush_capture (wire_part c)) = cap_s2c (flush_capture c)" "cap_c2s (flush_capture (wire_part c)) = cap_c2s (flush_capture c)"
  by (simp_all add: flush_capture_def wire_part_def Let_def split: prod.split)

lemma genuine_file_members:
  assumes "genuine_file p f"
  shows "\<exists>ws ms. let c = flush_capture (capture_run ws (new_capture p)) in
    f = Zip ms True \<and> capture_abort_reason (capture_run ws (new_capture p)) = None \<and>
    read_member ''s2c.bin'' ms = Some (Octets (cap_s2c c)) \<and> read_member ''c2s.bin'' ms = Some (Octets (cap_c2s c))"
proof -
  from assms obtain c m vlog ws where c: "f = Zip (archive_members (flush_capture c) m vlog) True" "capture_abort_reason c = None"
    "wire_part c = capture_run ws (new_capture p)" by (auto simp: genuine_file_def genuine_def)
  have "capture_abort_reason (wire_part c) = None" using c(2) by (simp add: wire_part_abort)
  with c(1) flush_wire_part [of c] show ?thesis
    by (intro exI [of _ ws] exI [of _ "archive_members (flush_capture c) m vlog"])
      (simp add: c(3) [symmetric] Let_def archive_members_def read_member_def)
qed


text \<open>C9. In every state the proxy can reach the bytes of a server get through: a segment is handed to
  \<open>portforward\<close> unchanged and exactly once, unless the capture gives up on it. The decoder that
  observes them always returns, whatever they are and whatever it has raised before.\<close>

theorem reachable_server_bytes_forwarded:
  assumes "proxy_reach E fa0 fs0 w" "i < length (wo_conns w)" "s = fst (wo_conns w ! i)"
    and "pf_peer E S2C (px_link s) \<longrightarrow> goes_on S2C data s"
  shows "\<exists>r. proxy_server_data E data (wo_factory w, s) = Some r \<and> link_outcome r = pf_data E S2C data (px_link s)"
proof -
  have "observed s" using reach_config [OF assms(1)] assms(2,3) by (auto simp: config_ok_def)
  then show ?thesis using assms(4) by (rule server_bytes_pass)
qed


section \<open>A session\<close>

definition sample_world :: "((int \<times> int) \<times> (int \<Rightarrow> int \<Rightarrow> rgb), bytes \<times> bytes) world" where
  "sample_world = \<lparr>wo_factory = sample_factory\<lparr>fa_session_taken := True, fa_vdo := Some 0\<rparr>,
     wo_conns = [(sample_conn, True)], wo_files = \<lambda>path. None\<rparr>"

lemma sample_world_reached: "proxy_reach sample_proxy sample_factory (\<lambda>path. None) sample_world"
proof -
  let ?w = "\<lparr>wo_factory = sample_factory, wo_conns = [], wo_files = \<lambda>path. None\<rparr>"
  have "final (proxy_connectionMade sample_proxy True (length (wo_conns ?w))
      (wo_factory ?w, new_proxy_server sample_proxy (wo_factory ?w) ([], []))) =
    (sample_factory\<lparr>fa_session_taken := True, fa_vdo := Some 0\<rparr>, sample_conn)"
    by (simp add: proxy_connectionMade_def getRecorder_def capturing_def sample_conn_def sample_factory_def new_proxy_server_def new_server_def Let_def)
  from proxy_step.accepted [where w = ?w, OF this] proxy_reach.start [of sample_proxy sample_factory "\<lambda>path. None"]
  show ?thesis by (auto simp: sample_world_def intro: proxy_reach.step)
qed


theorem reachable_server_bytes_forwarded_witness:
  "\<exists>r. proxy_server_data sample_proxy [82] (wo_factory sample_world, sample_conn) = Some r \<and> link_outcome r = Ret ([82], [])"
  using reachable_server_bytes_forwarded [OF sample_world_reached, of 0 sample_conn "[82]"] sample_goes_on [of S2C]
  by (simp add: sample_world_def)

lemma sample_world_ends:
  "\<exists>w. proxy_reach sample_proxy sample_factory (\<lambda>path. None) w \<and> wo_files w ''a.zip'' \<noteq> None \<and>
     fa_stopped (wo_factory w) \<and> \<not> fa_capture_failed (wo_factory w)"
proof -
  let ?s = "(fed S2C [82] sample_conn)\<lparr>px_link := ([82], [])\<rparr>" and ?fa = "wo_factory sample_world"
  let ?w = "sample_world\<lparr>wo_factory := ?fa, wo_conns := (wo_conns sample_world)[0 := (?s, True)]\<rparr>"
  have "proxy_segment sample_proxy S2C [82] (?fa, sample_conn) = Some (Ret (?fa, ?s))"
    by (simp add: proxy_segment_def proxy_server_data_def capture_first_goes_on [OF sample_goes_on] observe_server_def forward_def)
  then have w: "proxy_reach sample_proxy sample_factory (\<lambda>path. None) ?w"
    by (intro proxy_reach.step [OF sample_world_reached] 
        proxy_step.segment [where s = sample_conn and tap = S2C and data = "[82]" and r = "Ret (?fa, ?s)"]) (simp_all add: sample_world_def)
  obtain fa t fs where l: "proxy_connectionLost sample_proxy None (recorded_log ?w) ((?fa, ?s), wo_files ?w) = ((fa, t), fs)"
    by (metis prod.exhaust)
  have "proxy_step sample_proxy ?w (?w\<lparr>wo_factory := fa, wo_conns := (wo_conns ?w)[0 := (t, False)], wo_files := fs\<rparr>)"
    by (rule proxy_step.lost [where w = ?w and s = ?s and fault = None]) (use l in \<open>simp_all add: sample_world_def\<close>)
  with w have over: "proxy_reach sample_proxy sample_factory (\<lambda>path. None)
      (?w\<lparr>wo_factory := fa, wo_conns := (wo_conns ?w)[0 := (t, False)], wo_files := fs\<rparr>)" by (rule proxy_reach.step)
  have vdo: "getRecordedSession (recorded_log ?w) = Inr []"
    by (simp add: recorded_log_def sample_world_def fed_def getRecordedSession_def encode_unicode_def sample_conn_def new_proxy_server_def new_server_def)
  obtain c failed where "lost_archive sample_proxy None (recorded_log ?w) ?fa c ''a.zip'' (wo_files ?w) = (fs, failed)"
    and fa: "fa = session_over (if failed then ?fa\<lparr>fa_capture_failed := True\<rparr> else ?fa)"
    using lost_with_capture [OF _ _ _ _ l, of "cap_feed S2C [82] (new_capture False)" "''a.zip''"]
    by (auto simp: fed_def sample_world_def sample_factory_def)
  moreover have "\<not> snd (snd (write_archive None path m vlog c fs'))" for path m vlog c fs'
    by (simp only: write_archive_def Let_def snd_conv perform_all_raised) simp
  then have "\<not> snd (lost_archive sample_proxy None (recorded_log ?w) ?fa c ''a.zip'' (wo_files ?w))"
    unfolding lost_archive_def vdo by (simp add: Let_def)
  ultimately have "\<not> failed" "fs ''a.zip'' \<noteq> None" using lost_archive_files(2) [of _ _ _ _ c] by fastforce+
  with fa have "fs ''a.zip'' \<noteq> None" "fa_stopped fa" "\<not> fa_capture_failed fa" by (simp_all add: sample_world_def sample_factory_def)
  with over show ?thesis by (intro exI conjI) auto
qed


end
