(* ===== verification/Server_Address.thy ===== *)
theory Server_Address
  imports Command_Line
begin

text \<open>
  The \<open>--server\<close> argument and the exit status of \<open>vncdo\<close>: \<open>parse_server\<close>, with the address syntax of
  \<open>ipaddress\<close>, and the part of \<open>VNCDoCLIFactory\<close> that decides how the process ends.
\<close>

section \<open>Addresses\<close>

datatype address_family = AF_UNSPEC | AF_INET | AF_INET6 | AF_UNIX

definition all_digits :: "unicode \<Rightarrow> bool" where
  "all_digits w \<longleftrightarrow> w \<noteq> [] \<and> list_all text_digit w"

definition decimal_value :: "unicode \<Rightarrow> int" where
  "decimal_value w = foldl (\<lambda>a c. a * 10 + (c - 48)) 0 w"

text \<open>\<open>ipaddress.IPv4Address\<close>: four octets, without leading zeros.\<close>

definition octet_ok :: "unicode \<Rightarrow> bool" where
  "octet_ok w \<longleftrightarrow> all_digits w \<and> length w \<le> 3 \<and> (w = [48] \<or> hd w \<noteq> 48) \<and> decimal_value w \<le> 255"

definition is_ipv4 :: "unicode \<Rightarrow> bool" where
  "is_ipv4 w \<longleftrightarrow> 47 \<notin> set w \<and> length (split_on 46 w) = 4 \<and> list_all octet_ok (split_on 46 w)"

text \<open>\<open>ipaddress.IPv6Address\<close>: hextets, one \<open>::\<close>, an IPv4 address as the last two, a scope.\<close>

definition hex_digit :: "int \<Rightarrow> bool" where
  "hex_digit c \<longleftrightarrow> text_digit c \<or> (65 \<le> c \<and> c \<le> 70) \<or> (97 \<le> c \<and> c \<le> 102)"

definition hextet_ok :: "unicode \<Rightarrow> bool" where
  "hextet_ok w \<longleftrightarrow> w \<noteq> [] \<and> list_all hex_digit w \<and> length w \<le> 4"

definition inner_empties :: "unicode list \<Rightarrow> nat list" where
  "inner_empties parts = filter (\<lambda>i. parts ! i = []) [1 ..< length parts - 1]"

definition hextets_ok :: "unicode list \<Rightarrow> bool" where
  "hextets_ok parts \<longleftrightarrow>
     (case inner_empties parts of
        [] \<Rightarrow> length parts = 8 \<and> hd parts \<noteq> [] \<and> last parts \<noteq> [] \<and> list_all hextet_ok parts
      | [k] \<Rightarrow>
          let hi = (if hd parts = [] then k - 1 else k);
              lo = (if last parts = [] then length parts - k - 2 else length parts - k - 1)
          in (hd parts = [] \<longrightarrow> hi = 0) \<and> (last parts = [] \<longrightarrow> lo = 0) \<and> hi + lo < 8 \<and>
             list_all hextet_ok (take hi parts) \<and> list_all hextet_ok (drop (length parts - lo) parts)
      | _ \<Rightarrow> False)"

definition ipv6_parts :: "unicode \<Rightarrow> unicode list option" where
  "ipv6_parts addr =
     (let parts = split_on 58 addr in
      if length parts < 3 then None
      else if 46 \<in> set (last parts) then
        (if is_ipv4 (last parts) then Some (butlast parts @ [[48], [48]]) else None)
      else Some parts)"

definition is_ipv6 :: "unicode \<Rightarrow> bool" where
  "is_ipv6 w \<longleftrightarrow>
     (let addr = takeWhile (\<lambda>c. c \<noteq> 37) w; scope = drop (length addr) w in
      47 \<notin> set w \<and> (scope = [] \<or> (tl scope \<noteq> [] \<and> 37 \<notin> set (tl scope))) \<and>
      (case ipv6_parts addr of None \<Rightarrow> False | Some parts \<Rightarrow> length parts \<le> 9 \<and> hextets_ok parts))"

section \<open>\<open>parse_server\<close>\<close>

text \<open>The port from what follows the host, by the number of colons.\<close>

definition server_port :: "unicode list \<Rightarrow> exn + int" where
  "server_port split =
     (if length split = 3 then int_of_text (split ! 2)
      else if length split = 2 then bind_sum (int_of_text (split ! 1)) (\<lambda>d. Inr (d + 5900))
      else if length split = 1 then Inr 5900
      else Inl ValueError)"

definition parse_server :: "(unicode \<Rightarrow> bool) \<Rightarrow> unicode \<Rightarrow> exn + address_family \<times> unicode \<times> int" where
  "parse_server exists_path server =
     (if server \<noteq> [] \<and> hd server = 91 then
        let host = takeWhile (\<lambda>c. c \<noteq> 93) (tl server); rest = drop (length host) (tl server) in
        if rest = [] then Inl ValueError
        else if \<not> is_ipv6 host then Inl ValueError
        else bind_sum (server_port (split_on 58 (tl rest))) (\<lambda>port. Inr (AF_INET6, host, port))
      else
        let split = split_on 58 server;
            host = (if hd split = [] then pts ''127.0.0.1'' else hd split);
            family = (if exists_path host then AF_UNIX else if is_ipv4 host then AF_INET else AF_UNSPEC)
        in bind_sum (server_port split) (\<lambda>port. Inr (family, host, port)))"

section \<open>Exit status\<close>

datatype exit_status =
  SUCCESS | ERROR | USAGE | AUTHENTICATION_FAILED | CONNECTION_FAILED | CONNECTION_LOST | PROTOCOL_ERROR
| COMMAND_FAILED | TIMEOUT

fun exit_code :: "exit_status \<Rightarrow> int" where
  "exit_code SUCCESS = 0"
| "exit_code ERROR = 1"
| "exit_code USAGE = 2"
| "exit_code AUTHENTICATION_FAILED = 3"
| "exit_code CONNECTION_FAILED = 10"
| "exit_code CONNECTION_LOST = 11"
| "exit_code PROTOCOL_ERROR = 20"
| "exit_code COMMAND_FAILED = 30"
| "exit_code TIMEOUT = 40"

datatype error_class = EAuthentication | EProtocol | ETimeout | EConnect | EDNSLookup | EConnectionClosed

definition EXIT_STATUS_FOR_ERROR :: "(error_class \<times> exit_status) list" where
  "EXIT_STATUS_FOR_ERROR = [(EAuthentication, AUTHENTICATION_FAILED), (EProtocol, PROTOCOL_ERROR), (ETimeout, TIMEOUT),
     (EConnect, CONNECTION_FAILED), (EDNSLookup, CONNECTION_FAILED), (EConnectionClosed, CONNECTION_LOST)]"

text \<open>A failure is given by the classes it is an instance of.\<close>

type_synonym failure = "error_class \<Rightarrow> bool"

definition status_for :: "failure \<Rightarrow> exit_status \<Rightarrow> exit_status" where
  "status_for reason dflt =
     (case filter (\<lambda>(c, st). reason c) EXIT_STATUS_FOR_ERROR of [] \<Rightarrow> dflt | (c, st) # _ \<Rightarrow> st)"

record cli =
  cli_status :: "exit_status option"
  cli_stops :: nat

definition cli_done :: "exit_status \<Rightarrow> cli \<Rightarrow> cli" where
  "cli_done st s = (if cli_status s \<noteq> None then s else s\<lparr>cli_status := Some st, cli_stops := cli_stops s + 1\<rparr>)"

definition cli_error :: "failure \<Rightarrow> exit_status \<Rightarrow> cli \<Rightarrow> cli" where
  "cli_error reason dflt s = (if cli_status s \<noteq> None then s else cli_done (status_for reason dflt) s)"

text \<open>What can happen to a run: the command chain ends or fails, the connection fails or is lost, the
  time runs out.\<close>

datatype cli_event = ChainDone | ChainFailed failure | ConnectionFailed failure | ConnectionLost failure | TimedOut

fun cli_step :: "cli_event \<Rightarrow> cli \<Rightarrow> cli" where
  "cli_step ChainDone s = cli_done SUCCESS s"
| "cli_step (ChainFailed reason) s = cli_error reason COMMAND_FAILED s"
| "cli_step (ConnectionFailed reason) s = cli_error reason CONNECTION_FAILED s"
| "cli_step (ConnectionLost reason) s = cli_error reason CONNECTION_LOST s"
| "cli_step TimedOut s = cli_error (\<lambda>c. c = ETimeout) COMMAND_FAILED s"

definition process_exit :: "cli \<Rightarrow> int" where
  "process_exit s = (case cli_status s of None \<Rightarrow> exit_code ERROR | Some st \<Rightarrow> exit_code st)"

definition new_cli :: cli where
  "new_cli = \<lparr>cli_status = None, cli_stops = 0\<rparr>"

section \<open>Facts\<close>

lemma cli_decided: "cli_status s \<noteq> None \<Longrightarrow> fold cli_step es s = s"
proof (induction es arbitrary: s)
  case (Cons e es)
  then have "cli_step e s = s" by (cases e) (auto simp: cli_done_def cli_error_def)
  with Cons show ?case by simp
qed simp

text \<open>The first outcome of a run decides its exit status, and the reactor is stopped once: the run
  exits with 0 exactly if the command chain completed before anything else happened.\<close>

lemma exit_status_first_outcome:
  "process_exit (fold cli_step es new_cli) =
     (case es of [] \<Rightarrow> 1 | e # later \<Rightarrow> process_exit (cli_step e new_cli)) \<and>
   (process_exit (fold cli_step es new_cli) = 0 \<longleftrightarrow> (\<exists>later. es = ChainDone # later)) \<and>
   cli_stops (fold cli_step es new_cli) = (if es = [] then 0 else 1)"
proof (cases es)
  case Nil
  then show ?thesis by (simp add: process_exit_def new_cli_def)
next
  case (Cons e later)
  have first: "cli_status (cli_step e new_cli) \<noteq> None" "cli_stops (cli_step e new_cli) = 1"
    by (cases e; simp add: cli_done_def cli_error_def new_cli_def)+
  have "status_for reason dflt \<noteq> SUCCESS" if "dflt \<noteq> SUCCESS" for reason dflt
    using that by (auto simp: status_for_def EXIT_STATUS_FOR_ERROR_def)
  moreover have "exit_code st = 0 \<longleftrightarrow> st = SUCCESS" for st by (cases st) simp_all
  ultimately have "process_exit (cli_step e new_cli) = 0 \<longleftrightarrow> e = ChainDone"
    by (cases e) (simp_all add: process_exit_def cli_done_def cli_error_def new_cli_def)
  with Cons first show ?thesis by (simp add: cli_decided)
qed

lemma int_shown: "int_of_text (show_int n) = Inr n"
proof -
  let ?m = "nat \<bar>n\<bar>"
  obtain c cs where c: "pts (show_nat ?m) = c # cs" "text_digit c" using show_nat_head by blast
  obtain k where k: "0 < k" "scan_digits False 0 0 (pts (show_nat ?m)) = (int ?m, k, [])"
    using scan_decimal [of False 0 0 ?m "[]"] by auto
  have "list_all text_digit (pts (show_nat ?m))" by (rule show_nat_digits)
  then have "text_digit (last (pts (show_nat ?m)))" using c by (metis last_in_set list.distinct(1) list_all_iff)
  from sign_strip [OF c this, of "n < 0"] k show ?thesis
    by (simp add: int_of_text_def show_int_def)
qed

definition family_of :: "(unicode \<Rightarrow> bool) \<Rightarrow> unicode \<Rightarrow> address_family" where
  "family_of exists_path host = (if exists_path host then AF_UNIX else if is_ipv4 host then AF_INET else AF_UNSPEC)"

lemma split_on_append: "sep \<notin> set a \<Longrightarrow> split_on sep (a @ sep # b) = a # split_on sep b"
  by (induction a) auto

lemma shown_no_colon: "58 \<notin> set (show_int n)"
  using show_nat_digits [of "nat \<bar>n\<bar>"] by (auto simp: show_int_def list_all_iff text_digit_def)

lemma takeWhile_bracket: "93 \<notin> set h \<Longrightarrow> takeWhile (\<lambda>c. c \<noteq> 93) (h @ 93 # rest) = (h :: unicode)"
  by (induction h) auto

text \<open>The forms of a server address: a host alone is on port 5900, a display is counted from there,
  a port after two colons is taken as it is; an IPv6 address is the same in brackets. A host that
  names an existing path is a Unix socket.\<close>

lemma parse_server_forms:
  assumes "host \<noteq> []" "58 \<notin> set host" "hd host \<noteq> 91" "93 \<notin> set v6" "is_ipv6 v6"
  shows "parse_server ex host = Inr (family_of ex host, host, 5900) \<and>
    parse_server ex (host @ [58] @ show_int d) = Inr (family_of ex host, host, d + 5900) \<and>
    parse_server ex (host @ [58, 58] @ show_int p) = Inr (family_of ex host, host, p) \<and>
    parse_server ex ([91] @ v6 @ [93]) = Inr (AF_INET6, v6, 5900) \<and>
    parse_server ex ([91] @ v6 @ [93, 58] @ show_int d) = Inr (AF_INET6, v6, d + 5900) \<and>
    parse_server ex ([91] @ v6 @ [93, 58, 58] @ show_int p) = Inr (AF_INET6, v6, p)"
proof -
  have split: "split_on 58 (host @ [58] @ show_int d) = [host, show_int d]"
    "split_on 58 (host @ [58, 58] @ show_int p) = [host, [], show_int p]" "split_on 58 host = [host]"
    using assms(2) shown_no_colon by (simp_all add: split_on_append)
  have split6: "split_on 58 ([58] @ show_int d) = [[], show_int d]" "split_on 58 ([58, 58] @ show_int p) = [[], [], show_int p]"
    using shown_no_colon by simp_all
  have hd: "hd (host @ xs) \<noteq> 91" for xs using assms(1,3) by simp
  show ?thesis
    using assms split split6 hd [of "[58] @ show_int d"] hd [of "[58, 58] @ show_int p"]
    by (simp add: parse_server_def Let_def server_port_def int_shown family_of_def takeWhile_bracket del: split_on.simps)
qed


end
