(* ===== verification/Vnclog_Command.thy ===== *)
theory Vnclog_Command
  imports Proxy_World Server_Address
begin

text \<open>
  \<open>command.vnclog\<close>: what it makes of its options, the factory it sets up, and its exit status. The
  options are read in \<open>Vnclog_Options\<close>, listening and running are Twisted's; \<open>build_proxy\<close> sets
  \<open>reactor.exit_status\<close> to 0, which nothing changes.
\<close>

section \<open>Options\<close>

record vnclog_options =
  vo_server :: string
  vo_password :: "string option"
  vo_file_per_client :: bool
  vo_password_required :: bool
  vo_one_shot :: bool
  vo_capture_raw :: "string option"
  vo_capture_raw_unsafe :: bool

text \<open>An option with a value counts as given when it is not empty.\<close>

definition given :: "string option \<Rightarrow> bool" where
  "given v \<longleftrightarrow> v \<noteq> None \<and> v \<noteq> Some []"

text \<open>\<open>op.error\<close> with its message; it exits with status 2. A server address that cannot be parsed is
  an exception, as is an output that cannot be opened.\<close>

datatype vnclog_error =
    FilePerClientWithOneShot | OutputImplied | BadCaptureTarget | UnsafeWithoutCapture | WrongArguments
  | OutputNotDirectory | Uncaught exn

definition build_proxy :: "vnclog_options \<Rightarrow> proxy_factory" where
  "build_proxy opts =
     \<lparr>fa_password_required = vo_password_required opts, fa_password = None, fa_directory = None, fa_one_shot = False,
      fa_session_taken = False, fa_capture_path = None, fa_preserve_auth = False, fa_capture_failed = False,
      fa_server_address = vo_server opts, fa_vdo = None, fa_out = None, fa_stopped = False\<rparr>"

text \<open>The checks before anything is opened; the result is \<open>output\<close>.\<close>

definition vnclog_check :: "tree \<Rightarrow> vnclog_options \<Rightarrow> string list \<Rightarrow> vnclog_error + string option" where
  "vnclog_check t opts args =
     (if (vo_one_shot opts \<or> given (vo_capture_raw opts)) \<and> vo_file_per_client opts then Inl FilePerClientWithOneShot
      else if given (vo_capture_raw opts) then
        (if args \<noteq> [] then Inl OutputImplied
         else case check_capture_target t (the (vo_capture_raw opts)) of
             Inl e \<Rightarrow> Inl BadCaptureTarget
           | Inr _ \<Rightarrow> Inr None)
      else if vo_capture_raw_unsafe opts then Inl UnsafeWithoutCapture
      else case args of
          [output] \<Rightarrow> Inr (Some output)
        | _ \<Rightarrow> Inl WrongArguments)"

text \<open>\<open>opened\<close>: whether \<open>open(output, "w")\<close> succeeds.\<close>

definition vnclog_setup ::
  "tree \<Rightarrow> bool \<Rightarrow> vnclog_options \<Rightarrow> string list \<Rightarrow> vnclog_error + proxy_factory" where
  "vnclog_setup t opened opts args =
     (case parse_server (\<lambda>path. path_exists t (map (\<lambda>c. char_of (nat c)) path)) (pts (vo_server opts)) of
        Inl e \<Rightarrow> Inl (Uncaught e)
      | Inr addr \<Rightarrow>
     (case vnclog_check t opts args of
        Inl e \<Rightarrow> Inl e
      | Inr out \<Rightarrow>
          let fa = (build_proxy opts)\<lparr>fa_one_shot := vo_one_shot opts \<or> given (vo_capture_raw opts)\<rparr>;
              done = (\<lambda>fa. Inr (fa\<lparr>fa_password := vo_password opts\<rparr>))
          in if given (vo_capture_raw opts) then
               done (fa\<lparr>fa_capture_path := vo_capture_raw opts, fa_preserve_auth := vo_capture_raw_unsafe opts\<rparr>)
             else case out of
                 None \<Rightarrow> Inl (Uncaught TypeError)
               | Some output \<Rightarrow>
                   if vo_file_per_client opts \<and> tr_dirs t (abspath (tr_cwd t) output) then done (fa\<lparr>fa_directory := Some output\<rparr>)
                   else if vo_file_per_client opts then Inl OutputNotDirectory
                   else if output = ''-'' \<or> opened then done fa
                   else Inl (Uncaught OSError)))"

definition vnclog_exit :: "proxy_factory \<Rightarrow> exit_status" where
  "vnclog_exit fa = (if fa_capture_failed fa then COMMAND_FAILED else SUCCESS)"

section \<open>The factory of a run\<close>

lemma vnclog_check_ok:
  assumes "vnclog_check t opts args = Inr out"
  shows "\<not> ((vo_one_shot opts \<or> given (vo_capture_raw opts)) \<and> vo_file_per_client opts)"
    "given (vo_capture_raw opts) \<Longrightarrow> check_capture_target t (the (vo_capture_raw opts)) = Inr ()"
  using assms by (auto simp: vnclog_check_def split: if_splits sum.splits)

lemma vnclog_setup_ok:
  assumes "vnclog_setup t opened opts args = Inr fa"
  shows "fa_one_shot fa \<longleftrightarrow> vo_one_shot opts \<or> given (vo_capture_raw opts)"
    "given (vo_capture_raw opts) \<Longrightarrow> capturing fa \<and> fa_capture_path fa = vo_capture_raw opts \<and>
       check_capture_target t (the (vo_capture_raw opts)) = Inr ()"
    "fa_one_shot fa \<Longrightarrow> capturing fa \<or> fa_directory fa = None"
    "\<not> fa_stopped fa" "\<not> fa_capture_failed fa" "fa_preserve_auth fa \<longleftrightarrow> given (vo_capture_raw opts) \<and> vo_capture_raw_unsafe opts"
proof -
  from assms obtain out where check: "vnclog_check t opts args = Inr out"
    by (auto simp: vnclog_setup_def split: sum.splits)
  note ok = vnclog_check_ok [OF check]
  show "fa_one_shot fa \<longleftrightarrow> vo_one_shot opts \<or> given (vo_capture_raw opts)"
    "given (vo_capture_raw opts) \<Longrightarrow> capturing fa \<and> fa_capture_path fa = vo_capture_raw opts \<and>
       check_capture_target t (the (vo_capture_raw opts)) = Inr ()"
    "fa_one_shot fa \<Longrightarrow> capturing fa \<or> fa_directory fa = None"
    "\<not> fa_stopped fa" "\<not> fa_capture_failed fa" "fa_preserve_auth fa \<longleftrightarrow> given (vo_capture_raw opts) \<and> vo_capture_raw_unsafe opts"
    using assms check ok
    by (auto simp: vnclog_setup_def build_proxy_def capturing_def given_def Let_def split: sum.splits if_splits option.splits)
qed

text \<open>C10. A \<open>vnclog\<close> started with \<open>--one-shot\<close> or \<open>--capture-raw\<close> serves one connection at a time: at
  most one of the connections that are open was not refused, and none once the reactor has been
  stopped at the end of a session.\<close>

theorem vnclog_serves_one_session:
  assumes "vnclog_setup t opened opts args = Inr fa" "vo_one_shot opts \<or> given (vo_capture_raw opts)"
    and "proxy_reach E fa fs w"
  shows "card (serving w) \<le> 1 \<and> (fa_stopped (wo_factory w) \<longrightarrow> serving w = {})"
proof (cases "serving w = {}")
  case False
  then obtain i where "i \<in> serving w" by blast
  moreover have "claim_ok w"
    using vnclog_setup_ok(1,3,4) [OF assms(1)] assms(2) by (intro reach_claim [OF assms(3)]) auto
  ultimately have "serving w = {i}" "\<not> fa_stopped (wo_factory w)" by (auto simp: claim_ok_def Let_def)
  then show ?thesis by simp
qed simp

definition sample_options :: vnclog_options where
  "sample_options = \<lparr>vo_server = [], vo_password = None, vo_file_per_client = False, vo_password_required = False,
     vo_one_shot = False, vo_capture_raw = Some ''a.zip'', vo_capture_raw_unsafe = False\<rparr>"

definition sample_tree :: tree where
  "sample_tree = \<lparr>tr_files = (\<lambda>path. None), tr_dirs = (\<lambda>path. path = ''/''), tr_cwd = ''/''\<rparr>"

theorem vnclog_serves_one_session_witness:
  "vnclog_setup sample_tree True sample_options [] = Inr sample_factory \<and>
     proxy_reach sample_proxy sample_factory (\<lambda>path. None) sample_world \<and> serving sample_world = {0} \<and> card (serving sample_world) \<le> 1"
proof -
  have "vnclog_setup sample_tree True sample_options [] = Inr sample_factory" by code_simp
  moreover have "serving sample_world = {0}" by (auto simp: serving_def sample_world_def)
  ultimately show ?thesis
    using vnclog_serves_one_session [OF _ _ sample_world_reached, of sample_tree True sample_options "[]"] sample_world_reached
    by (simp add: sample_options_def given_def)
qed

section \<open>The exit status of a capture\<close>

definition outcome_ok :: "proxy_factory \<Rightarrow> ('i, 'n) world \<Rightarrow> bool" where
  "outcome_ok fa0 w \<longleftrightarrow>
     (\<forall>i\<in>serving w. px_capture (fst (wo_conns w ! i)) = None \<longrightarrow> fa_capture_failed (wo_factory w)) \<and>
     (fa_stopped (wo_factory w) \<longrightarrow> fa_capture_failed (wo_factory w) \<or>
        (\<exists>f. wo_files w (the (fa_capture_path fa0)) = Some f \<and> genuine_file (fa_preserve_auth fa0) f))"

lemma lost_outcome:
  assumes "proxy_connectionLost E fault vdo ((fa, s), fs) = ((fa', t), fs')" "fa_capture_path fa = Some path" "\<not> px_refused s"
    and "px_capture s = None \<longrightarrow> fa_capture_failed fa" "capture_ok p s"
  shows "px_saw_bytes s \<longrightarrow> fa_capture_failed fa' \<or> (\<exists>f. fs' path = Some f \<and> genuine_file p f)"
    "fa_capture_failed fa \<longrightarrow> fa_capture_failed fa'"
proof -
  have "(px_saw_bytes s \<longrightarrow> fa_capture_failed fa' \<or> (\<exists>f. fs' path = Some f \<and> genuine_file p f)) \<and>
    (fa_capture_failed fa \<longrightarrow> fa_capture_failed fa')"
  proof (cases "px_saw_bytes s")
    case False
    with lost_without_bytes [OF assms(3) False assms(1)] show ?thesis by (auto simp: clientConnectionLost_def)
  next
    case saw: True
    show ?thesis
    proof (cases "px_capture s")
      case None
      with lost_without_capture [OF assms(3) saw None assms(1)] assms(4) show ?thesis by auto
    next
      case (Some c)
      from lost_with_capture [OF assms(3) saw Some assms(2,1)] obtain failed where
        w: "lost_archive E fault vdo fa c path fs = (fs', failed)"
          "fa' = session_over (if failed then fa\<lparr>fa_capture_failed := True\<rparr> else fa)" by blast
      have "genuine_file p (session_archive E fa c vlog)" for vlog
        using assms(5) Some by (auto simp: capture_ok_def genuine_file_def session_archive_def)
      with w lost_archive_files(2) [OF w(1)] show ?thesis by auto
    qed
  qed
  then show "px_saw_bytes s \<longrightarrow> fa_capture_failed fa' \<or> (\<exists>f. fs' path = Some f \<and> genuine_file p f)"
    "fa_capture_failed fa \<longrightarrow> fa_capture_failed fa'" by auto
qed

lemma accepted_capture:
  assumes "final (proxy_connectionMade E opened n (fa, new_proxy_server E fa l)) = (fa', s)" "capturing fa" "\<not> px_refused s"
  shows "px_capture s \<noteq> None" "fa_capture_failed fa' = fa_capture_failed fa"
  using assms by (auto simp: proxy_connectionMade_def getRecorder_def new_proxy_server_def new_server_def capturing_def Let_def split: if_splits)

lemma reach_outcome:
  assumes "proxy_reach E fa0 fs0 w" "fa_one_shot fa0" "capturing fa0" "\<not> fa_stopped fa0"
  shows "outcome_ok fa0 w"
  using assms
proof (induction rule: proxy_reach.induct)
  case (step w w')
  have "claim_ok w" using reach_claim [OF step(1)] step(4-6) by blast
  have cfg: "fa_config (wo_factory w) = fa_config fa0" using reach_config [OF step(1)] by (simp add: config_ok_def)
  then obtain path where path: "fa_capture_path fa0 = Some path" "fa_capture_path (wo_factory w) = Some path"
    "capturing (wo_factory w)" "fa_one_shot (wo_factory w)"
    using step(4,5) capturing_config [OF cfg] by (auto simp: fa_config_def capturing_def)
  have IH: "outcome_ok fa0 w" using step by blast
  from step(2) show ?case
  proof (cases rule: proxy_step.cases)
    case (accepted opened l fa s)
    show ?thesis
    proof (cases "px_refused s")
      case True
      with accepted(2) have "fa = wo_factory w"
        by (auto simp: proxy_connectionMade_def Let_def new_proxy_server_def new_server_def split: if_splits prod.splits sum.splits)
      with True accepted(1) IH show ?thesis by (auto simp: outcome_ok_def serving_def nth_append)
    next
      case False
      from accepted_capture [OF accepted(2) path(3) False] accepted_result(4) [OF accepted(2)] accepted(1) IH show ?thesis
        by (auto simp: outcome_ok_def serving_def nth_append)
    qed
  next
    case (segment i s alive tap data r fa t)
    from segment_result [OF segment(5,6)] have f: "px_refused t = px_refused s" "fa_stopped fa = fa_stopped (wo_factory w)"
      "fa_capture_failed (wo_factory w) \<longrightarrow> fa_capture_failed fa" "px_capture t = None \<longrightarrow> px_capture s = None \<or> fa_capture_failed fa"
      by (auto simp: segment_keeps_def px_fixed_def)
    have "serving w' = serving w" by (rule serving_same [OF segment(2,3) f(1)]) (simp add: segment(1))
    moreover have "px_capture s = None \<longrightarrow> i \<in> serving w \<longrightarrow> fa_capture_failed (wo_factory w)"
      using IH segment(3) by (force simp: outcome_ok_def)
    ultimately show ?thesis using IH segment(1-3) f by (auto simp: outcome_ok_def nth_list_update)
  next
    case (lost i s fault fa t fs)
    have sv: "serving w' = serving w - {i}" using lost(1) serving_update [OF lost(2), of w' t False] by simp
    show ?thesis
    proof (cases "px_refused s")
      case True
      then have "i \<notin> serving w" using lost(3) by (simp add: serving_def)
      then have "(wo_conns w)[i := (t, False)] ! j = wo_conns w ! j" if "j \<in> serving w" for j
        using that by (metis nth_list_update_neq)
      with sv True \<open>i \<notin> serving w\<close> IH lost(1,4) show ?thesis by (auto simp: outcome_ok_def lost_refused)
    next
      case False
      then have i: "i \<in> serving w" using lost(2,3) by (simp add: serving_def)
      with \<open>claim_ok w\<close> have "serving w = {i}" "\<not> fa_stopped (wo_factory w)" by (auto simp: claim_ok_def Let_def)
      moreover have "px_capture s = None \<longrightarrow> fa_capture_failed (wo_factory w)"
        using IH i lost(3) by (force simp: outcome_ok_def)
      moreover have "capture_ok (fa_preserve_auth fa0) s"
        using reach_captures [OF step(1)] lost(2,3) by (metis captures_ok_def fst_conv nth_mem snd_conv)
      ultimately show ?thesis
        using lost_outcome [OF lost(4) path(2) False] lost_result(3) [OF lost(4)] False lost(1) sv path(1)
        by (auto simp: outcome_ok_def lost_factory_def split: if_splits)
    qed
  next
    case (relayed i s alive l)
    have "serving w' = serving w" by (rule serving_same [OF relayed(2,3), of "s\<lparr>px_link := l\<rparr>"]) (simp_all add: relayed(1))
    moreover have "px_capture s = None \<longrightarrow> i \<in> serving w \<longrightarrow> fa_capture_failed (wo_factory w)"
      using IH relayed(3) by (force simp: outcome_ok_def)
    ultimately show ?thesis using IH relayed(1-3) by (auto simp: outcome_ok_def nth_list_update)
  qed
qed (simp add: outcome_ok_def serving_def)



end
