(* ===== verification/Option_Parser.thy ===== *)
theory Option_Parser
  imports Server_Address
begin

text \<open>
  Python's \<open>optparse\<close>, as far as the commands of \<open>command.py\<close> use it: options with at most one short and
  one long name, values of the types the commands declare, abbreviated long names, values attached with
  \<open>=\<close> or to a short option, clusters of short options, \<open>--\<close>, and arguments that may or may not be
  mixed with options. \<open>parse_args\<close> either stops the process or yields the values, by destination, and
  the arguments. The lemmas show that it always returns, and that a rendered command line is read as
  it was meant.
\<close>

section \<open>Options\<close>

datatype opt_type = OText | OInt | OFloat | OChoice "unicode list"

datatype opt_action = Store opt_type | StoreTrue | CountUp | ShowHelp | ShowVersion

datatype opt_value = VNone | VBool bool | VInt int | VFloat pyfloat | VText unicode

record opt_spec =
  op_short :: "int option"
  op_long :: unicode
  op_dest :: string
  op_action :: opt_action
  op_default :: opt_value

record opt_parser =
  pa_options :: "opt_spec list"
  pa_interspersed :: bool

type_synonym opt_values = "string \<Rightarrow> opt_value"

datatype usage_error =
    NoSuchOption unicode | AmbiguousOption unicode | MissingArgument unicode | UnexpectedValue unicode
  | InvalidValue unicode unicode

text \<open>Help and version exit with status 0, \<open>error\<close> with 2; a default given as text that does not
  convert raises where nothing catches it.\<close>

datatype parse_stop = HelpShown | VersionShown | UsageError usage_error | BadDefault

definition takes_value :: "opt_spec \<Rightarrow> bool" where
  "takes_value sp = (case op_action sp of Store t \<Rightarrow> True | _ \<Rightarrow> False)"

fun try_sum :: "'e + 'a \<Rightarrow> ('a \<Rightarrow> 'e + 'b) \<Rightarrow> 'e + 'b" where
  "try_sum (Inl e) f = Inl e"
| "try_sum (Inr v) f = f v"

lemma try_sum_Inr_iff: "try_sum r f = Inr v \<longleftrightarrow> (\<exists>u. r = Inr u \<and> f u = Inr v)"
  by (cases r) auto

section \<open>Numbers\<close>

text \<open>\<open>int(text, radix)\<close> of a radix with a prefix, and \<open>_parse_num\<close>.\<close>

definition radix_value :: "int \<Rightarrow> int option" where
  "radix_value c =
     (if 48 \<le> c \<and> c \<le> 57 then Some (c - 48) else if 65 \<le> c \<and> c \<le> 90 then Some (c - 55)
      else if 97 \<le> c \<and> c \<le> 122 then Some (c - 87) else None)"

definition radix_digit :: "int \<Rightarrow> int \<Rightarrow> bool" where
  "radix_digit radix c = (case radix_value c of None \<Rightarrow> False | Some d \<Rightarrow> d < radix)"

text \<open>Digits with single underscores between them; \<open>prev\<close>: an underscore may come.\<close>

fun radix_digits :: "int \<Rightarrow> bool \<Rightarrow> int \<Rightarrow> unicode \<Rightarrow> int option" where
  "radix_digits radix prev v [] = (if prev then Some v else None)"
| "radix_digits radix prev v (c # cs) =
     (if radix_digit radix c then radix_digits radix True (v * radix + the (radix_value c)) cs
      else if c = 95 \<and> prev then radix_digits radix False v cs
      else None)"

definition int_radix :: "int \<Rightarrow> int \<Rightarrow> unicode \<Rightarrow> int option" where
  "int_radix radix letter text =
     (let (neg, ds) = split_sign (strip_text text);
          prefixed = (length ds \<ge> 2 \<and> hd ds = 48 \<and> lower_ascii [ds ! 1] = [letter]);
          body = (if prefixed then drop 2 ds else ds);
          body = (if prefixed \<and> body \<noteq> [] \<and> hd body = 95 then tl body else body)
      in map_option (\<lambda>v. if neg then - v else v) (radix_digits radix False 0 body))"

definition parse_num :: "unicode \<Rightarrow> int option" where
  "parse_num val =
     (let head = lower_ascii (take 2 val) in
      if head = pts ''0x'' then int_radix 16 120 val
      else if head = pts ''0b'' then int_radix 2 98 (if drop 2 val = [] then [48] else drop 2 val)
      else if take 1 val = [48] then int_radix 8 111 val
      else (case int_of_text val of Inl e \<Rightarrow> None | Inr v \<Rightarrow> Some v))"

section \<open>Processing\<close>

text \<open>\<open>option.check_value\<close>; the error names the option as it was written.\<close>

definition check_value :: "opt_type \<Rightarrow> unicode \<Rightarrow> opt_value option" where
  "check_value t val =
     (case t of
        OText \<Rightarrow> Some (VText val)
      | OInt \<Rightarrow> map_option VInt (parse_num val)
      | OFloat \<Rightarrow> (case float_of_text val of Inl e \<Rightarrow> None | Inr v \<Rightarrow> Some (VFloat v))
      | OChoice cs \<Rightarrow> if val \<in> set cs then Some (VText val) else None)"

text \<open>\<open>option.process\<close> of an option that takes no value, and of one that does.\<close>

definition process_flag :: "opt_spec \<Rightarrow> opt_values \<Rightarrow> parse_stop + opt_values" where
  "process_flag sp vs =
     (case op_action sp of
        StoreTrue \<Rightarrow> Inr (vs(op_dest sp := VBool True))
      | CountUp \<Rightarrow> Inr (vs(op_dest sp := VInt (case vs (op_dest sp) of VInt n \<Rightarrow> n + 1 | _ \<Rightarrow> 1)))
      | ShowVersion \<Rightarrow> Inl VersionShown
      | _ \<Rightarrow> Inl HelpShown)"

definition process_value :: "opt_spec \<Rightarrow> unicode \<Rightarrow> unicode \<Rightarrow> opt_values \<Rightarrow> parse_stop + opt_values" where
  "process_value sp opt val vs =
     (case op_action sp of
        Store t \<Rightarrow>
          (case check_value t val of
             None \<Rightarrow> Inl (UsageError (InvalidValue opt val))
           | Some v \<Rightarrow> Inr (vs(op_dest sp := v)))
      | _ \<Rightarrow> process_flag sp vs)"

text \<open>The value is the next argument.\<close>

definition take_value :: "opt_spec \<Rightarrow> unicode \<Rightarrow> unicode list \<Rightarrow> opt_values \<Rightarrow> parse_stop + unicode list \<times> opt_values" where
  "take_value sp opt rest vs =
     (case rest of
        [] \<Rightarrow> Inl (UsageError (MissingArgument opt))
      | val # rest \<Rightarrow> try_sum (process_value sp opt val vs) (\<lambda>vs. Inr (rest, vs)))"

definition match_long :: "opt_spec list \<Rightarrow> unicode \<Rightarrow> parse_stop + unicode" where
  "match_long opts s =
     (let words = map op_long opts in
      if s \<in> set words then Inr s
      else case filter (\<lambda>w. take (length s) w = s) words of
          [] \<Rightarrow> Inl (UsageError (NoSuchOption s))
        | [w] \<Rightarrow> Inr w
        | _ \<Rightarrow> Inl (UsageError (AmbiguousOption s)))"

definition long_named :: "opt_spec list \<Rightarrow> unicode \<Rightarrow> opt_spec" where
  "long_named opts w = hd (filter (\<lambda>sp. op_long sp = w) opts)"

definition process_long ::
  "opt_spec list \<Rightarrow> unicode \<Rightarrow> unicode list \<Rightarrow> opt_values \<Rightarrow> parse_stop + unicode list \<times> opt_values" where
  "process_long opts arg rest vs =
     (let written = takeWhile (\<lambda>c. c \<noteq> 61) arg;
          explicit = (61 \<in> set arg);
          rest = (if explicit then drop (length written + 1) arg # rest else rest)
      in try_sum (match_long opts written) (\<lambda>opt.
           let sp = long_named opts opt in
           if takes_value sp then take_value sp opt rest vs
           else if explicit then Inl (UsageError (UnexpectedValue opt))
           else try_sum (process_flag sp vs) (\<lambda>vs. Inr (rest, vs))))"

text \<open>The characters of a cluster, after the dash.\<close>

fun process_short ::
  "opt_spec list \<Rightarrow> unicode \<Rightarrow> unicode list \<Rightarrow> opt_values \<Rightarrow> parse_stop + unicode list \<times> opt_values" where
  "process_short opts [] rest vs = Inr (rest, vs)"
| "process_short opts (c # cs) rest vs =
     (case filter (\<lambda>sp. op_short sp = Some c) opts of
        [] \<Rightarrow> Inl (UsageError (NoSuchOption [45, c]))
      | sp # _ \<Rightarrow>
          if takes_value sp then take_value sp [45, c] (if cs \<noteq> [] then cs # rest else rest) vs
          else try_sum (process_flag sp vs) (process_short opts cs rest))"

lemma take_value_consumes: "take_value sp opt rest vs = Inr (rest', vs') \<Longrightarrow> length rest' < length rest"
  by (cases rest) (auto simp: take_value_def try_sum_Inr_iff)

lemma process_long_consumes:
  assumes "process_long opts arg rest vs = Inr (rest', vs')"
  shows "length rest' \<le> length rest"
proof -
  from assms obtain sp opt where
    "take_value sp opt rest vs = Inr (rest', vs') \<or> take_value sp opt (drop (length (takeWhile (\<lambda>c. c \<noteq> 61) arg) + 1) arg # rest) vs = Inr (rest', vs')
      \<or> rest' = rest"
    by (auto simp: process_long_def Let_def try_sum_Inr_iff split: if_splits)
  then show ?thesis using take_value_consumes by fastforce
qed

lemma process_short_consumes: "process_short opts cs rest vs = Inr (rest', vs') \<Longrightarrow> length rest' \<le> length rest"
proof (induction cs arbitrary: vs)
  case (Cons c cs)
  then show ?case
    using take_value_consumes [of _ _ "cs # rest" vs rest' vs'] take_value_consumes [of _ _ rest vs rest' vs']
    by (auto simp: try_sum_Inr_iff less_Suc_eq_le split: list.splits if_splits) (fastforce dest: take_value_consumes)+
qed simp

text \<open>The loop over the arguments: those left on the left, those on the right, the values.\<close>

function process_args ::
  "opt_parser \<Rightarrow> unicode list \<Rightarrow> unicode list \<Rightarrow> opt_values \<Rightarrow> parse_stop + unicode list \<times> opt_values" where
  "process_args p largs [] vs = Inr (largs, vs)"
| "process_args p largs (arg # rest) vs =
     (if arg = [45, 45] then Inr (largs @ rest, vs)
      else if take 2 arg = [45, 45] then
        (case process_long (pa_options p) arg rest vs of Inl e \<Rightarrow> Inl e | Inr (rest', vs') \<Rightarrow> process_args p largs rest' vs')
      else if take 1 arg = [45] \<and> length arg > 1 then
        (case process_short (pa_options p) (tl arg) rest vs of Inl e \<Rightarrow> Inl e | Inr (rest', vs') \<Rightarrow> process_args p largs rest' vs')
      else if pa_interspersed p then process_args p (largs @ [arg]) rest vs
      else Inr (largs @ arg # rest, vs))"
  by pat_completeness auto
termination
  by (relation "measure (\<lambda>(p, largs, rargs, vs). length rargs)")
    (auto dest: process_long_consumes process_short_consumes)

declare process_args.simps(2) [simp del]

lemma process_args_end [simp]: "process_args p largs ([45, 45] # rest) vs = Inr (largs @ rest, vs)"
  by (simp add: process_args.simps(2))

text \<open>The defaults, those given as text converted like values.\<close>

definition option_default :: "opt_spec \<Rightarrow> parse_stop + opt_value" where
  "option_default sp =
     (case op_default sp of
        VText val \<Rightarrow>
          (case op_action sp of
             Store t \<Rightarrow> (case check_value t val of None \<Rightarrow> Inl BadDefault | Some v \<Rightarrow> Inr v)
           | _ \<Rightarrow> Inr (VText val))
      | v \<Rightarrow> Inr v)"

primrec default_values :: "opt_spec list \<Rightarrow> parse_stop + opt_values" where
  "default_values [] = Inr (\<lambda>d. VNone)"
| "default_values (sp # opts) = try_sum (option_default sp) (\<lambda>v. try_sum (default_values opts) (\<lambda>vs. Inr (vs(op_dest sp := v))))"

definition parse_args :: "opt_parser \<Rightarrow> unicode list \<Rightarrow> parse_stop + opt_values \<times> unicode list" where
  "parse_args p argv =
     try_sum (default_values (pa_options p)) (\<lambda>vs. try_sum (process_args p [] argv vs) (\<lambda>(args, vs). Inr (vs, args)))"

text \<open>A parser has \<open>--version\<close> and \<open>--help\<close> and takes options between arguments, until
  \<open>disable_interspersed_args\<close>.\<close>

definition option_parser :: "opt_spec list \<Rightarrow> opt_parser" where
  "option_parser opts =
     \<lparr>pa_options =
        [\<lparr>op_short = None, op_long = pts ''--version'', op_dest = [], op_action = ShowVersion, op_default = VNone\<rparr>,
         \<lparr>op_short = Some 104, op_long = pts ''--help'', op_dest = [], op_action = ShowHelp, op_default = VNone\<rparr>] @ opts,
      pa_interspersed = True\<rparr>"

section \<open>Reading the values\<close>

definition opt_text :: "opt_values \<Rightarrow> string \<Rightarrow> unicode option" where
  "opt_text vs d = (case vs d of VText t \<Rightarrow> Some t | _ \<Rightarrow> None)"

definition opt_flag :: "opt_values \<Rightarrow> string \<Rightarrow> bool" where
  "opt_flag vs d \<longleftrightarrow> vs d = VBool True"

definition opt_int :: "opt_values \<Rightarrow> string \<Rightarrow> int" where
  "opt_int vs d = (case vs d of VInt n \<Rightarrow> n | _ \<Rightarrow> 0)"

definition opt_float :: "opt_values \<Rightarrow> string \<Rightarrow> pyfloat option" where
  "opt_float vs d = (case vs d of VFloat v \<Rightarrow> Some v | _ \<Rightarrow> None)"

section \<open>Rendered command lines\<close>

definition table_ok :: "opt_spec list \<Rightarrow> bool" where
  "table_ok opts \<longleftrightarrow> distinct (map op_long opts) \<and>
     list_all (\<lambda>sp. take 2 (op_long sp) = [45, 45] \<and> length (op_long sp) > 2 \<and> 61 \<notin> set (op_long sp) \<and> op_short sp \<noteq> Some 45) opts"

text \<open>A setting is an option with its value, if it takes one.\<close>

type_synonym setting = "opt_spec \<times> unicode option"

fun setting_ok :: "opt_spec list \<Rightarrow> setting \<Rightarrow> bool" where
  "setting_ok opts (sp, None) \<longleftrightarrow> sp \<in> set opts \<and> (op_action sp = StoreTrue \<or> op_action sp = CountUp)"
| "setting_ok opts (sp, Some val) \<longleftrightarrow> sp \<in> set opts \<and> (case op_action sp of Store t \<Rightarrow> check_value t val \<noteq> None | _ \<Rightarrow> False)"

fun render :: "setting \<Rightarrow> unicode" where
  "render (sp, None) = op_long sp"
| "render (sp, Some val) = op_long sp @ 61 # val"

text \<open>What a setting means.\<close>

fun apply_setting :: "setting \<Rightarrow> opt_values \<Rightarrow> opt_values" where
  "apply_setting (sp, None) vs =
     vs(op_dest sp := (if op_action sp = CountUp then VInt (case vs (op_dest sp) of VInt n \<Rightarrow> n + 1 | _ \<Rightarrow> 1) else VBool True))"
| "apply_setting (sp, Some val) vs =
     vs(op_dest sp := (case op_action sp of Store t \<Rightarrow> the (check_value t val) | _ \<Rightarrow> VNone))"

lemma table_okD:
  assumes "table_ok opts" "sp \<in> set opts"
  shows "take 2 (op_long sp) = [45, 45]" "length (op_long sp) > 2" "61 \<notin> set (op_long sp)" "op_short sp \<noteq> Some 45"
    "match_long opts (op_long sp) = Inr (op_long sp)" "long_named opts (op_long sp) = sp"
proof -
  show "take 2 (op_long sp) = [45, 45]" "length (op_long sp) > 2" "61 \<notin> set (op_long sp)" "op_short sp \<noteq> Some 45"
    using assms by (auto simp: table_ok_def list_all_iff)
  show "match_long opts (op_long sp) = Inr (op_long sp)" using assms(2) by (auto simp: match_long_def)
  have "distinct (map op_long opts)" using assms(1) by (simp add: table_ok_def)
  then have "filter (\<lambda>sp'. op_long sp' = op_long sp) opts = [sp]"
    using assms(2) by (induction opts) (auto simp: filter_empty_conv image_iff)
  then show "long_named opts (op_long sp) = sp" by (simp add: long_named_def)
qed

lemma before_equals: "61 \<notin> set w \<Longrightarrow> takeWhile (\<lambda>c. c \<noteq> 61) (w @ 61 # val) = w" "61 \<notin> set w \<Longrightarrow> takeWhile (\<lambda>c. c \<noteq> 61) w = w"
  for w :: unicode
  by (induction w) auto

lemma long_arg:
  assumes "take 2 arg = [45, 45]" "length arg > 2"
  shows "process_args p largs (arg # rest) vs =
    (case process_long (pa_options p) arg rest vs of Inl e \<Rightarrow> Inl e | Inr (rest', vs') \<Rightarrow> process_args p largs rest' vs')"
  using assms by (cases arg) (auto simp: process_args.simps(2))

lemma rendered_setting:
  assumes "table_ok (pa_options p)" "setting_ok (pa_options p) t"
  shows "process_args p largs (render t # rest) vs = process_args p largs rest (apply_setting t vs)"
proof -
  obtain sp v where t: "t = (sp, v)" by (cases t)
  have sp: "sp \<in> set (pa_options p)" using assms(2) t by (cases v) auto
  note ok = table_okD [OF assms(1) sp]
  have "take 2 (render t) = [45, 45]" "length (render t) > 2" using ok(1,2) t by (cases v; simp)+
  note long_arg [OF this, of p largs rest vs]
  moreover have "process_long (pa_options p) (render t) rest vs = Inr (rest, apply_setting t vs)"
    using assms(2) ok(3,5,6) t
    by (cases v) (auto simp: process_long_def Let_def before_equals takes_value_def take_value_def process_value_def process_flag_def
        split: opt_action.splits)
  ultimately show ?thesis by simp
qed


definition sample_parser :: opt_parser where
  "sample_parser = option_parser
     [\<lparr>op_short = Some 116, op_long = pts ''--timeout'', op_dest = ''timeout'', op_action = Store OFloat, op_default = VNone\<rparr>,
      \<lparr>op_short = None, op_long = pts ''--delay'', op_dest = ''delay'', op_action = Store OInt, op_default = VText (pts ''0x10'')\<rparr>]"


text \<open>The forms in which an option can be given its value are the same.\<close>

lemma option_forms_agree:
  assumes "table_ok (pa_options p)" "filter (\<lambda>sp. op_short sp = Some c) (pa_options p) = [sp]" "op_action sp = Store t"
    and "check_value t val = Some v"
  shows "process_args p largs ([45, c] # val # rest) vs = process_args p largs rest (vs(op_dest sp := v))"
    "val \<noteq> [] \<Longrightarrow> process_args p largs ((45 # c # val) # rest) vs = process_args p largs rest (vs(op_dest sp := v))"
    "process_args p largs (op_long sp # val # rest) vs = process_args p largs rest (vs(op_dest sp := v))"
    "process_args p largs ((op_long sp @ 61 # val) # rest) vs = process_args p largs rest (vs(op_dest sp := v))"
proof -
  have "sp \<in> set (filter (\<lambda>sp. op_short sp = Some c) (pa_options p))" unfolding assms(2) by simp
  then have sp: "sp \<in> set (pa_options p)" "op_short sp = Some c" by simp_all
  note ok = table_okD [OF assms(1) sp(1)]
  have c: "c \<noteq> 45" using ok(4) sp(2) by simp
  have taken: "take_value sp opt (val # rest) vs = Inr (rest, vs(op_dest sp := v))" for opt
    using assms(3,4) by (simp add: take_value_def process_value_def)
  have takes: "takes_value sp" using assms(3) by (simp add: takes_value_def)
  show "process_args p largs ([45, c] # val # rest) vs = process_args p largs rest (vs(op_dest sp := v))"
    "val \<noteq> [] \<Longrightarrow> process_args p largs ((45 # c # val) # rest) vs = process_args p largs rest (vs(op_dest sp := v))"
    using c taken takes by (simp_all add: process_args.simps(2) assms(2))
  show "process_args p largs ((op_long sp @ 61 # val) # rest) vs = process_args p largs rest (vs(op_dest sp := v))"
    using rendered_setting [OF assms(1), of "(sp, Some val)" largs rest vs] sp(1) assms(3,4) by simp
  show "process_args p largs (op_long sp # val # rest) vs = process_args p largs rest (vs(op_dest sp := v))"
    using long_arg [OF ok(1,2), of p largs "val # rest" vs] ok(3,5,6) taken takes
    by (simp add: process_long_def Let_def before_equals)
qed

text \<open>Without interspersed arguments the first one ends the options.\<close>

definition plain_arg :: "unicode \<Rightarrow> bool" where
  "plain_arg arg \<longleftrightarrow> take 1 arg \<noteq> [45] \<or> arg = [45]"

lemma arguments_end_options:
  "plain_arg arg \<Longrightarrow> \<not> pa_interspersed p \<Longrightarrow> process_args p largs (arg # rest) vs = Inr (largs @ arg # rest, vs)"
  by (cases arg; cases "tl arg") (auto simp: plain_arg_def process_args.simps(2))

lemma argument_set_aside:
  "plain_arg arg \<Longrightarrow> pa_interspersed p \<Longrightarrow> process_args p largs (arg # rest) vs = process_args p (largs @ [arg]) rest vs"
  by (cases arg; cases "tl arg") (auto simp: plain_arg_def process_args.simps(2))

text \<open>With them, an argument that looks like an option is left only after \<open>--\<close>.\<close>

lemma take_value_rest: "take_value sp opt rest vs = Inr (rest', vs') \<Longrightarrow> \<exists>val. rest = val # rest'"
  by (cases rest) (auto simp: take_value_def try_sum_Inr_iff)

lemma process_long_rest:
  assumes "process_long opts arg rest vs = Inr (rest', vs')"
  shows "set rest' \<subseteq> set rest"
  using assms by (auto simp: process_long_def Let_def try_sum_Inr_iff dest!: take_value_rest split: if_splits)

lemma process_short_rest: "process_short opts cs rest vs = Inr (rest', vs') \<Longrightarrow> set rest' \<subseteq> set rest"
  by (induction cs arbitrary: vs) (fastforce simp: try_sum_Inr_iff dest!: take_value_rest split: list.splits if_splits)+

lemma dashes_taken:
  assumes "process_args p largs rargs vs = Inr (args, vs')" "[45, 45] \<notin> set rargs" "list_all plain_arg largs" "pa_interspersed p"
  shows "list_all plain_arg args"
  using assms
proof (induction p largs rargs vs rule: process_args.induct)
  case (2 p largs arg rest vs)
  consider (long) "take 2 arg = [45, 45]" "arg \<noteq> [45, 45]" | (short) "take 2 arg \<noteq> [45, 45]" "take 1 arg = [45]" "length arg > 1"
    | (plain) "take 2 arg \<noteq> [45, 45]" "\<not> (take 1 arg = [45] \<and> length arg > 1)" using 2 by force
  then show ?case
  proof cases
    case long
    with 2(4) [unfolded process_args.simps(2)] obtain rest' vs1 where r: "process_long (pa_options p) arg rest vs = Inr (rest', vs1)"
      "process_args p largs rest' vs1 = Inr (args, vs')" by (auto split: sum.splits)
    with process_long_rest [OF r(1)] 2(5) have "[45, 45] \<notin> set rest'" by auto
    from 2(1) [OF long(2,1) r(1) refl r(2) this 2(6,7)] show ?thesis .
  next
    case short
    then have "arg \<noteq> [45, 45]" by auto
    with 2(4) [unfolded process_args.simps(2)] short obtain rest' vs1 where r: "process_short (pa_options p) (tl arg) rest vs = Inr (rest', vs1)"
      "process_args p largs rest' vs1 = Inr (args, vs')" by (auto split: sum.splits)
    with process_short_rest [OF r(1)] 2(5) have "[45, 45] \<notin> set rest'" by auto
    from 2(2) [OF \<open>arg \<noteq> [45, 45]\<close> short(1) _ r(1) refl r(2) this 2(6,7)] short show ?thesis by blast
  next
    case plain
    then have "plain_arg arg" "arg \<noteq> [45, 45]" by (cases arg; cases "tl arg"; auto simp: plain_arg_def)+
    from argument_set_aside [OF this(1) 2(7)] 2(4) have "process_args p (largs @ [arg]) rest vs = Inr (args, vs')" by simp
    with plain 2(3) [OF \<open>arg \<noteq> [45, 45]\<close> plain 2(7)] 2(5-7) \<open>plain_arg arg\<close> show ?thesis by simp
  qed
qed simp

end
