(* ===== verification/Vncdo_Command.thy ===== *)
theory Vncdo_Command
  imports Option_Parser Client_Screen
begin

text \<open>
  The command \<open>vncdo\<close> of \<open>command.py\<close> up to \<open>reactor.run()\<close>: its options, \<open>build_tool\<close>, the factory it
  sets up (\<open>client.VNCDoToolFactory\<close> and \<open>factory_connect\<close>) and the client that asks for a password.
  What can happen after that is \<open>cli_event\<close>'s. The environment is the value of \<open>VNCDOTOOL_DELAY\<close>, which
  paths exist and what the files hold.
\<close>

section \<open>The options\<close>

definition opt :: "string \<Rightarrow> string \<Rightarrow> string \<Rightarrow> opt_action \<Rightarrow> opt_value \<Rightarrow> opt_spec" where
  "opt short long dest action dflt =
     \<lparr>op_short = (case short of [] \<Rightarrow> None | c # _ \<Rightarrow> Some (of_char c)), op_long = pts long, op_dest = dest,
      op_action = action, op_default = dflt\<rparr>"

definition standard_options :: "opt_spec list" where
  "standard_options =
     [opt ''p'' ''--password'' ''password'' (Store OText) VNone,
      opt ''u'' ''--username'' ''username'' (Store OText) VNone,
      opt ''s'' ''--server'' ''server'' (Store OText) (VText (pts ''127.0.0.1'')),
      opt [] ''--logfile'' ''logfile'' (Store OText) VNone,
      opt ''v'' ''--verbose'' ''verbose'' CountUp (VInt 0)]"

definition add_options :: "opt_spec list \<Rightarrow> opt_parser \<Rightarrow> opt_parser" where
  "add_options opts p = p\<lparr>pa_options := pa_options p @ opts\<rparr>"

definition add_standard_options :: "opt_parser \<Rightarrow> opt_parser" where
  "add_standard_options p = add_options standard_options (p\<lparr>pa_interspersed := False\<rparr>)"

definition delay_default :: "unicode option \<Rightarrow> opt_value" where
  "delay_default envd = (case envd of None \<Rightarrow> VInt 10 | Some t \<Rightarrow> VText t)"

definition vncdo_options :: "unicode option \<Rightarrow> opt_spec list" where
  "vncdo_options envd =
     [opt [] ''--delay'' ''delay'' (Store OInt) (delay_default envd),
      opt [] ''--force-caps'' ''force_caps'' StoreTrue VNone,
      opt [] ''--localcursor'' ''localcursor'' StoreTrue VNone,
      opt [] ''--nocursor'' ''nocursor'' StoreTrue VNone,
      opt [] ''--disable-desktop-resizing'' ''disable_desktop_resizing'' StoreTrue VNone,
      opt ''t'' ''--timeout'' ''timeout'' (Store OFloat) VNone,
      opt ''w'' ''--warp'' ''warp'' (Store OFloat) (VFloat (Fin 1)),
      opt [] ''--pixel-format'' ''pixel_format'' (Store (OChoice (map (\<lambda>(n, pf). pts n) PIXEL_FORMATS))) VNone,
      opt ''i'' ''--incremental-refreshes'' ''incremental_refreshes'' StoreTrue (VBool False)]"

definition vncdo_parser :: "unicode option \<Rightarrow> opt_parser" where
  "vncdo_parser envd = add_options (vncdo_options envd) (add_standard_options (option_parser []))"

text \<open>\<open>setup_logging\<close>: the log file, and the level that is set.\<close>

datatype log_level = Debug | Info

definition setup_logging :: "opt_values \<Rightarrow> unicode option \<times> log_level option" where
  "setup_logging vs =
     (case opt_text vs ''logfile'' of None \<Rightarrow> None | Some f \<Rightarrow> if f = [] then None else Some f,
      let v = opt_int vs ''verbose'' in if v > 1 then Some Debug else if v \<noteq> 0 then Some Info else None)"

section \<open>The factory\<close>

text \<open>Credentials are texts of Latin-1 characters.\<close>

definition latin1 :: "unicode \<Rightarrow> string" where
  "latin1 t = map (\<lambda>c. char_of (nat c)) t"

record do_factory =
  df_username :: "string option"
  df_password :: "string option"
  df_shared :: bool
  df_pseudocursor :: bool
  df_nocursor :: bool
  df_pseudodesktop :: bool
  df_qemu_extended_key :: bool
  df_last_rect :: bool
  df_force_caps :: bool
  df_pixel_format :: "PixelFormat option"

definition new_do_factory :: do_factory where
  "new_do_factory =
     \<lparr>df_username = None, df_password = None, df_shared = True, df_pseudocursor = False, df_nocursor = False,
      df_pseudodesktop = True, df_qemu_extended_key = True, df_last_rect = True, df_force_caps = False,
      df_pixel_format = None\<rparr>"

definition buildProtocol :: "do_factory \<Rightarrow> 'i do_client" where
  "buildProtocol fa =
     (new_do_client (df_username fa) (df_password fa) (df_pixel_format fa))
       \<lparr>factory_shared := df_shared fa, cl_force_caps := df_force_caps fa, fc_pseudocursor := df_pseudocursor fa,
        fc_nocursor := df_nocursor fa, fc_pseudodesktop := df_pseudodesktop fa,
        fc_qemu_extended_key := df_qemu_extended_key fa, fc_last_rect := df_last_rect fa\<rparr>"

datatype endpoint = HostnameEndpoint unicode int | UNIXClientEndpoint unicode

definition factory_connect :: "unicode \<Rightarrow> int \<Rightarrow> address_family \<Rightarrow> endpoint" where
  "factory_connect host port family =
     (if family \<in> {AF_UNSPEC, AF_INET, AF_INET6} then HostnameEndpoint host port else UNIXClientEndpoint host)"

text \<open>\<open>VNCDoCLIClient\<close> asks on the terminal.\<close>

definition cli_vncRequestPassword :: "env \<Rightarrow> ('i, 'a) dclient \<Rightarrow> ('i, 'a) dclient outcome" where
  "cli_vncRequestPassword env s =
     (let password = (case factory_password s of None \<Rightarrow> prompt_password env | Some p \<Rightarrow> p)
      in sendPassword env password (s\<lparr>factory_password := Some password\<rparr>))"

definition cli_hooks :: "'i pillow \<Rightarrow> env \<Rightarrow> callback \<Rightarrow> ('i, 'a) dclient \<Rightarrow> ('i, 'a) dclient outcome" where
  "cli_hooks P env cb = (if cb = VncRequestPassword then cli_vncRequestPassword env else do_hooks P env cb)"

section \<open>Starting\<close>

record vncdo_run =
  vr_endpoint :: endpoint
  vr_log_connected :: bool
  vr_commands :: "command list"
  vr_factory :: do_factory
  vr_timeout :: "pyfloat option"

text \<open>The process stops with a status, or with the traceback of an exception nothing catches, or the
  reactor runs.\<close>

datatype startup = Exit exit_status | Traceback | Running vncdo_run

definition stopped :: "parse_stop \<Rightarrow> startup" where
  "stopped e = (case e of UsageError u \<Rightarrow> Exit USAGE | BadDefault \<Rightarrow> Traceback | _ \<Rightarrow> Exit SUCCESS)"

definition startup_code :: "startup \<Rightarrow> int option" where
  "startup_code r = (case r of Exit st \<Rightarrow> Some (exit_code st) | Traceback \<Rightarrow> Some 1 | Running x \<Rightarrow> None)"

text \<open>The commands of \<open>build_tool\<close>; \<open>None\<close> if the command list is not finite.\<close>

definition tool_commands :: "sources \<Rightarrow> opt_values \<Rightarrow> unicode list \<Rightarrow> (startup + command list) option" where
  "tool_commands src vs args =
     (case (if args = [pts ''-''] then shlex_tokens (src_stdin src) else Inr args) of
        Inl e \<Rightarrow> Some (Inl Traceback)
      | Inr args \<Rightarrow>
          (case build_command_list src (Some (opt_int vs ''delay'')) (the (opt_float vs ''warp''))
                  (opt_flag vs ''incremental_refreshes'') args of
             None \<Rightarrow> None
           | Some (Inl (CommandParseError w)) \<Rightarrow> Some (Inl (Exit USAGE))
           | Some (Inl e) \<Rightarrow> Some (Inl Traceback)
           | Some (Inr cs) \<Rightarrow> Some (Inr cs)))"

definition set_up_factory :: "opt_values \<Rightarrow> do_factory" where
  "set_up_factory vs =
     new_do_factory
       \<lparr>df_username := map_option latin1 (opt_text vs ''username''),
        df_password := map_option latin1 (opt_text vs ''password''),
        df_pseudocursor := opt_flag vs ''localcursor'',
        df_pseudodesktop := \<not> opt_flag vs ''disable_desktop_resizing'',
        df_nocursor := opt_flag vs ''nocursor'',
        df_force_caps := opt_flag vs ''force_caps'',
        df_pixel_format := Option.bind (opt_text vs ''pixel_format'') (\<lambda>n. map_of PIXEL_FORMATS (latin1 n))\<rparr>"

definition run_timeout :: "opt_values \<Rightarrow> pyfloat option" where
  "run_timeout vs = (case opt_float vs ''timeout'' of None \<Rightarrow> None | Some v \<Rightarrow> if v = Fin 0 then None else Some v)"

definition build_tool :: "sources \<Rightarrow> opt_values \<Rightarrow> address_family \<times> unicode \<times> int \<Rightarrow> unicode list \<Rightarrow> startup option" where
  "build_tool src vs addr args =
     (case tool_commands src vs args of
        None \<Rightarrow> None
      | Some (Inl r) \<Rightarrow> Some r
      | Some (Inr cs) \<Rightarrow>
          (case addr of (family, host, port) \<Rightarrow>
             Some (Running \<lparr>vr_endpoint = factory_connect host port family, vr_log_connected = opt_int vs ''verbose'' \<noteq> 0,
               vr_commands = cs, vr_factory = set_up_factory vs, vr_timeout = run_timeout vs\<rparr>)))"

definition vncdo :: "unicode option \<Rightarrow> (unicode \<Rightarrow> bool) \<Rightarrow> sources \<Rightarrow> unicode list \<Rightarrow> startup option" where
  "vncdo envd exists_path src argv =
     (case parse_args (vncdo_parser envd) argv of
        Inl e \<Rightarrow> Some (stopped e)
      | Inr (vs, args) \<Rightarrow>
          if args = [] then Some (Exit USAGE)
          else (case parse_server exists_path (the (opt_text vs ''server'')) of
              Inl e \<Rightarrow> Some Traceback
            | Inr addr \<Rightarrow> build_tool src vs addr args))"

section \<open>The client\<close>

lemma cli_hooks_frame: "cli_hooks P env cb (arrive q s) = map_outcome (arrive q) (cli_hooks P env cb s)"
  by (simp add: cli_hooks_def do_hooks_frame cli_vncRequestPassword_def framing Let_def)

lemma cli_hooks_calm: "undisturbed s (final (cli_hooks P env cb s))"
  by (auto simp: cli_hooks_def do_hooks_calm cli_vncRequestPassword_def sendPassword_def Let_def
      intro!: calm_write calm_with_value)

interpretation cli_client: client_hooks "cli_hooks P env" for P env
  using cli_hooks_calm by unfold_locales (auto simp: cli_hooks_frame undisturbed_def)

section \<open>Command lines\<close>

lemma vncdo_table: "table_ok (pa_options (vncdo_parser envd))"
  by (simp add: table_ok_def vncdo_parser_def add_options_def add_standard_options_def option_parser_def standard_options_def
      vncdo_options_def opt_def pts_def)

lemma vncdo_ends [simp]: "\<not> pa_interspersed (vncdo_parser envd)"
  by (simp add: vncdo_parser_def add_options_def add_standard_options_def)

text \<open>The delay that the environment gives.\<close>

definition env_delay :: "unicode option \<Rightarrow> int option" where
  "env_delay envd = (case envd of None \<Rightarrow> Some 10 | Some t \<Rightarrow> parse_num t)"

definition vncdo_defaults :: "int \<Rightarrow> opt_values" where
  "vncdo_defaults n =
     (\<lambda>d. VNone)(''delay'' := VInt n, ''warp'' := VFloat (Fin 1), ''incremental_refreshes'' := VBool False,
       ''server'' := VText (pts ''127.0.0.1''), ''verbose'' := VInt 0)"

lemma vncdo_default_values:
  "env_delay envd = Some n \<Longrightarrow> default_values (pa_options (vncdo_parser envd)) = Inr (vncdo_defaults n)"
  "env_delay envd = None \<Longrightarrow> default_values (pa_options (vncdo_parser envd)) = Inl BadDefault"
  by (auto simp: vncdo_parser_def add_options_def add_standard_options_def option_parser_def standard_options_def vncdo_options_def
      opt_def option_default_def delay_default_def env_delay_def vncdo_defaults_def check_value_def split: option.splits)

lemma vncdo_parse:
  assumes "env_delay envd = Some n"
  shows "parse_args (vncdo_parser envd) argv =
    try_sum (process_args (vncdo_parser envd) [] argv (vncdo_defaults n)) (\<lambda>(args, vs). Inr (vs, args))"
  by (simp add: parse_args_def vncdo_default_values(1) [OF assms])

lemma vncdo_short:
  "filter (\<lambda>sp. op_short sp = Some 115) (pa_options (vncdo_parser envd)) = [opt ''s'' ''--server'' ''server'' (Store OText) (VText (pts ''127.0.0.1''))]"
  "filter (\<lambda>sp. op_short sp = Some 112) (pa_options (vncdo_parser envd)) = [opt ''p'' ''--password'' ''password'' (Store OText) VNone]"
  by (simp_all add: vncdo_parser_def add_options_def add_standard_options_def option_parser_def standard_options_def vncdo_options_def opt_def)

lemma opt_fields [simp]:
  "op_action (opt a b c d e) = d" "op_dest (opt a b c d e) = c" "op_long (opt a b c d e) = pts b" "op_default (opt a b c d e) = e"
  by (simp_all add: opt_def)

text \<open>\<open>-s ADDRESS\<close> and \<open>-p PASSWORD\<close>.\<close>

lemma vncdo_server:
  "process_args (vncdo_parser envd) largs ([45, 115] # server # rest) vs =
     process_args (vncdo_parser envd) largs rest (vs(''server'' := VText server))"
  using option_forms_agree(1) [OF vncdo_table vncdo_short(1), of OText server "VText server"] by (simp add: check_value_def)

lemma vncdo_password:
  "process_args (vncdo_parser envd) largs ([45, 112] # passwd # rest) vs =
     process_args (vncdo_parser envd) largs rest (vs(''password'' := VText passwd))"
  using option_forms_agree(1) [OF vncdo_table vncdo_short(2), of OText passwd "VText passwd"] by (simp add: check_value_def)

lemma local_server: "\<exists>addr. parse_server ex (pts ''127.0.0.1'') = Inr addr"
proof -
  have "split_on 58 (pts ''127.0.0.1'') = [pts ''127.0.0.1'']" by code_simp
  then show ?thesis by (simp add: parse_server_def server_port_def pts_def Let_def)
qed

lemma vncdo_plain:
  assumes "env_delay envd = Some n" "plain_arg arg"
  obtains addr where "vncdo envd ex src (arg # args) = build_tool src (vncdo_defaults n) addr (arg # args)"
proof -
  from local_server obtain addr where "parse_server ex (pts ''127.0.0.1'') = Inr addr" by blast
  then have "vncdo envd ex src (arg # args) = build_tool src (vncdo_defaults n) addr (arg # args)"
    using assms(2) by (simp add: vncdo_def vncdo_parse [OF assms(1)] arguments_end_options)
      (simp add: vncdo_defaults_def opt_text_def)
  then show thesis by (rule that)
qed

definition actions :: "string list" where
  "actions = [''key'', ''kdown'', ''keydown'', ''kup'', ''keyup'', ''move'', ''mousemove'', ''click'', ''mdown'', ''mousedown'',
     ''mup'', ''mouseup'', ''type'', ''typefile'', ''pastefile'', ''capture'', ''expect'', ''rcapture'', ''rexpect'', ''pause'',
     ''sleep'', ''drag'']"

lemma action_needs_args:
  assumes "a \<in> set actions"
  shows "command_step src d warp inc (pts a) [] = Inl (Exception IndexError)"
proof -
  have none: "pop_arg [] = Inl (Exception IndexError)" "pop_int [] = Inl (Exception IndexError)" "pop_float [] = Inl (Exception IndexError)"
    by (simp_all add: pop_arg_def pop_int_def pop_float_def bind_cmd_def)
  have drag: "is_substring (pts ''drag'') (pts ''drag'')" by code_simp
  have "list_all (\<lambda>a. command_step src d warp inc (pts a) [] = Inl (Exception IndexError)) actions"
    unfolding command_step_def is_cmd_pts actions_def list.pred_inject none
    by (intro conjI) (simp_all add: bind_cmd_def drag)
  with assms show ?thesis by (simp add: list_all_iff)
qed

text \<open>A command line whose first command is refused.\<close>

lemma first_command_fails:
  assumes "env_delay envd = Some n" "plain_arg w" "w # args \<noteq> [[45]]" "\<And>d warp inc. command_step src d warp inc w args = Inl e"
  shows "vncdo envd ex src (w # args) = Some (case e of CommandParseError w \<Rightarrow> Exit USAGE | _ \<Rightarrow> Traceback)"
proof -
  obtain addr where "vncdo envd ex src (w # args) = build_tool src (vncdo_defaults n) addr (w # args)"
    using assms(1,2) by (rule vncdo_plain)
  moreover have "build_command_list src delay warp inc (w # args) = Some (Inl e)" for delay warp inc
    unfolding build_command_list_def by (subst build_loop.simps) (simp add: assms(4))
  moreover have "w # args \<noteq> [pts ''-'']" using assms(3) by (simp add: pts_def)
  ultimately show ?thesis unfolding build_tool_def tool_commands_def by (auto split: cmd_error.split)
qed

text \<open>C28. The exit status of a command line that cannot be run. The documented status 2 is given for an
  action that does not exist, but not for an action without its arguments, a server address that cannot be
  parsed or a bad \<open>VNCDOTOOL_DELAY\<close>: they end in a traceback, with status 1.\<close>

theorem bad_command_line_status:
  assumes "env_delay envd = Some n" "env_delay bad = None"
    and "script_name w" "src_files src w = None" "plain_arg w" "w \<noteq> [45]"
    and "a \<in> set actions" "parse_server ex server = Inl e"
  shows "vncdo envd ex src (w # args) = Some (Exit USAGE) \<and> vncdo envd ex src [pts a] = Some Traceback \<and>
    vncdo envd ex src ([45, 115] # server # w # args) = Some Traceback \<and> vncdo bad ex src argv = Some Traceback \<and>
    startup_code (Exit USAGE) = Some 2 \<and> startup_code Traceback = Some 1"
proof -
  have "command_step src d warp inc w args = Inl (CommandParseError w)" for d warp inc
    using assms(3,4) by (simp add: command_step_def script_name_def)
  from first_command_fails [OF assms(1,5) _ this] assms(6) have "vncdo envd ex src (w # args) = Some (Exit USAGE)" by simp
  moreover have "plain_arg (pts a)" "[pts a] \<noteq> [[45]]" using assms(7) by (auto simp: actions_def plain_arg_def pts_def)
  then have "vncdo envd ex src [pts a] = Some Traceback"
    using first_command_fails [OF assms(1) _ _ action_needs_args [OF assms(7)]] by simp
  moreover have "vncdo envd ex src ([45, 115] # server # w # args) = Some Traceback"
    using assms(5,8) by (simp add: vncdo_def vncdo_parse [OF assms(1)] vncdo_server arguments_end_options opt_text_def)
  moreover have "vncdo bad ex src argv = Some Traceback"
    by (simp add: vncdo_def parse_args_def vncdo_default_values(2) [OF assms(2)] stopped_def)
  ultimately show ?thesis by (simp add: startup_code_def)
qed

theorem bad_command_line_status_witness:
  "vncdo None (\<lambda>path. False) no_sources [pts ''nosuch''] = Some (Exit USAGE) \<and>
     vncdo None (\<lambda>path. False) no_sources [pts ''key''] = Some Traceback \<and>
     vncdo None (\<lambda>path. False) no_sources [[45, 115], pts ''host:x'', pts ''nosuch''] = Some Traceback \<and>
     vncdo (Some (pts ''fast'')) (\<lambda>path. False) no_sources [] = Some Traceback"
proof -
  have "env_delay None = Some 10" "env_delay (Some (pts ''fast'')) = None" by code_simp+
  moreover have "script_name (pts ''nosuch'')" "plain_arg (pts ''nosuch'')" "pts ''nosuch'' \<noteq> [45]" by code_simp+
  moreover have "src_files no_sources (pts ''nosuch'') = None" by (simp add: no_sources_def)
  moreover have "''key'' \<in> set actions" by (simp add: actions_def)
  moreover have "parse_server (\<lambda>path. False) (pts ''host:x'') = Inl ValueError" by code_simp
  ultimately show ?thesis using bad_command_line_status [of None 10 "Some (pts ''fast'')"] by blast
qed

end
