(* ===== verification/Vnclog_Options.thy ===== *)
theory Vnclog_Options
  imports Vnclog_Command Vncdo_Command
begin

text \<open>
  The command line of \<open>vnclog\<close>: its options, the setting up of \<open>Vnclog_Command\<close> from them, and the viewer it
  launches.
\<close>

section \<open>The options\<close>

definition vnclog_option_list :: "opt_spec list" where
  "vnclog_option_list =
     [opt [] ''--listen'' ''listen'' (Store OInt) (VInt 5902),
      opt [] ''--file-per-client'' ''file_per_client'' StoreTrue (VBool False),
      opt [] ''--viewer'' ''viewer'' (Store OText) VNone,
      opt [] ''--password-required'' ''password_required'' StoreTrue (VBool False),
      opt [] ''--one-shot'' ''one_shot'' StoreTrue (VBool False),
      opt [] ''--capture-raw'' ''capture_raw'' (Store OText) VNone,
      opt [] ''--capture-raw-unsafe'' ''capture_raw_unsafe'' StoreTrue (VBool False)]"

definition vnclog_parser :: opt_parser where
  "vnclog_parser = add_options vnclog_option_list (add_standard_options (option_parser []))"

text \<open>Names of files and the server are texts of Latin-1 characters.\<close>

definition vnclog_options_of :: "opt_values \<Rightarrow> vnclog_options" where
  "vnclog_options_of vs =
     \<lparr>vo_server = latin1 (the (opt_text vs ''server'')), vo_password = map_option latin1 (opt_text vs ''password''),
      vo_file_per_client = opt_flag vs ''file_per_client'', vo_password_required = opt_flag vs ''password_required'',
      vo_one_shot = opt_flag vs ''one_shot'', vo_capture_raw = map_option latin1 (opt_text vs ''capture_raw''),
      vo_capture_raw_unsafe = opt_flag vs ''capture_raw_unsafe''\<rparr>"

section \<open>The viewer\<close>

text \<open>\<open>str.split()\<close>; \<open>w\<close> is the word begun.\<close>

fun split_blanks :: "unicode \<Rightarrow> unicode \<Rightarrow> unicode list" where
  "split_blanks w [] = (if w = [] then [] else [w])"
| "split_blanks w (c # cs) =
     (if text_space c then (if w = [] then [] else [w]) @ split_blanks [] cs else split_blanks (w @ [c]) cs)"

record viewer_process =
  vp_executable :: unicode
  vp_args :: "unicode list"

definition spawn_viewer :: "opt_values \<Rightarrow> int \<Rightarrow> viewer_process option" where
  "spawn_viewer vs port =
     (case opt_text vs ''viewer'' of
        None \<Rightarrow> None
      | Some cmd \<Rightarrow>
          if cmd = [] then None
          else Some \<lparr>vp_executable = cmd, vp_args = split_blanks [] (cmd @ pts '' localhost::'' @ show_int port)\<rparr>)"

section \<open>The command\<close>

record vnclog_run =
  vl_listen :: int
  vl_factory :: proxy_factory
  vl_options :: opt_values

datatype vnclog_start = LogStops startup | Logs vnclog_run

text \<open>\<open>op.error\<close> exits with status 2.\<close>

definition refused :: "vnclog_error \<Rightarrow> startup" where
  "refused e = (case e of Uncaught x \<Rightarrow> Traceback | _ \<Rightarrow> Exit USAGE)"

definition vnclog :: "tree \<Rightarrow> bool \<Rightarrow> unicode list \<Rightarrow> vnclog_start" where
  "vnclog t opened argv =
     (case parse_args vnclog_parser argv of
        Inl e \<Rightarrow> LogStops (stopped e)
      | Inr (vs, args) \<Rightarrow>
          (case vnclog_setup t opened (vnclog_options_of vs) (map latin1 args) of
             Inl e \<Rightarrow> LogStops (refused e)
           | Inr fa \<Rightarrow> Logs \<lparr>vl_listen = opt_int vs ''listen'', vl_factory = fa, vl_options = vs\<rparr>))"

section \<open>Facts\<close>

lemma vnclog_table: "table_ok (pa_options vnclog_parser)"
  by (simp add: table_ok_def vnclog_parser_def add_options_def add_standard_options_def option_parser_def standard_options_def
      vnclog_option_list_def opt_def pts_def)

lemma words_no_space:
  "list_all (\<lambda>c. \<not> text_space c) w \<Longrightarrow> list_all (list_all (\<lambda>c. \<not> text_space c)) (split_blanks w cs)"
proof (induction cs arbitrary: w)
  case (Cons c cs)
  show ?case
  proof (cases "text_space c")
    case True
    with Cons.IH [of "[]"] Cons.prems show ?thesis by simp
  next
    case False
    with Cons.IH [of "w @ [c]"] Cons.prems show ?thesis by simp
  qed
qed simp

text \<open>A viewer command with arguments is split for the arguments of the process, but the executable is the
  whole command, so that it is not the program the arguments name.\<close>

lemma viewer_with_arguments:
  assumes "spawn_viewer vs port = Some v" "list_ex text_space (vp_executable v)"
  shows "vp_executable v \<notin> set (vp_args v)"
proof
  assume "vp_executable v \<in> set (vp_args v)"
  moreover have "vp_args v = split_blanks [] (vp_executable v @ pts '' localhost::'' @ show_int port)"
    using assms(1) by (auto simp: spawn_viewer_def split: option.splits if_splits)
  ultimately have "list_all (\<lambda>c. \<not> text_space c) (vp_executable v)"
    using words_no_space [of "[]"] by (simp add: list_all_iff)
  with assms(2) show False by (simp add: list_all_iff list_ex_iff)
qed

text \<open>A viewer that quits before it has connected ends the run with status 0 and no archive.\<close>

lemma viewer_quits_without_archive:
  assumes "vnclog t opened argv = Logs r" "given (vo_capture_raw (vnclog_options_of (vl_options r)))"
  shows "capturing (vl_factory r) \<and> vnclog_exit (vl_factory r) = SUCCESS"
proof -
  from assms(1) obtain vs args where "vnclog_setup t opened (vnclog_options_of vs) (map latin1 args) = Inr (vl_factory r)" "vl_options r = vs"
    by (auto simp: vnclog_def split: sum.splits)
  with assms(2) vnclog_setup_ok(2,5) show ?thesis by (auto simp: vnclog_exit_def)
qed

end
