(* ===== verification/Threaded_Api.thy ===== *)
theory Threaded_Api
  imports Prelude
begin

text \<open>
  \<open>api.ThreadedVNCClientProxy\<close>: calls from the main thread run as callbacks of the factory's one
  \<open>Deferred\<close> in the reactor's thread and come back through a queue. \<open>Deferred\<close> and \<open>queue.Queue\<close> are
  documented code: callbacks run in the order they were added, once the \<open>Deferred\<close> has fired and the
  one before has finished, each on the result of the one before, callbacks on a value and errbacks on
  a failure; the queue is first in, first out.

  A result is \<open>'f + 'v\<close>, a failure or a value. What the methods of the client do is the parameter
  \<open>meth\<close>, with \<open>lose\<close> for \<open>protocol.transport.loseConnection()\<close>; \<open>timed\<close> says whether \<open>timeout\<close> is
  set.
\<close>

section \<open>State\<close>

datatype 'm job = Invoke 'm | Disconnector nat

text \<open>The main thread; a call of \<open>disconnect\<close> has an event of its own.\<close>

datatype caller = Idle | InCall | InDisconnect nat

text \<open>\<open>ap_issued\<close> and \<open>ap_returned\<close> are the history of the main thread; a call that returned nothing
  raised \<open>TimeoutError\<close>.\<close>

record ('m, 'f, 'v) api =
  ap_chain :: "('f + 'v) option"
  ap_jobs :: "'m job list"
  ap_queue :: "('f + 'v) list"
  ap_registered :: "nat list"
  ap_caller :: caller
  ap_events :: nat
  ap_issued :: "'m job list"
  ap_returned :: "('f + 'v) option list"

definition new_api :: "('m, 'f, 'v) api" where
  "new_api = \<lparr>ap_chain = None, ap_jobs = [], ap_queue = [], ap_registered = [], ap_caller = Idle, ap_events = 0,
     ap_issued = [], ap_returned = []\<rparr>"

section \<open>Operations\<close>

text \<open>\<open>threaded_call\<close>, or \<open>errback_not_connected\<close> on a failure.\<close>

definition threaded_call :: "('m \<Rightarrow> 'v \<Rightarrow> 'f + 'v) \<Rightarrow> 'm \<Rightarrow> 'f + 'v \<Rightarrow> 'f + 'v" where
  "threaded_call meth m r = (case r of Inl f \<Rightarrow> Inl f | Inr p \<Rightarrow> meth m p)"

definition run_job ::
  "('m \<Rightarrow> 'v \<Rightarrow> 'f + 'v) \<Rightarrow> ('v \<Rightarrow> 'f + 'v) \<Rightarrow> 'm job \<Rightarrow> 'f + 'v \<Rightarrow> ('m, 'f, 'v) api \<Rightarrow> ('m, 'f, 'v) api" where
  "run_job meth lose j r s =
     (case j of
        Invoke m \<Rightarrow>
          let r' = threaded_call meth m r in s\<lparr>ap_chain := Some r', ap_queue := ap_queue s @ [r']\<rparr>
      | Disconnector n \<Rightarrow>
          (case r of
             Inl f \<Rightarrow> s
           | Inr p \<Rightarrow> s\<lparr>ap_chain := Some (lose p), ap_registered := ap_registered s @ [n]\<rparr>))"

definition submit :: "'m job \<Rightarrow> caller \<Rightarrow> ('m, 'f, 'v) api \<Rightarrow> ('m, 'f, 'v) api" where
  "submit j c s = s\<lparr>ap_jobs := ap_jobs s @ [j], ap_issued := ap_issued s @ [j], ap_caller := c\<rparr>"

definition api_disconnect :: "('m, 'f, 'v) api \<Rightarrow> ('m, 'f, 'v) api" where
  "api_disconnect s = submit (Disconnector (ap_events s)) (InDisconnect (ap_events s)) (s\<lparr>ap_events := ap_events s + 1\<rparr>)"

definition get_result :: "('f + 'v) option \<Rightarrow> ('f + 'v) list \<Rightarrow> ('m, 'f, 'v) api \<Rightarrow> ('m, 'f, 'v) api" where
  "get_result r q s = s\<lparr>ap_returned := ap_returned s @ [r], ap_queue := q, ap_caller := Idle\<rparr>"

inductive api_step ::
  "('m \<Rightarrow> 'v \<Rightarrow> 'f + 'v) \<Rightarrow> ('v \<Rightarrow> 'f + 'v) \<Rightarrow> bool \<Rightarrow> ('m, 'f, 'v) api \<Rightarrow> ('m, 'f, 'v) api \<Rightarrow> bool" for meth lose timed where
  call_method: "ap_caller s = Idle \<Longrightarrow> api_step meth lose timed s (submit (Invoke m) InCall s)"
| call_disconnect: "ap_caller s = Idle \<Longrightarrow> api_step meth lose timed s (api_disconnect s)"
| connected: "ap_chain s = None \<Longrightarrow> api_step meth lose timed s (s\<lparr>ap_chain := Some r\<rparr>)"
| run: "ap_chain s = Some r \<Longrightarrow> ap_jobs s = j # js \<Longrightarrow> api_step meth lose timed s (run_job meth lose j r (s\<lparr>ap_jobs := js\<rparr>))"
| answered: "ap_caller s = InCall \<Longrightarrow> ap_queue s = r # q \<Longrightarrow> api_step meth lose timed s (get_result (Some r) q s)"
| timed_out: "timed \<Longrightarrow> ap_caller s = InCall \<Longrightarrow> ap_queue s = [] \<Longrightarrow> api_step meth lose timed s (get_result None [] s)"
| disconnected: "ap_caller s = InDisconnect n \<Longrightarrow> n \<in> set (ap_registered s) \<Longrightarrow> api_step meth lose timed s (s\<lparr>ap_caller := Idle\<rparr>)"
| gave_up: "timed \<Longrightarrow> ap_caller s = InDisconnect n \<Longrightarrow> api_step meth lose timed s (s\<lparr>ap_caller := Idle\<rparr>)"

inductive_cases api_stepE: "api_step meth lose timed s t"

inductive api_run for meth lose timed where
  begin_run: "api_run meth lose timed s s"
| continue_run: "api_run meth lose timed s t \<Longrightarrow> api_step meth lose timed t u \<Longrightarrow> api_run meth lose timed s u"

section \<open>The results in order\<close>

text \<open>What the jobs make of the first result, one after another.\<close>

fun chain_after :: "('m \<Rightarrow> 'v \<Rightarrow> 'f + 'v) \<Rightarrow> ('v \<Rightarrow> 'f + 'v) \<Rightarrow> 'm job list \<Rightarrow> 'f + 'v \<Rightarrow> 'f + 'v" where
  "chain_after meth lose [] r = r"
| "chain_after meth lose (Invoke m # js) r = chain_after meth lose js (threaded_call meth m r)"
| "chain_after meth lose (Disconnector n # js) r = chain_after meth lose js (case r of Inl f \<Rightarrow> Inl f | Inr p \<Rightarrow> lose p)"

fun call_results :: "('m \<Rightarrow> 'v \<Rightarrow> 'f + 'v) \<Rightarrow> ('v \<Rightarrow> 'f + 'v) \<Rightarrow> 'm job list \<Rightarrow> 'f + 'v \<Rightarrow> ('f + 'v) list" where
  "call_results meth lose [] r = []"
| "call_results meth lose (Invoke m # js) r = threaded_call meth m r # call_results meth lose js (threaded_call meth m r)"
| "call_results meth lose (Disconnector n # js) r = call_results meth lose js (case r of Inl f \<Rightarrow> Inl f | Inr p \<Rightarrow> lose p)"

lemma chain_after_append: "chain_after meth lose (js @ ks) r = chain_after meth lose ks (chain_after meth lose js r)"
  by (induction meth lose js r rule: chain_after.induct) simp_all

lemma call_results_append:
  "call_results meth lose (js @ ks) r = call_results meth lose js r @ call_results meth lose ks (chain_after meth lose js r)"
  by (induction meth lose js r rule: chain_after.induct) simp_all

text \<open>After a failure there is only that failure.\<close>

lemma chain_after_failure [simp]: "chain_after meth lose js (Inl f) = Inl f"
proof (induction js)
  case (Cons j js)
  then show ?case by (cases j) (simp_all add: threaded_call_def)
qed simp

lemma call_results_failure: "r \<in> set (call_results meth lose js (Inl f)) \<Longrightarrow> r = Inl f"
proof (induction js)
  case (Cons j js)
  then show ?case by (cases j) (auto simp: threaded_call_def)
qed simp

lemma failure_sticks:
  assumes "call_results meth lose js r ! i = Inl f" "i \<le> k" "k < length (call_results meth lose js r)"
  shows "call_results meth lose js r ! k = Inl f"
  using assms
proof (induction js arbitrary: r i k)
  case (Cons j js)
  show ?case
  proof (cases j)
    case (Invoke m)
    let ?r = "threaded_call meth m r"
    show ?thesis
    proof (cases i)
      case 0
      with Cons.prems Invoke have r: "?r = Inl f" by simp
      have "call_results meth lose js ?r ! k' = Inl f" if "k' < length (call_results meth lose js ?r)" for k'
        using call_results_failure [of "call_results meth lose js ?r ! k'" meth lose js f] that unfolding r by simp
      with r Invoke Cons.prems show ?thesis by (cases k) simp_all
    next
      case (Suc i')
      with Cons.IH [of ?r i' "k - 1"] Cons.prems Invoke show ?thesis by (cases k) simp_all
    qed
  qed (use Cons in simp)
qed simp

text \<open>The values a call has returned.\<close>

fun received_values :: "('f + 'v) option list \<Rightarrow> ('f + 'v) list" where
  "received_values [] = []"
| "received_values (None # rs) = received_values rs"
| "received_values (Some r # rs) = r # received_values rs"

definition timeouts :: "('f + 'v) option list \<Rightarrow> nat" where
  "timeouts rs = length (filter (\<lambda>r. r = None) rs)"

lemma received_append [simp]: "received_values (rs @ ss) = received_values rs @ received_values ss"
  by (induction rs rule: received_values.induct) simp_all

lemma received_nth:
  "i < length rs \<Longrightarrow> rs ! i = Some r \<Longrightarrow>
     i - timeouts (take i rs) < length (received_values rs) \<and> received_values rs ! (i - timeouts (take i rs)) = r"
proof (induction rs arbitrary: i)
  case (Cons a rs)
  show ?case
  proof (cases i)
    case (Suc k)
    have "timeouts (take k rs) \<le> k" unfolding timeouts_def by (rule order_trans [OF length_filter_le]) simp
    with Cons Suc show ?thesis by (cases a) (auto simp: timeouts_def Suc_diff_le)
  qed (use Cons.prems in \<open>simp add: timeouts_def\<close>)
qed simp

text \<open>What has been put in the queue are the results of the jobs that have run, from the result \<open>first\<close>
  that the connection attempt gave; an event that is registered belongs to a call of \<open>disconnect\<close>.\<close>

definition results_ok ::
  "('m \<Rightarrow> 'v \<Rightarrow> 'f + 'v) \<Rightarrow> ('v \<Rightarrow> 'f + 'v) \<Rightarrow> 'm job list \<Rightarrow> 'f + 'v \<Rightarrow> ('m, 'f, 'v) api \<Rightarrow> bool" where
  "results_ok meth lose past first s \<longleftrightarrow> ap_issued s = past @ ap_jobs s \<and>
     (case ap_chain s of None \<Rightarrow> past = [] | Some r \<Rightarrow> r = chain_after meth lose past first) \<and>
     received_values (ap_returned s) @ ap_queue s = call_results meth lose past first"

definition events_ok :: "('m, 'f, 'v) api \<Rightarrow> bool" where
  "events_ok s \<longleftrightarrow> (\<forall>n\<in>set (ap_registered s). n < ap_events s) \<and> (\<forall>n. Disconnector n \<in> set (ap_jobs s) \<longrightarrow> n < ap_events s)"

lemma run_job_results:
  assumes "results_ok meth lose past first s" "ap_chain s = Some r" "ap_jobs s = j # js"
  shows "results_ok meth lose (past @ [j]) first (run_job meth lose j r (s\<lparr>ap_jobs := js\<rparr>))"
  using assms
  by (cases j)
    (auto simp: results_ok_def run_job_def chain_after_append call_results_append Let_def threaded_call_def split: sum.split)

lemma step_results:
  assumes "api_step meth lose timed s t" "results_ok meth lose past first s"
  shows "\<exists>past first. results_ok meth lose past first t"
  using assms(1)
proof (cases rule: api_step.cases)
  case (connected r)
  then have "results_ok meth lose [] r t" using assms(2) by (simp add: results_ok_def)
  then show ?thesis by blast
next
  case (run r j js)
  with run_job_results [OF assms(2)] show ?thesis by blast
qed (use assms(2) in \<open>auto simp: results_ok_def submit_def api_disconnect_def get_result_def intro!: exI [of _ past] exI [of _ first]
    split: option.splits\<close>)

lemma step_events: "api_step meth lose timed s t \<Longrightarrow> events_ok s \<Longrightarrow> events_ok t"
  by (erule api_step.cases)
    (auto simp: events_ok_def submit_def api_disconnect_def get_result_def run_job_def Let_def split: job.splits sum.splits intro: less_SucI)

lemma run_ok:
  assumes "api_run meth lose timed s0 s" "s0 = new_api"
  shows "(\<exists>past first. results_ok meth lose past first s) \<and> events_ok s"
  using assms
proof (induction rule: api_run.induct)
  case (begin_run s)
  then show ?case by (auto simp: results_ok_def events_ok_def new_api_def)
next
  case (continue_run s t u)
  with step_results [OF continue_run(2)] step_events [OF continue_run(2)] show ?case by blast
qed

lemma returned_results:
  assumes "results_ok meth lose past first s" "i < length (ap_returned s)" "ap_returned s ! i = Some r"
  shows "let k = i - timeouts (take i (ap_returned s)); rs = call_results meth lose (ap_issued s) first in k < length rs \<and> rs ! k = r"
proof -
  have "call_results meth lose (ap_issued s) first =
      received_values (ap_returned s) @ ap_queue s @ call_results meth lose (ap_jobs s) (chain_after meth lose past first)"
    using assms(1) by (simp add: results_ok_def call_results_append)
  with received_nth [OF assms(2,3)] show ?thesis by (simp add: nth_append Let_def)
qed

lemma timeouts_between: "i < k \<Longrightarrow> k \<le> length rs \<Longrightarrow> rs ! i = Some r \<Longrightarrow> i - timeouts (take i rs) \<le> k - timeouts (take k rs)"
proof (induction k)
  case (Suc k)
  have "timeouts (take (Suc k) rs) \<le> Suc (timeouts (take k rs))"
    using Suc.prems(2) by (simp add: timeouts_def take_Suc_conv_app_nth)
  moreover have "timeouts (take (Suc k) rs) = timeouts (take k rs)" if "i = k"
    using that Suc.prems by (simp add: timeouts_def take_Suc_conv_app_nth)
  ultimately show ?case using Suc by (cases "i = k") auto
qed simp

text \<open>C25. The calls of the main thread get the results of the chain in order, shifted by the timeouts: call
  \<open>i\<close> returns the result of the call that many places earlier as there were timeouts before it. Once
  a call has raised a failure, every later call that returns raises the same.\<close>

theorem api_calls_in_order:
  assumes "api_run meth lose timed new_api s"
  shows "\<exists>first. \<forall>i r. i < length (ap_returned s) \<and> ap_returned s ! i = Some r \<longrightarrow>
    (let k = i - timeouts (take i (ap_returned s)); rs = call_results meth lose (ap_issued s) first in
     k < length rs \<and> rs ! k = r \<and>
     (\<forall>f j r'. r = Inl f \<and> i < j \<and> j < length (ap_returned s) \<and> ap_returned s ! j = Some r' \<longrightarrow> r' = Inl f))"
proof -
  from run_ok [OF assms] obtain past first where ok: "results_ok meth lose past first s" by auto
  let ?k = "\<lambda>i. i - timeouts (take i (ap_returned s))" and ?rs = "call_results meth lose (ap_issued s) first"
  have at: "?k i < length ?rs \<and> ?rs ! ?k i = r" if "i < length (ap_returned s)" "ap_returned s ! i = Some r" for i r
    using returned_results [OF ok that] by (simp add: Let_def)
  have "r' = Inl f" if "i < j" "j < length (ap_returned s)" "ap_returned s ! i = Some (Inl f)" "ap_returned s ! j = Some r'" for i j f r'
    using failure_sticks [of meth lose "ap_issued s" first "?k i" f "?k j"] at [of i "Inl f"] at [of j r'] that
      timeouts_between [of i j "ap_returned s" "Inl f"] by simp
  with at show ?thesis unfolding Let_def by blast
qed

text \<open>A first call that timed out, and a second that got the first's result.\<close>

theorem api_calls_in_order_witness:
  "\<exists>s. api_run (\<lambda>m p. Inr (p + m :: nat)) Inr True new_api s \<and> ap_returned s = [None, Some (Inr 5 :: unit + nat)] \<and>
     ap_issued s = [Invoke 5, Invoke 7] \<and>
     (\<exists>first. call_results (\<lambda>m p. Inr (p + m)) Inr (ap_issued s) first ! 0 = (Inr 5 :: unit + nat))"
proof -
  let ?meth = "\<lambda>m p. Inr (p + m :: nat) :: unit + nat"
  let ?s = "(new_api :: (nat, unit, nat) api)\<lparr>ap_chain := Some (Inr 5), ap_jobs := [Invoke 7],
    ap_issued := [Invoke 5, Invoke 7], ap_returned := [None, Some (Inr 5)]\<rparr>"
  note step = continue_run [of ?meth Inr True]
  have 1: "api_run ?meth Inr True new_api (submit (Invoke 5) InCall new_api)"
    by (rule step [OF begin_run]) (rule call_method, simp add: new_api_def)
  have 2: "api_run ?meth Inr True new_api (get_result None [] (submit (Invoke 5) InCall new_api))"
    by (rule step [OF 1]) (rule timed_out, simp_all add: submit_def new_api_def)
  have 3: "api_run ?meth Inr True new_api ((get_result None [] (submit (Invoke 5) InCall new_api))\<lparr>ap_chain := Some (Inr 0)\<rparr>)"
    (is "api_run _ _ _ _ ?s3")
    by (rule step [OF 2]) (rule connected, simp add: submit_def new_api_def get_result_def)
  have 4: "api_run ?meth Inr True new_api (run_job ?meth Inr (Invoke 5) (Inr 0) (?s3\<lparr>ap_jobs := []\<rparr>))" (is "api_run _ _ _ _ ?s4")
    by (rule step [OF 3]) (rule run, simp_all add: submit_def new_api_def get_result_def)
  have 5: "api_run ?meth Inr True new_api (submit (Invoke 7) InCall ?s4)"
    by (rule step [OF 4]) (rule call_method, simp add: submit_def new_api_def get_result_def run_job_def Let_def)
  have "api_run ?meth Inr True new_api (get_result (Some (Inr 5)) [] (submit (Invoke 7) InCall ?s4))"
    by (rule step [OF 5]) (rule answered, simp_all add: submit_def new_api_def get_result_def run_job_def Let_def threaded_call_def)
  moreover have "get_result (Some (Inr 5)) [] (submit (Invoke 7) InCall ?s4) = ?s"
    by (simp add: submit_def new_api_def get_result_def run_job_def Let_def threaded_call_def)
  ultimately have s: "api_run ?meth Inr True new_api ?s" by simp
  from api_calls_in_order [OF s] obtain first where
    "\<forall>i r. i < length (ap_returned ?s) \<and> ap_returned ?s ! i = Some r \<longrightarrow>
      call_results ?meth Inr (ap_issued ?s) first ! (i - timeouts (take i (ap_returned ?s))) = r" by (auto simp: Let_def)
  from this [rule_format, of 1 "Inr 5"] have "call_results ?meth Inr (ap_issued ?s) first ! 0 = Inr 5"
    by (simp add: timeouts_def)
  with s show ?thesis by (intro exI [of _ ?s]) auto
qed

lemma received_member: "Some r \<in> set rs \<Longrightarrow> r \<in> set (received_values rs)"
  by (induction rs rule: received_values.induct) auto

lemma failed_chain: "Inl f \<in> set (call_results meth lose js r) \<Longrightarrow> chain_after meth lose js r = Inl f"
proof (induction meth lose js r rule: call_results.induct)
  case (2 meth lose m js r)
  then show ?case by (cases "threaded_call meth m r = Inl f") auto
qed auto

lemma hang_step:
  assumes "api_step meth lose False s t" "ap_chain s = Some (Inl f)" "ap_caller s = InDisconnect n" "n \<notin> set (ap_registered s)"
  shows "ap_chain t = Some (Inl f) \<and> ap_caller t = InDisconnect n \<and> n \<notin> set (ap_registered t)"
  using assms
  by (auto elim!: api_step.cases simp: run_job_def threaded_call_def Let_def split: job.splits)

text \<open>C26. After a call that raised, \<open>disconnect\<close> without a timeout never returns: its callback is skipped on
  the failed chain, so nothing closes the connection and nothing sets the event.\<close>

theorem disconnect_hangs_after_failure:
  assumes "api_run meth lose False new_api s" "ap_caller s = Idle" "Some (Inl f) \<in> set (ap_returned s)"
    and "api_run meth lose False (api_disconnect s) t"
  shows "ap_caller t = InDisconnect (ap_events s)"
proof -
  from run_ok [OF assms(1)] obtain past first where ok: "results_ok meth lose past first s" and ev: "events_ok s" by auto
  have "Inl f \<in> set (call_results meth lose past first)"
    using received_member [OF assms(3)] ok unfolding results_ok_def by (metis UnI1 set_append)
  then have "ap_chain s = Some (Inl f)"
    using failed_chain [of f meth lose past first] ok by (auto simp: results_ok_def split: option.splits)
  with assms(4) ev have "ap_chain t = Some (Inl f) \<and> ap_caller t = InDisconnect (ap_events s) \<and> ap_events s \<notin> set (ap_registered t)"
  proof (induction "api_disconnect s" t rule: api_run.induct)
    case begin_run
    then show ?case by (auto simp: api_disconnect_def submit_def events_ok_def)
  next
    case (continue_run t u)
    with hang_step [OF continue_run(3)] show ?case by blast
  qed
  then show ?thesis by blast
qed

theorem disconnect_hangs_after_failure_witness:
  "\<exists>s. api_run (\<lambda>(m :: nat) (p :: nat). Inl ()) Inr False new_api s \<and> ap_returned s = [Some (Inl () :: unit + nat)] \<and>
     ap_caller (api_disconnect s) = InDisconnect (ap_events s)"
proof -
  let ?meth = "\<lambda>(m :: nat) (p :: nat). Inl () :: unit + nat"
  note step = continue_run [of ?meth Inr False]
  have 1: "api_run ?meth Inr False new_api (submit (Invoke 5) InCall new_api)"
    by (rule step [OF begin_run]) (rule call_method, simp add: new_api_def)
  have 2: "api_run ?meth Inr False new_api ((submit (Invoke 5) InCall new_api)\<lparr>ap_chain := Some (Inr 0)\<rparr>)" (is "api_run _ _ _ _ ?s2")
    by (rule step [OF 1]) (rule connected, simp add: submit_def new_api_def)
  have 3: "api_run ?meth Inr False new_api (run_job ?meth Inr (Invoke 5) (Inr 0) (?s2\<lparr>ap_jobs := []\<rparr>))" (is "api_run _ _ _ _ ?s3")
    by (rule step [OF 2]) (rule run, simp_all add: submit_def new_api_def)
  have 4: "api_run ?meth Inr False new_api (get_result (Some (Inl ())) [] ?s3)" (is "api_run _ _ _ _ ?s4")
    by (rule step [OF 3]) (rule answered, simp_all add: submit_def new_api_def run_job_def Let_def threaded_call_def)
  have r: "ap_returned ?s4 = [Some (Inl ())]" "ap_caller ?s4 = Idle" by (simp_all add: get_result_def run_job_def submit_def new_api_def Let_def)
  with disconnect_hangs_after_failure [OF 4 _ _ begin_run, of "()"] 4 show ?thesis by (intro exI [of _ ?s4]) auto
qed

end
