(* ===== verification/Api_Module.thy ===== *)
theory Api_Module
  imports Vncdo_Command
begin

text \<open>
  The module \<open>api.py\<close> around its proxies: \<open>connect\<close>, which starts a thread for Twisted's reactor, the
  requests it leaves for the reactor, and \<open>shutdown\<close>. The main thread and the threads that were started
  interleave in any order; \<open>reactor.running\<close> becomes true in the thread whose \<open>reactor.run()\<close> got there
  first, \<open>run()\<close> raises while the reactor runs and after it has stopped, and what is handed to
  \<open>callFromThread\<close> runs in order in the reactor's thread, once it runs. All this is Twisted's documented
  behaviour.
\<close>

section \<open>State\<close>

datatype reactor_phase = NotStarted | Up | Finished

text \<open>A thread that was started, that is in \<open>reactor.run()\<close>, that has ended.\<close>

datatype thread_state = Spawned | InRun | Ended

datatype reactor_call = ConnectCall endpoint | StopCall

datatype main_state = MainIdle | Joining nat

text \<open>\<open>am_hooks\<close> counts the times \<open>sys.excepthook\<close> was wrapped.\<close>

record api_module =
  am_phase :: reactor_phase
  am_threads :: "thread_state list"
  am_THREAD :: "nat option"
  am_hooks :: nat
  am_calls :: "reactor_call list"
  am_attempts :: "endpoint list"
  am_main :: main_state

definition new_module :: api_module where
  "new_module = \<lparr>am_phase = NotStarted, am_threads = [], am_THREAD = None, am_hooks = 0, am_calls = [], am_attempts = [],
     am_main = MainIdle\<rparr>"

section \<open>Operations\<close>

definition reactor_running :: "api_module \<Rightarrow> bool" where
  "reactor_running m \<longleftrightarrow> am_phase m = Up"

definition ensure_reactor :: "api_module \<Rightarrow> api_module" where
  "ensure_reactor m =
     (if reactor_running m then m
      else m\<lparr>am_hooks := am_hooks m + 1, am_THREAD := Some (length (am_threads m)), am_threads := am_threads m @ [Spawned]\<rparr>)"

text \<open>The factory a proxy gets.\<close>

definition api_factory :: "string option \<Rightarrow> string option \<Rightarrow> do_factory" where
  "api_factory password username =
     (let fa = new_do_factory;
          fa = (if username \<noteq> None then fa\<lparr>df_username := username\<rparr> else fa)
      in if password \<noteq> None then fa\<lparr>df_password := password\<rparr> else fa)"

text \<open>\<open>ThreadedVNCClientProxy.connect\<close>.\<close>

definition proxy_connect :: "unicode \<Rightarrow> int \<Rightarrow> address_family \<Rightarrow> api_module \<Rightarrow> api_module" where
  "proxy_connect host port family m = m\<lparr>am_calls := am_calls m @ [ConnectCall (factory_connect host port family)]\<rparr>"

definition api_connect :: "(unicode \<Rightarrow> bool) \<Rightarrow> unicode \<Rightarrow> api_module \<Rightarrow> (exn + unit) \<times> api_module" where
  "api_connect ex server m =
     (let m = ensure_reactor m in
      case parse_server ex server of
        Inl e \<Rightarrow> (Inl e, m)
      | Inr (family, host, port) \<Rightarrow> (Inr (), proxy_connect host port family m))"

text \<open>\<open>shutdown\<close> up to the join, and after it.\<close>

definition api_shutdown :: "api_module \<Rightarrow> api_module" where
  "api_shutdown m =
     (if \<not> reactor_running m then m
      else let m = m\<lparr>am_calls := am_calls m @ [StopCall]\<rparr> in
        case am_THREAD m of None \<Rightarrow> m | Some n \<Rightarrow> m\<lparr>am_main := Joining n\<rparr>)"

definition shutdown_joined :: "api_module \<Rightarrow> api_module" where
  "shutdown_joined m = m\<lparr>am_THREAD := None, am_main := MainIdle\<rparr>"

definition run_call :: "reactor_call \<Rightarrow> api_module \<Rightarrow> api_module" where
  "run_call c m = (case c of ConnectCall e \<Rightarrow> m\<lparr>am_attempts := am_attempts m @ [e]\<rparr> | StopCall \<Rightarrow> m\<lparr>am_phase := Finished\<rparr>)"

abbreviation set_thread :: "nat \<Rightarrow> thread_state \<Rightarrow> api_module \<Rightarrow> api_module" where
  "set_thread i t m \<equiv> m\<lparr>am_threads := (am_threads m)[i := t]\<rparr>"

inductive module_step :: "(unicode \<Rightarrow> bool) \<Rightarrow> api_module \<Rightarrow> api_module \<Rightarrow> bool" for ex where
  connects: "am_main m = MainIdle \<Longrightarrow> module_step ex m (snd (api_connect ex server m))"
| shuts_down: "am_main m = MainIdle \<Longrightarrow> module_step ex m (api_shutdown m)"
| joined: "am_main m = Joining n \<Longrightarrow> am_threads m ! n = Ended \<Longrightarrow> module_step ex m (shutdown_joined m)"
| runs: "i < length (am_threads m) \<Longrightarrow> am_threads m ! i = Spawned \<Longrightarrow> am_phase m = NotStarted \<Longrightarrow>
    module_step ex m (set_thread i InRun (m\<lparr>am_phase := Up\<rparr>))"
| raises: "i < length (am_threads m) \<Longrightarrow> am_threads m ! i = Spawned \<Longrightarrow> am_phase m \<noteq> NotStarted \<Longrightarrow>
    module_step ex m (set_thread i Ended m)"
| calls: "am_phase m = Up \<Longrightarrow> am_calls m = c # cs \<Longrightarrow> module_step ex m (run_call c (m\<lparr>am_calls := cs\<rparr>))"
| returns: "i < length (am_threads m) \<Longrightarrow> am_threads m ! i = InRun \<Longrightarrow> am_phase m = Finished \<Longrightarrow>
    module_step ex m (set_thread i Ended m)"

inductive_cases module_stepE: "module_step ex m m'"

text \<open>Runs in which no \<open>connect\<close> is made between the start of a thread and the moment the reactor runs in it,
  if \<open>settled\<close>.\<close>

definition calm_step :: "api_module \<Rightarrow> api_module \<Rightarrow> bool" where
  "calm_step m m' \<longleftrightarrow> length (am_threads m') \<le> length (am_threads m) \<or> am_threads m = [] \<or> am_phase m \<noteq> NotStarted"

inductive module_run :: "(unicode \<Rightarrow> bool) \<Rightarrow> bool \<Rightarrow> api_module \<Rightarrow> api_module \<Rightarrow> bool" for ex settled where
  run_empty: "module_run ex settled m m"
| run_step: "module_run ex settled m m' \<Longrightarrow> module_step ex m' m'' \<Longrightarrow> (settled \<longrightarrow> calm_step m' m'') \<Longrightarrow> module_run ex settled m m''"

section \<open>The thread of the reactor\<close>

text \<open>In a settled run \<open>_THREAD\<close> is the thread the reactor is in, or will be in.\<close>

definition thread_known :: "api_module \<Rightarrow> bool" where
  "thread_known m \<longleftrightarrow>
     (am_phase m = NotStarted \<longrightarrow> length (am_threads m) \<le> 1 \<and> am_main m = MainIdle \<and> (am_threads m \<noteq> [] \<longrightarrow> am_THREAD m = Some 0)) \<and>
     (am_phase m = Up \<longrightarrow> am_THREAD m \<noteq> None \<and> the (am_THREAD m) < length (am_threads m) \<and>
        am_threads m ! the (am_THREAD m) = InRun) \<and>
     (\<forall>n. am_main m = Joining n \<longrightarrow> am_phase m = Up \<longrightarrow> am_THREAD m = Some n)"

lemmas module_defs = api_connect_def ensure_reactor_def proxy_connect_def api_shutdown_def shutdown_joined_def run_call_def reactor_running_def

lemma step_known:
  assumes "module_step ex m m'" "calm_step m m'" "thread_known m"
  shows "thread_known m'"
  using assms(1)
proof (cases rule: module_step.cases)
  case (connects server)
  then show ?thesis using assms(2,3)
    by (cases "am_phase m") (auto simp: thread_known_def module_defs calm_step_def Let_def nth_append split: sum.splits)
next
  case shuts_down
  then show ?thesis using assms(3)
    by (cases "am_phase m"; cases "am_THREAD m") (simp_all add: thread_known_def module_defs)
next
  case (joined n)
  then show ?thesis using assms(3) by (auto simp: thread_known_def module_defs)
next
  case (runs i)
  then show ?thesis using assms(3) by (auto simp: thread_known_def nth_list_update)
next
  case (raises i)
  then show ?thesis using assms(3) by (auto simp: thread_known_def nth_list_update)
next
  case (calls c cs)
  then show ?thesis using assms(3) by (cases c) (auto simp: thread_known_def module_defs)
next
  case (returns i)
  then show ?thesis using assms(3) by (auto simp: thread_known_def)
qed

lemma run_known:
  assumes "module_run ex True m0 m" "m0 = new_module"
  shows "thread_known m"
  using assms
proof (induction rule: module_run.induct)
  case (run_step m m' m'')
  with step_known [OF run_step(2)] show ?case by blast
qed (simp add: thread_known_def new_module_def)

text \<open>Once the reactor has finished it stays so and makes no connection.\<close>

lemma finished_forever:
  "module_run ex settled m m' \<Longrightarrow> am_phase m = Finished \<Longrightarrow> am_phase m' = Finished \<and> am_attempts m' = am_attempts m"
proof (induction rule: module_run.induct)
  case (run_step m m' m'')
  from run_step(2) run_step.IH run_step.prems show ?case
    by (cases rule: module_step.cases) (auto simp: module_defs Let_def split: option.splits sum.splits)
qed simp

section \<open>Shutting down\<close>

text \<open>C30. Calling \<open>shutdown\<close> leaves the reactor stopped, provided that no \<open>connect\<close> was made between the start of
  the reactor's thread and the moment the reactor runs in it: when the call has joined \<open>_THREAD\<close> and returns,
  the reactor has finished, and it never makes a connection again, whatever is called.\<close>

theorem shutdown_stops_reactor:
  assumes "module_run ex True new_module m" "am_main m = Joining n" "am_threads m ! n = Ended"
    and "module_run ex settled (shutdown_joined m) m'"
  shows "am_phase m' = Finished \<and> am_attempts m' = am_attempts m"
proof -
  have "thread_known m" using assms(1) by (rule run_known) simp
  with assms(2,3) have "am_phase (shutdown_joined m) = Finished"
    by (cases "am_phase m") (auto simp: thread_known_def shutdown_joined_def)
  from finished_forever [OF assms(4) this] show ?thesis by (simp add: shutdown_joined_def)
qed

text \<open>A concrete run: a module with one endpoint to connect to.\<close>

definition stage :: "reactor_phase \<Rightarrow> thread_state list \<Rightarrow> reactor_call list \<Rightarrow> endpoint list \<Rightarrow> main_state \<Rightarrow> nat \<Rightarrow> api_module" where
  "stage ph ts cs es mn n =
     \<lparr>am_phase = ph, am_threads = ts, am_THREAD = Some n, am_hooks = length ts, am_calls = cs, am_attempts = es, am_main = mn\<rparr>"

lemma local_connect:
  obtains e where
    "snd (api_connect (\<lambda>path. False) (pts ''127.0.0.1'') new_module) = stage NotStarted [Spawned] [ConnectCall e] [] MainIdle 0"
    "snd (api_connect (\<lambda>path. False) (pts ''127.0.0.1'') (stage NotStarted [Spawned] [ConnectCall e] [] MainIdle 0)) =
       stage NotStarted [Spawned, Spawned] [ConnectCall e, ConnectCall e] [] MainIdle 1"
proof -
  obtain family host port where "parse_server (\<lambda>path. False) (pts ''127.0.0.1'') = Inr (family, host, port)"
    using local_server [of "\<lambda>path. False"] by (metis prod_cases3)
  then show thesis
    by (intro that [of "factory_connect host port family"]) (simp_all add: stage_def new_module_def module_defs)
qed

lemma stage_steps:
  "module_step ex (stage NotStarted (Spawned # ts) cs es MainIdle n) (stage Up (InRun # ts) cs es MainIdle n)"
  "module_step ex (stage Up [InRun, Spawned] cs es MainIdle n) (stage Up [InRun, Ended] cs es MainIdle n)"
  "module_step ex (stage Up ts cs es MainIdle n) (stage Up ts (cs @ [StopCall]) es (Joining n) n)"
  "module_step ex (stage Up ts (ConnectCall e # cs) es mn n) (stage Up ts cs (es @ [e]) mn n)"
  "module_step ex (stage Up ts (StopCall # cs) es mn n) (stage Finished ts cs es mn n)"
  "module_step ex (stage Finished [InRun] cs es mn n) (stage Finished [Ended] cs es mn n)"
  using module_step.runs [of 0 "stage NotStarted (Spawned # ts) cs es MainIdle n" ex]
    module_step.raises [of 1 "stage Up [InRun, Spawned] cs es MainIdle n" ex]
    module_step.shuts_down [of "stage Up ts cs es MainIdle n" ex]
    module_step.calls [of "stage Up ts (ConnectCall e # cs) es mn n" "ConnectCall e" cs ex]
    module_step.calls [of "stage Up ts (StopCall # cs) es mn n" StopCall cs ex]
    module_step.returns [of 0 "stage Finished [InRun] cs es mn n" ex]
  by (simp_all add: stage_def module_defs)

lemma stage_calm: "calm_step (stage ph ts cs es mn n) (stage ph' ts' cs' es' mn' n') \<longleftrightarrow> length ts' \<le> length ts \<or> ts = [] \<or> ph \<noteq> NotStarted"
  by (simp add: calm_step_def stage_def)

theorem shutdown_stops_reactor_witness:
  "\<exists>m e. module_run (\<lambda>path. False) True new_module m \<and> am_main m = Joining 0 \<and> am_attempts m = [e] \<and>
     am_phase (shutdown_joined m) = Finished"
proof -
  obtain e where c: "snd (api_connect (\<lambda>path. False) (pts ''127.0.0.1'') new_module) = stage NotStarted [Spawned] [ConnectCall e] [] MainIdle 0"
    by (rule local_connect)
  have step: "module_run ex True new_module m \<Longrightarrow> module_step ex m m' \<Longrightarrow> calm_step m m' \<Longrightarrow> module_run ex True new_module m'" for ex m m'
    by (rule module_run.run_step) simp_all
  let ?ex = "\<lambda>path. False"
  have "module_step ?ex new_module (stage NotStarted [Spawned] [ConnectCall e] [] MainIdle 0)"
    using module_step.connects [of new_module ?ex "pts ''127.0.0.1''"] c by (simp add: new_module_def)
  then have "module_run ?ex True new_module (stage NotStarted [Spawned] [ConnectCall e] [] MainIdle 0)"
    by (rule step [OF module_run.run_empty]) (simp add: calm_step_def new_module_def)
  then have "module_run ?ex True new_module (stage Up [InRun] [ConnectCall e] [] MainIdle 0)"
    by (rule step [OF _ stage_steps(1)]) (simp add: stage_calm)
  then have "module_run ?ex True new_module (stage Up [InRun] ([ConnectCall e] @ [StopCall]) [] (Joining 0) 0)"
    by (rule step [OF _ stage_steps(3)]) (simp add: stage_calm)
  then have "module_run ?ex True new_module (stage Up [InRun] [StopCall] [e] (Joining 0) 0)"
    by (intro step [OF _ stage_steps(4) [where es = "[]", unfolded append.simps]]) (simp_all add: stage_calm)
  then have "module_run ?ex True new_module (stage Finished [InRun] [] [e] (Joining 0) 0)"
    by (rule step [OF _ stage_steps(5)]) (simp add: stage_calm)
  then have run: "module_run ?ex True new_module (stage Finished [Ended] [] [e] (Joining 0) 0)"
    by (rule step [OF _ stage_steps(6)]) (simp add: stage_calm)
  have f: "am_main (stage Finished [Ended] [] [e] (Joining 0) 0) = Joining 0" "am_threads (stage Finished [Ended] [] [e] (Joining 0) 0) ! 0 = Ended"
    "am_attempts (stage Finished [Ended] [] [e] (Joining 0) 0) = [e]"
    by (simp_all add: stage_def)
  from shutdown_stops_reactor [OF run f(1,2) module_run.run_empty] run f show ?thesis by blast
qed


end
