(* ===== verification/Vncdo_Session.thy ===== *)
theory Vncdo_Session
  imports Vncdo_Command
begin

text \<open>
  A run of \<open>vncdo\<close> in the reactor: the chain of callbacks \<open>build_tool\<close> has put on the factory's \<open>Deferred\<close>,
  with the events of the connection and the clock around it, to the exit status of the process. A callback
  finishes when the \<open>Deferred\<close> it may have returned fires; the next one starts then, and a failure skips to
  the errback. What comes after a first outcome, until the reactor has stopped, is allowed too.
\<close>

section \<open>State\<close>

datatype tool_link = Connecting | Opened | Dropped

text \<open>\<open>tr_todo\<close> are the commands whose callbacks have not finished, \<open>tr_done\<close> those that have; \<open>tr_chain\<close> is
  the state of the \<open>Deferred\<close>: not fired, at a command, at its end, failed.\<close>

datatype chain_state = Unfired | AtCommand | Completed | ChainError

record tool_run =
  tr_chain :: chain_state
  tr_todo :: "command list"
  tr_done :: "command list"
  tr_link :: tool_link
  tr_closing :: bool
  tr_cli :: cli

definition start_run :: "vncdo_run \<Rightarrow> tool_run" where
  "start_run r = \<lparr>tr_chain = Unfired, tr_todo = vr_commands r, tr_done = [], tr_link = Connecting, tr_closing = False, tr_cli = new_cli\<rparr>"

section \<open>Steps\<close>

text \<open>The end of the chain: the connection is closed, then the run is done.\<close>

definition go_on :: "tool_run \<Rightarrow> tool_run" where
  "go_on s =
     (if tr_todo s = [] then s\<lparr>tr_chain := Completed, tr_closing := True, tr_cli := cli_step ChainDone (tr_cli s)\<rparr>
      else s\<lparr>tr_chain := AtCommand\<rparr>)"

definition command_finished :: "tool_run \<Rightarrow> tool_run" where
  "command_finished s = go_on (s\<lparr>tr_done := tr_done s @ [hd (tr_todo s)], tr_todo := tl (tr_todo s)\<rparr>)"

definition command_failed :: "failure \<Rightarrow> tool_run \<Rightarrow> tool_run" where
  "command_failed reason s = s\<lparr>tr_chain := ChainError, tr_cli := cli_step (ChainFailed reason) (tr_cli s)\<rparr>"

definition outside :: "cli_event \<Rightarrow> tool_run \<Rightarrow> tool_run" where
  "outside e s = s\<lparr>tr_cli := cli_step e (tr_cli s)\<rparr>"

inductive tool_step :: "vncdo_run \<Rightarrow> tool_run \<Rightarrow> tool_run \<Rightarrow> bool" for r where
  opened: "tr_link s = Connecting \<Longrightarrow> tool_step r s (s\<lparr>tr_link := Opened\<rparr>)"
| made: "tr_link s = Opened \<Longrightarrow> tr_chain s = Unfired \<Longrightarrow> tool_step r s (go_on s)"
| finished: "tr_chain s = AtCommand \<Longrightarrow> tool_step r s (command_finished s)"
| failed: "tr_chain s = AtCommand \<Longrightarrow> tool_step r s (command_failed reason s)"
| connection_failed: "tool_step r s (outside (ConnectionFailed reason) s)"
| connection_lost: "tr_link s = Opened \<Longrightarrow> tool_step r s (outside (ConnectionLost reason) (s\<lparr>tr_link := Dropped\<rparr>))"
| timed_out: "vr_timeout r \<noteq> None \<Longrightarrow> tool_step r s (outside TimedOut s)"

inductive tool_reach :: "vncdo_run \<Rightarrow> tool_run \<Rightarrow> bool" for r where
  reach_start: "tool_reach r (start_run r)"
| reach_step: "tool_reach r s \<Longrightarrow> tool_step r s t \<Longrightarrow> tool_reach r t"

section \<open>The status\<close>

text \<open>The status is that of success only if the chain has come to its end, and a timeout only if one was
  asked for or a failure was one.\<close>

definition status_ok :: "vncdo_run \<Rightarrow> tool_run \<Rightarrow> bool" where
  "status_ok r s \<longleftrightarrow> tr_done s @ tr_todo s = vr_commands r \<and> (cli_status (tr_cli s) = Some SUCCESS \<longrightarrow> tr_chain s = Completed) \<and>
     (tr_chain s = Completed \<longrightarrow> tr_todo s = [] \<and> tr_closing s) \<and> (tr_chain s = AtCommand \<longrightarrow> tr_todo s \<noteq> []) \<and>
     (tr_chain s = Completed \<or> tr_chain s = ChainError \<longrightarrow> cli_status (tr_cli s) \<noteq> None) \<and>
     (cli_stops (tr_cli s) = (if cli_status (tr_cli s) = None then 0 else 1))"

lemma status_not_success: "dflt \<noteq> SUCCESS \<Longrightarrow> status_for reason dflt \<noteq> SUCCESS"
  by (auto simp: status_for_def EXIT_STATUS_FOR_ERROR_def)

lemma cli_event_status:
  "cli_status (cli_step e s) \<noteq> None"
  "cli_status s \<noteq> None \<Longrightarrow> cli_step e s = s"
  "cli_status (cli_step e s) = Some SUCCESS \<Longrightarrow> cli_status s = Some SUCCESS \<or> e = ChainDone"
  "cli_status s = None \<Longrightarrow> cli_stops (cli_step e s) = cli_stops s + 1"
  by (cases e; auto simp: cli_done_def cli_error_def status_not_success split: if_splits)+

lemma step_status:
  assumes "tool_step r s t" "status_ok r s"
  shows "status_ok r t"
proof -
  have outside: "status_ok r (outside e u)" if "status_ok r u" "e \<noteq> ChainDone" for e u
    using that cli_event_status [where e = e and s = "tr_cli u"] by (cases "cli_status (tr_cli u)") (auto simp: status_ok_def outside_def)
  have next_command: "status_ok r (go_on u)"
    if "tr_done u @ tr_todo u = vr_commands r" "cli_status (tr_cli u) \<noteq> Some SUCCESS"
      "cli_stops (tr_cli u) = (if cli_status (tr_cli u) = None then 0 else 1)" for u
    using that cli_event_status [where e = ChainDone and s = "tr_cli u"]
    by (cases "cli_status (tr_cli u)") (auto simp: status_ok_def go_on_def)
  from assms(1) show ?thesis
  proof (cases rule: tool_step.cases)
    case opened
    with assms(2) show ?thesis by (simp add: status_ok_def)
  next
    case made
    have "status_ok r (go_on s)" by (rule next_command) (use assms(2) made in \<open>auto simp: status_ok_def\<close>)
    with made show ?thesis by simp
  next
    case finished
    have "status_ok r (command_finished s)" unfolding command_finished_def
      by (rule next_command) (use assms(2) finished in \<open>auto simp: status_ok_def\<close>)
    with finished show ?thesis by simp
  next
    case (failed reason)
    with assms(2) cli_event_status [where e = "ChainFailed reason" and s = "tr_cli s"] show ?thesis
      by (cases "cli_status (tr_cli s)") (auto simp: status_ok_def command_failed_def)
  next
    case (connection_lost reason)
    have "status_ok r (s\<lparr>tr_link := Dropped\<rparr>)" using assms(2) by (simp add: status_ok_def)
    with connection_lost show ?thesis by (auto intro: outside)
  qed (use assms(2) in \<open>auto intro: outside\<close>)
qed

lemma reach_status: "tool_reach r s \<Longrightarrow> status_ok r s"
proof (induction rule: tool_reach.induct)
  case reach_start
  then show ?case by (simp add: status_ok_def start_run_def new_cli_def)
next
  case (reach_step s t)
  then show ?case using step_status by blast
qed

text \<open>C7. The exit status of \<open>vncdo\<close> is honest. Whatever happens to the connection and whenever, a run that
  started from the command line exits with 0 only if every command it was given has finished, in order, and
  the connection was then closed by \<open>vncdo\<close>, and it does so when this is its first outcome. Once the chain has
  ended, well or not, the reactor has been told to stop exactly once and the status is settled for good.\<close>

theorem vncdo_exit_status_honest:
  assumes "vncdo envd ex src argv = Some (Running r)" "tool_reach r s"
  shows "(process_exit (tr_cli s) = 0 \<longrightarrow> tr_done s = vr_commands r \<and> tr_closing s) \<and>
    (\<forall>t. tool_step r s t \<and> cli_status (tr_cli s) = None \<and> tr_chain t = Completed \<longrightarrow> process_exit (tr_cli t) = 0) \<and>
    (tr_chain s = Completed \<or> tr_chain s = ChainError \<longrightarrow> cli_stops (tr_cli s) = 1 \<and>
       (\<forall>t. tool_step r s t \<longrightarrow> process_exit (tr_cli t) = process_exit (tr_cli s)))"
proof -
  note ok = reach_status [OF assms(2), unfolded status_ok_def]
  have "exit_code st = 0 \<longleftrightarrow> st = SUCCESS" for st by (cases st) simp_all
  then have zero: "process_exit c = 0 \<longleftrightarrow> cli_status c = Some SUCCESS" for c
    by (auto simp: process_exit_def split: option.splits)
  have settled: "tr_cli t = tr_cli s" if "tool_step r s t" "cli_status (tr_cli s) \<noteq> None" for t
    using that(1) by (cases rule: tool_step.cases)
      (auto simp: go_on_def command_finished_def command_failed_def outside_def cli_event_status(2) [OF that(2)])
  have "cli_status (tr_cli t) = Some SUCCESS"
    if "tool_step r s t" "cli_status (tr_cli s) = None" "tr_chain t = Completed" for t
  proof -
    have "tr_chain s \<noteq> Completed" using ok that(2) by auto
    with that show ?thesis
      by (cases rule: tool_step.cases)
        (auto simp: go_on_def command_finished_def command_failed_def outside_def cli_done_def split: if_splits)
  qed
  with ok zero settled show ?thesis by auto
qed

theorem vncdo_exit_status_honest_witness:
  "\<exists>r s. vncdo None (\<lambda>path. False) no_sources [pts ''key'', pts ''a''] = Some (Running r) \<and> tool_reach r s \<and>
     process_exit (tr_cli s) = 0 \<and> tr_done s = [KeyPress (pts ''a'')] \<and> tr_closing s"
proof -
  have plain: "plain_arg (pts ''key'')" "env_delay None = Some 10" by code_simp+
  from vncdo_plain [OF plain(2,1)] obtain addr where
    "vncdo None (\<lambda>path. False) no_sources [pts ''key'', pts ''a''] = build_tool no_sources (vncdo_defaults 10) addr [pts ''key'', pts ''a'']"
    by metis
  moreover have step: "command_step no_sources d warp inc (pts ''key'') [pts ''a''] = Inr ([KeyPress (pts ''a'')], [])" for d warp inc
    unfolding command_step_def is_cmd_pts by (simp add: pop_arg_def bind_cmd_def)
  have "build_command_list no_sources d warp inc [pts ''key'', pts ''a''] = Some (Inr [KeyPress (pts ''a'')])" for d warp inc
    by (simp add: build_command_list_def build_step [OF step]) (simp add: build_loop.simps)
  ultimately obtain r where r: "vncdo None (\<lambda>path. False) no_sources [pts ''key'', pts ''a''] = Some (Running r)"
    "vr_commands r = [KeyPress (pts ''a'')]"
    by (cases addr) (auto simp: build_tool_def tool_commands_def)
  have step: "tool_reach r s \<Longrightarrow> tool_step r s t \<Longrightarrow> tool_reach r t" for s t by (rule tool_reach.reach_step)
  let ?s0 = "start_run r" and ?s1 = "(start_run r)\<lparr>tr_link := Opened\<rparr>"
  have "tool_step r ?s0 ?s1" by (rule tool_step.opened) (simp add: start_run_def)
  moreover have "tool_step r ?s1 (go_on ?s1)" by (rule tool_step.made) (simp_all add: start_run_def)
  moreover have "tool_step r (go_on ?s1) (command_finished (go_on ?s1))"
    by (rule tool_step.finished) (simp add: go_on_def start_run_def r(2))
  ultimately have reach: "tool_reach r (command_finished (go_on ?s1))" by (intro step [OF step [OF step [OF tool_reach.reach_start]]])
  moreover have "process_exit (tr_cli (command_finished (go_on ?s1))) = 0"
    by (simp add: go_on_def start_run_def r(2) command_finished_def process_exit_def cli_done_def new_cli_def)
  ultimately show ?thesis using vncdo_exit_status_honest [OF r(1) reach] r by auto
qed

end
