(* ===== verification/Replay_Command.thy ===== *)
theory Replay_Command
  imports Replay_Server Text_Files Vncdo_Command
begin

text \<open>
  The command \<open>vncdo-replay\<close> (\<open>command.vncdo_replay\<close>): its options, serving an archive, or running the
  session log in it through \<open>vncdo\<close>. Its parser does not stop at the first argument.
\<close>

section \<open>The options\<close>

definition DEFAULT_PORT :: int where
  "DEFAULT_PORT = 5999"

definition DEFAULT_BIND :: unicode where
  "DEFAULT_BIND = pts ''127.0.0.1''"

definition DEFAULT_SERVER :: unicode where
  "DEFAULT_SERVER = DEFAULT_BIND @ [58, 58] @ show_int DEFAULT_PORT"

definition DEFAULT_CLIENT_TIMEOUT :: pyfloat where
  "DEFAULT_CLIENT_TIMEOUT = Fin 30"

definition replay_options :: "opt_spec list" where
  "replay_options =
     [opt [] ''--server'' ''server'' StoreTrue (VBool False),
      opt ''s'' ''--connect'' ''connect'' (Store OText) (VText DEFAULT_SERVER),
      opt ''p'' ''--password'' ''password'' (Store OText) VNone,
      opt [] ''--listen'' ''listen'' (Store OInt) (VInt DEFAULT_PORT),
      opt [] ''--bind'' ''bind'' (Store OText) (VText DEFAULT_BIND),
      opt [] ''--client-timeout'' ''client_timeout'' (Store OFloat) (VFloat DEFAULT_CLIENT_TIMEOUT),
      opt [] ''--forever'' ''forever'' StoreTrue (VBool False),
      opt ''v'' ''--verbose'' ''verbose'' StoreTrue VNone]"

definition replay_parser :: opt_parser where
  "replay_parser = option_parser replay_options"

section \<open>The command\<close>

record replay_listener =
  rl_port :: int
  rl_interface :: unicode
  rl_factory :: replay_factory

datatype replay_action = ReplayStops startup | Serves replay_listener | Drives startup

text \<open>A timeout that is infinite never falls due.\<close>

definition finite_timeout :: "pyfloat \<Rightarrow> rat option" where
  "finite_timeout v = (case v of Fin a \<Rightarrow> Some a | _ \<Rightarrow> None)"

text \<open>\<open>capture.session_vdo.strip()\<close> is empty.\<close>

definition blank_log :: "bytes \<Rightarrow> bool" where
  "blank_log bs = list_all is_space bs"

text \<open>\<open>_replay_client\<close>: the arguments \<open>vncdo\<close> is called with. \<open>script\<close> is the name of the log in the temporary
  directory.\<close>

definition built_argv :: "opt_values \<Rightarrow> archive \<Rightarrow> unicode \<Rightarrow> unicode list \<Rightarrow> unicode list" where
  "built_argv vs a script extra =
     [pts ''-s'', the (opt_text vs ''connect'')]
     @ (case opt_text vs ''password'' of None \<Rightarrow> [] | Some p \<Rightarrow> if p = [] then [] else [pts ''-p'', p])
     @ (if blank_log (ar_session_vdo a) then [] else [script]) @ extra"

text \<open>The files \<open>vncdo\<close> can read: the script too, its bytes taken as text.\<close>

definition replay_sources :: "sources \<Rightarrow> archive \<Rightarrow> unicode \<Rightarrow> exn + sources" where
  "replay_sources src a script =
     (if blank_log (ar_session_vdo a) then Inr src
      else bind_sum (read_text (ar_session_vdo a)) (\<lambda>text. Inr (src\<lparr>src_files := (src_files src)(script \<mapsto> text)\<rparr>)))"

definition replay_client ::
  "unicode option \<Rightarrow> (unicode \<Rightarrow> bool) \<Rightarrow> sources \<Rightarrow> opt_values \<Rightarrow> archive \<Rightarrow> unicode \<Rightarrow> unicode list \<Rightarrow> replay_action option" where
  "replay_client envd ex src vs a script extra =
     (if blank_log (ar_session_vdo a) \<and> extra = [] then Some (ReplayStops (Exit USAGE))
      else case replay_sources src a script of
          Inl e \<Rightarrow> Some (Drives Traceback)
        | Inr src \<Rightarrow> map_option Drives (vncdo envd ex src (built_argv vs a script extra)))"

definition vncdo_replay ::
  "unicode option \<Rightarrow> (unicode \<Rightarrow> bool) \<Rightarrow> sources \<Rightarrow> files \<Rightarrow> unicode \<Rightarrow> unicode list \<Rightarrow> replay_action option" where
  "vncdo_replay envd ex src fs script argv =
     (case parse_args replay_parser argv of
        Inl e \<Rightarrow> Some (ReplayStops (stopped e))
      | Inr (vs, args) \<Rightarrow>
          (case args of
             [] \<Rightarrow> Some (ReplayStops (Exit USAGE))
           | file # extra \<Rightarrow>
               (case load_capture (latin1 file) fs of
                  Inl e \<Rightarrow> Some (ReplayStops (Exit USAGE))
                | Inr a \<Rightarrow>
                    if \<not> opt_flag vs ''server'' then replay_client envd ex src vs a script extra
                    else if extra \<noteq> [] then Some (ReplayStops (Exit USAGE))
                    else Some (Serves \<lparr>rl_port = opt_int vs ''listen'', rl_interface = the (opt_text vs ''bind''),
                      rl_factory = \<lparr>rf_capture = a, rf_timeout = Option.bind (opt_float vs ''client_timeout'') finite_timeout,
                        rf_forever = opt_flag vs ''forever''\<rparr>\<rparr>))))"

section \<open>The vncdo it calls\<close>

lemma vncdo_of_archive:
  assumes "env_delay envd = Some n" "\<not> blank_log (ar_session_vdo a)" "read_text (ar_session_vdo a) = Inr content"
    and "parse_server ex (the (opt_text vs ''connect'')) = Inr addr" "plain_arg script"
  obtains us where "replay_client envd ex src vs a script extra =
      map_option Drives (build_tool (src\<lparr>src_files := (src_files src)(script \<mapsto> content)\<rparr>) us addr (script # extra))"
    "opt_int us ''delay'' = n" "opt_float us ''warp'' = Some (Fin 1)" "\<not> opt_flag us ''force_caps''"
    "opt_text us ''password'' = (if opt_text vs ''password'' = Some [] then None else opt_text vs ''password'')"
proof -
  let ?p = "vncdo_parser envd" and ?c = "the (opt_text vs ''connect'')"
  let ?s = "(vncdo_defaults n)(''server'' := VText ?c)"
  obtain us where us: "process_args ?p [] (built_argv vs a script extra) (vncdo_defaults n) = Inr (script # extra, us)"
    "opt_text us ''server'' = Some ?c" "opt_int us ''delay'' = n" "opt_float us ''warp'' = Some (Fin 1)" "\<not> opt_flag us ''force_caps''"
    "opt_text us ''password'' = (if opt_text vs ''password'' = Some [] then None else opt_text vs ''password'')"
  proof (cases "opt_text vs ''password'' = None \<or> opt_text vs ''password'' = Some []")
    case True
    then have "built_argv vs a script extra = [45, 115] # ?c # script # extra"
      using assms(2) by (auto simp: built_argv_def pts_def)
    then have run: "process_args ?p [] (built_argv vs a script extra) (vncdo_defaults n) = Inr (script # extra, ?s)"
      using assms(5) by (simp add: vncdo_server arguments_end_options)
    show thesis by (rule that [OF run]) (use True in \<open>auto simp: vncdo_defaults_def opt_text_def opt_int_def opt_float_def opt_flag_def\<close>)
  next
    case False
    then obtain pw where pw: "opt_text vs ''password'' = Some pw" "pw \<noteq> []" by auto
    then have "built_argv vs a script extra = [45, 115] # ?c # [45, 112] # pw # script # extra"
      using assms(2) by (simp add: built_argv_def pts_def)
    then have run: "process_args ?p [] (built_argv vs a script extra) (vncdo_defaults n) = Inr (script # extra, ?s(''password'' := VText pw))"
      using assms(5) by (simp add: vncdo_server vncdo_password arguments_end_options)
    show thesis by (rule that [OF run]) (use pw in \<open>auto simp: vncdo_defaults_def opt_text_def opt_int_def opt_float_def opt_flag_def\<close>)
  qed
  moreover from this(1,2) assms(2-4) have "replay_client envd ex src vs a script extra =
      map_option Drives (build_tool (src\<lparr>src_files := (src_files src)(script \<mapsto> content)\<rparr>) us addr (script # extra))"
    by (simp add: replay_client_def replay_sources_def vncdo_def vncdo_parse [OF assms(1)])
  ultimately show thesis using that by blast
qed

lemma default_server: "parse_server ex DEFAULT_SERVER = Inr (family_of ex DEFAULT_BIND, DEFAULT_BIND, DEFAULT_PORT)"
proof -
  have "is_ipv6 (pts ''::1'')" "93 \<notin> set (pts ''::1'')" "58 \<notin> set DEFAULT_BIND" "hd DEFAULT_BIND \<noteq> 91" "DEFAULT_BIND \<noteq> []"
    by code_simp+
  from parse_server_forms [OF this(5,3,4,2,1), of ex _ DEFAULT_PORT] show ?thesis by (simp add: DEFAULT_SERVER_def)
qed

section \<open>The session log\<close>

lemma recorded_not_blank:
  assumes "list_all key_ok is" "is \<noteq> []" "record_keys is r = Ret r'" "encode_unicode (rec_out r') = Inr bs"
  shows "\<not> blank_log bs"
proof -
  obtain now k down rest where i: "is = (now, k, down) # rest" using assms(2) by (cases "is") auto
  have "shlex_quote (pts ''pause'') = pts ''pause''" "112 \<in> set (pts ''pause'')" by code_simp+
  then have "112 \<in> set (log_line (key_tokens (now - rec_last r) k down))" by (auto simp: log_line_def key_tokens_def)
  with record_keys_log [OF assms(1), of r] assms(3) have "112 \<in> set (rec_out r')" by (auto simp: i)
  from encode_keeps_ascii [OF assms(4) this] have "(112 :: byte) \<in> set bs" by simp
  moreover have "\<not> is_space 112" by (simp add: is_space_def)
  ultimately show ?thesis by (auto simp: blank_log_def list_all_iff)
qed

section \<open>Commands after the archive\<close>



end
