(* ===== verification/Spec2Isabelle.thy ===== *)
theory Spec2Isabelle
  imports Capture_Sessions Vnclog_Options Threaded_Api Api_Module Vncdo_Session Replay_Command
begin

text \<open>
  A verification development of \<^bold>\<open>vncdotool\<close>, a command line VNC client (\<open>src/vncdotool\<close>).

  \<^bold>\<open>The program.\<close> \<open>rfb.py\<close> holds \<open>RFBClient\<close>, a push parser of the RFB protocol: Twisted delivers bytes
  to \<open>dataReceived\<close>, which cuts them into the blocks the current handler has asked for with \<open>expect\<close>;
  rectangles that need several blocks are decoded by generators a small pump (\<open>_pumpStart\<close>,
  \<open>_pumpBlock\<close>) drives, into the buffer of \<open>decoders/buffer.py\<close>. \<open>pixelformat.py\<close> says how the
  pixels of a negotiated format are laid out. \<open>client.py\<close> subclasses the protocol with keyboard and
  mouse methods, \<open>command.py\<close> turns the arguments of \<open>vncdo\<close> into calls of those methods. \<open>loggingproxy.py\<close>
  sits between a viewer and a server: it parses the viewer's messages (\<open>RFBServer\<close>), writes them
  as a script of \<open>vncdo\<close> commands, and can keep a capture of the session. \<open>capture.py\<close> scrubs
  the credentials from such a capture and archives it; \<open>replay.py\<close> serves an archive to a client.

  \<^bold>\<open>Theories.\<close>

  \<^item> \<open>Prelude\<close>: bytes, Python slicing, the exceptions and results of operations, generic lemmas.
    \<open>Struct_Codec\<close>: Python's \<open>struct\<close> with its range checks and inverse laws.
  \<^item> \<open>Const_Tables\<close> (\<open>const.py\<close>), \<open>Key_Map\<close> (\<open>keys.py\<close>): the protocol numbers and the key names.
  \<^item> \<open>Pixel_Format\<close> (\<open>pixelformat.py\<close>, \<open>rfb.PixelFormat\<close>): packing, raw modes, CPIXELs. The lemmas
    show that a mode is answered only where the bytes of a pixel really hold the channels, that the
    channels do not overlap, and that a CPIXEL keeps all of them.
  \<^item> \<open>Rect_Buffer\<close> (\<open>decoders/buffer.py\<close>): the two representations the buffer switches between and its
    refinement of a plain image; exactly which writes are accepted.
  \<^item> \<open>Rfb_State\<close>, \<open>Rfb_Handshake\<close>, \<open>Tile_Codec\<close>, \<open>Rfb_Encodings\<close>, \<open>Rfb_Protocol\<close> (\<open>rfb.py\<close>): the fields of
    \<open>RFBClient\<close>, the handshake handlers, the tile and run-length codecs, the encodings, and the
    receive loop. A handler waiting for bytes is a value of the datatype of continuations, as the
    code's \<open>self._handler\<close> and suspended generators are. The lemmas show that results do not depend
    on how the network cuts the stream, when the loop returns and when it cannot, and that bad
    rectangles stop the client before they are drawn.
  \<^item> \<open>Rfb_Messages\<close> (\<open>rfb.py\<close>, client to server): the senders, against a grammar of messages.
  \<^item> \<open>Rfb_Sessions\<close>: conversations with a correct server, from the greeting to decoded updates.
  \<^item> \<open>Handshake_Scrubber\<close> (\<open>capture.py\<close>): the parser that follows a proxied handshake. The lemmas show
    that what is recorded does not depend on the secrets of the session, nor on segmentation, and
    that the parser records nothing once it has lost the thread.
  \<^item> \<open>Capture_Archive\<close>, \<open>Replay_Server\<close>, \<open>Capture_Sessions\<close> (\<open>capture.py\<close>, \<open>replay.py\<close>): atomic writing of
    the archive, its loading, the paced server, and the path of one capture through all of them to
    a client that needs no password.
  \<^item> \<open>Log_Server\<close> (\<open>loggingproxy.RFBServer\<close>), \<open>Session_Log\<close> (the recording subclass and \<open>shlex\<close>): the locale
    \<open>server_hooks\<close> is the contract of the methods a subclass overrides; it is interpreted for the base
    class and for the recorder.
  \<^item> \<open>Text_Files\<close>: UTF-8 and universal newlines, between the session log and the script it becomes.
  \<^item> \<open>Vnc_Client\<close> (\<open>client.py\<close>), \<open>Command_Line\<close>, \<open>Server_Address\<close> (\<open>command.py\<close>): keyboard and mouse over the
    protocol, the command list and its scripts, server addresses, exit statuses.
  \<^item> \<open>Option_Parser\<close>: Python's \<open>optparse\<close> as the commands use it; what is rendered is read back.
    \<open>Vncdo_Command\<close> (\<open>command.vncdo\<close>, \<open>build_tool\<close>, \<open>client.VNCDoToolFactory\<close>, \<open>factory_connect\<close>),
    \<open>Replay_Command\<close> (\<open>command.vncdo_replay\<close>), \<open>Vnclog_Options\<close> (\<open>command.vnclog\<close>): the commands from their
    arguments to what runs in the reactor, or to the exit status they stop with.
    \<open>Vncdo_Session\<close>: a run of \<open>vncdo\<close> as a step relation on the chain of its callbacks, the connection and the
    clock; what its exit status says.
  \<^item> \<open>Client_Screen\<close>, \<open>Screen_Sessions\<close> (\<open>client.py\<close>): the callbacks \<open>VNCDoToolClient\<close> overrides, with its
    screen, cursor, captures and expectations, and \<open>VMwareClient\<close>. Pillow's images are an abstract type
    with the operations the code calls; the lemmas relate the screen to a picture, a function from
    positions to colours.
  \<^item> \<open>Logging_Client\<close>, \<open>Logging_Proxy\<close>, \<open>Proxy_Sessions\<close>, \<open>Proxy_World\<close> (\<open>loggingproxy.py\<close>): the decoder of the
    server's side of a proxied session, the two proxy protocols with their factory, and all the
    connections of a factory as a step relation with any interleaving and any fault of the file
    system. The lemmas show that a parser never keeps the server's bytes from being forwarded, that
    the capture is the wire, what can be left on the disk, and that \<open>--one-shot\<close> serves one session.
  \<^item> \<open>Vnclog_Command\<close> (\<open>command.vnclog\<close>): the checks of its options and the factory they give, and what
    its exit status says of the archive.
  \<^item> \<open>Threaded_Api\<close>, \<open>Api_Module\<close> (\<open>api.py\<close>): the calls of the main thread as jobs on one \<open>Deferred\<close>, the queue
    of results, timeouts and \<open>disconnect\<close>; \<open>connect\<close> and \<open>shutdown\<close> with the threads they start and join.
  \<^item> This theory: a viewer's keys through the recording proxy, into a script, and out of \<open>vncdo\<close> or, from an
    archive, \<open>vncdo-replay\<close>.

  \<^bold>\<open>Loops.\<close> The receive loops of the client, the logging server and the replay server and the builder
  of the command list need not end, so they are \<open>partial_function (option)\<close>: \<open>None\<close> means that the code
  does not return. Returning is proved as such, and the inputs for which two of the loops do hang
  are characterised. All other loops are total functions. There is no fuel.

  \<^bold>\<open>Abstractions.\<close> \<open>zlib\<close>, the DES and AES ciphers, Diffie-Hellman and MD5 are the fields of a parameter
  record, with their documented behaviour as hypotheses where a theorem needs it; so are Pillow and
  Twisted's \<open>portforward\<close>, whose own events the step relation of the proxy allows at any time. The methods a
  subclass of \<open>RFBClient\<close> overrides are parameters too (locale \<open>client_hooks\<close>). Bytes written to the
  transport, timers and callbacks appear in order in a trace. Time is counted in ticks of 0.1
  ms. JSON is modelled at the level of documents. Character tests and number
  parsing are modelled for Latin-1 and ASCII text. Log output, \<open>MemoryError\<close> and the limits of the
  file system are left out.

  \<^bold>\<open>Not modelled.\<close> What is not the program's own: Twisted's reactor, its transports and its end points
  behind the events the models allow, the terminal prompts, the texts of the help and of the log, the
  viewer process of \<open>vnclog\<close> once it is launched. The abstract base class and the annotations of \<open>decoders\<close>
  and \<open>client.py\<close> have no behaviour. The test client at the end of \<open>rfb.py\<close>, the aliases it keeps for
  old key names, and the documentation build are left aside.
\<close>

section \<open>From the wire to a script and back\<close>

definition fresh_recorder :: recorder where
  "fresh_recorder = \<lparr>rec_mouse = None, rec_last = 0, rec_out = []\<rparr>"

definition recording_proxy :: recording_server where
  "recording_proxy = \<lparr>ls_buffer = [], ls_handler = HProtocol, ls_need = 1, ls_password_required = False, ls_events = [],
     rs_recorder = fresh_recorder\<rparr>"

abbreviation wire_keys :: "(bool \<times> int) list \<Rightarrow> bytes" where
  "wire_keys ks \<equiv> concat (map (\<lambda>(down, k). msg_bytes (MsgKey down k)) ks)"

text \<open>The log is written as UTF-8, read back as text to what the recorder wrote, and run as a script it
  sends the keys.\<close>

lemma proxied_keys_log:
  assumes "list_all (\<lambda>(down, k). plain_char k) ks"
    and "ls_handler p = HProtocol" "ls_need p = 1" "ls_buffer p = []" "rec_out (rs_recorder p) = []"
    and "warp \<noteq> Fin 0" "\<not> cl_force_caps s"
  obtains p' bs where "srv_dataReceived (recorder_hooks tick) (wire_keys ks) p = Some (Ret p')"
    "encode_unicode (rec_out (rs_recorder p')) = Inr bs" "read_text bs = Inr (rec_out (rs_recorder p'))"
    "ks \<noteq> [] \<longrightarrow> \<not> blank_log bs"
    "\<forall>env w inc. script_name w \<longrightarrow> src_files env w = Some (rec_out (rs_recorder p')) \<longrightarrow>
       (\<exists>cs t. build_command_list env delay warp inc [w] = Some (Inr cs) \<and> run_commands cs s = Some (Ret t) \<and>
          written (trace t) = written (trace s) @ wire_keys ks)"
proof -
  let ?is = "stamp tick (length (ls_events p)) ks"
  have same: "map (\<lambda>(now, k, down). f down k) (stamp tick n ks) = map (\<lambda>(down, k). f down k) ks" for f :: "bool \<Rightarrow> int \<Rightarrow> 'x" and n
    by (induction tick n ks rule: stamp.induct) auto
  have "list_all (\<lambda>i. plain_char (fst (snd i))) (stamp tick n ks)" for n
    using assms(1) by (induction tick n ks rule: stamp.induct) auto
  note plain = this [of "length (ls_events p)"]
  then have ok: "list_all key_ok ?is" by (auto simp: list_all_iff key_ok_def plain_char_def text_point_def)
  from record_keys_log [OF ok] obtain r where r: "record_keys ?is (rs_recorder p) = Ret r" by blast
  have u: "list_all (\<lambda>(down, k). u32 k) ks" using assms(1) by (auto simp: list_all_iff plain_char_def text_point_def)
  from keys_recorded [OF u assms(2-4) r] obtain p' where
    p': "srv_dataReceived (recorder_hooks tick) (wire_keys ks) p = Some (Ret p')" "rs_recorder p' = r" by blast
  have "list_all plain_char (rec_out r)" using record_keys_plain [OF plain r] assms(5) by simp
  from text_round_trip [OF this] obtain bs where bs: "encode_unicode (rec_out r) = Inr bs" "read_text bs = Inr (rec_out r)"
    by blast
  have "?is \<noteq> []" if "ks \<noteq> []" using that by (cases ks) auto
  with recorded_not_blank [OF ok _ r bs(1)] have blank: "ks \<noteq> [] \<Longrightarrow> \<not> blank_log bs" by blast
  have w: "written (map (\<lambda>(down, k). Write (msg_bytes (MsgKey down k))) ks) = wire_keys ks" by (induction ks) auto
  from run_keys [OF ok assms(7)] w obtain t where
    t: "run_commands (map key_call ?is) s = Some (Ret t)" "written (trace t) = written (trace s) @ wire_keys ks"
    by (fastforce simp: same)
  have replay: "\<exists>cs t. build_command_list env delay warp inc [w] = Some (Inr cs) \<and> run_commands cs s = Some (Ret t) \<and>
      written (trace t) = written (trace s) @ wire_keys ks"
    if named: "script_name w" "src_files env w = Some (rec_out r)" for env w inc
  proof -
    from recorded_keys_replay [OF ok r assms(5) named assms(6), of delay inc] obtain cs where
      cs: "build_command_list env delay warp inc [w] = Some (Inr cs)" "filter takes_input cs = map key_call ?is" by blast
    moreover have "run_commands cs s = Some (Ret t)" using t(1) run_without_pauses [of cs s] cs(2) by simp
    ultimately show ?thesis using t(2) by blast
  qed
  show thesis
  proof (rule that [of p' bs])
    show "encode_unicode (rec_out (rs_recorder p')) = Inr bs" "read_text bs = Inr (rec_out (rs_recorder p'))"
      using p'(2) bs by simp_all
  qed (use p' blank replay in blast)+
qed





end
